(* ===== verification/Prelude.thy ===== *)
theory Prelude
  imports Main "HOL-Library.Monad_Syntax" "HOL-Library.Char_ord" "HOL-Library.List_Lexorder"
    "HOL-Library.Sublist"
begin

text \<open>
  Shared vocabulary of the development: the part of Python's string, list and integer
  operations that \<^verbatim>\<open>script/cpplint.py\<close> uses, the type of a computation that may raise,
  and the lemmas about them that the component theories share.

  \<^item> A Python string is a \<^typ>\<open>string\<close>; a character is a code point below 256. The lines
    cpplint reads are \<^verbatim>\<open>unicode\<close> objects, so \<open>isspace\<close>, \<open>strip\<close>, \<open>split\<close> and
    \<open>lower\<close> are the Unicode ones on these code points.
  \<^item> A computation that may raise an exception nobody catches has type \<open>'a py\<close>, an
    \<open>option\<close>: \<open>None\<close> is the exception.
  \<^item> \<open>raw\<close> plays the part of Python's \<^verbatim>\<open>r'...'\<close> literals: in its argument
    a backquote stands for a backslash (no pattern of the program contains a backquote).
\<close>

named_theorems py_simps \<open>equations that evaluate the Python string operations\<close>
named_theorems len_bounds \<open>bounds on lengths and positions\<close>

section \<open>Computations that may raise\<close>

type_synonym 'a py = "'a option"

abbreviation (input) raise :: "'a py" where
  "raise \<equiv> None"

abbreviation (input) returns :: "'a py \<Rightarrow> bool" where
  "returns m \<equiv> (\<exists>x. m = Some x)"

text \<open>\<open>xs[i]\<close>: a negative index counts from the end, any other one out of range raises.\<close>

definition py_index :: "'a list \<Rightarrow> int \<Rightarrow> 'a py" where
  "py_index xs i =
     (let n = int (length xs); j = (if i < 0 then n + i else i)
      in if 0 \<le> j \<and> j < n then Some (xs ! nat j) else raise)"

text \<open>\<open>xs[a:b]\<close>, \<open>xs[a:]\<close> and \<open>xs[:b]\<close>: bounds are clipped, never an error.\<close>

definition clip :: "nat \<Rightarrow> int \<Rightarrow> nat" where
  "clip n i = nat (max 0 (min (int n) (if i < 0 then int n + i else i)))"

definition py_slice :: "'a list \<Rightarrow> int \<Rightarrow> int \<Rightarrow> 'a list" where
  "py_slice xs a b = drop (clip (length xs) a) (take (clip (length xs) b) xs)"

definition py_from :: "'a list \<Rightarrow> int \<Rightarrow> 'a list" where
  "py_from xs a = drop (clip (length xs) a) xs"

definition py_upto :: "'a list \<Rightarrow> int \<Rightarrow> 'a list" where
  "py_upto xs b = take (clip (length xs) b) xs"

section \<open>Characters\<close>

definition backslash :: char where
  "backslash = CHR 0x5C"

definition newline :: char where
  "newline = CHR 0x0A"

definition raw :: "string \<Rightarrow> string" where
  "raw s = map (\<lambda>c. if c = CHR ''`'' then backslash else c) s"

definition code :: "char \<Rightarrow> nat" where
  "code c = of_char c"

text \<open>\<open>unicode.isspace\<close> of one character, on code points below 256.\<close>

definition is_space :: "char \<Rightarrow> bool" where
  "is_space c \<longleftrightarrow> (let n = code c in
     (9 \<le> n \<and> n \<le> 13) \<or> (28 \<le> n \<and> n \<le> 32) \<or> n = 133 \<or> n = 160)"

text \<open>The classes of the regular expressions (compiled without \<^verbatim>\<open>re.UNICODE\<close>): ASCII only.\<close>

definition re_digit :: "char \<Rightarrow> bool" where
  "re_digit c \<longleftrightarrow> (48 \<le> code c \<and> code c \<le> 57)"

definition re_space :: "char \<Rightarrow> bool" where
  "re_space c \<longleftrightarrow> (9 \<le> code c \<and> code c \<le> 13) \<or> code c = 32"

definition re_word :: "char \<Rightarrow> bool" where
  "re_word c \<longleftrightarrow> (let n = code c in
     (48 \<le> n \<and> n \<le> 57) \<or> (65 \<le> n \<and> n \<le> 90) \<or> n = 95 \<or> (97 \<le> n \<and> n \<le> 122))"

definition lower_char :: "char \<Rightarrow> char" where
  "lower_char c = (let n = code c in
     if (65 \<le> n \<and> n \<le> 90) \<or> (192 \<le> n \<and> n \<le> 222 \<and> n \<noteq> 215) then char_of (n + 32) else c)"

text \<open>\<open>upper\<close> is only applied to ASCII text in the program.\<close>

definition upper_char :: "char \<Rightarrow> char" where
  "upper_char c = (let n = code c in if 97 \<le> n \<and> n \<le> 122 then char_of (n - 32) else c)"

definition py_lower :: "string \<Rightarrow> string" where
  "py_lower s = map lower_char s"

definition py_upper :: "string \<Rightarrow> string" where
  "py_upper s = map upper_char s"

section \<open>Searching in strings\<close>

fun startswith :: "string \<Rightarrow> string \<Rightarrow> bool" where
  "startswith s [] = True"
| "startswith [] (p # ps) = False"
| "startswith (c # s) (p # ps) = (c = p \<and> startswith s ps)"

definition endswith :: "string \<Rightarrow> string \<Rightarrow> bool" where
  "endswith s p = startswith (rev s) (rev p)"

fun find_at :: "string \<Rightarrow> string \<Rightarrow> nat option" where
  "find_at [] sub = (if sub = [] then Some 0 else None)"
| "find_at (c # s) sub =
     (if startswith (c # s) sub then Some 0 else map_option Suc (find_at s sub))"

definition py_find :: "string \<Rightarrow> string \<Rightarrow> int" where
  "py_find s sub = (case find_at s sub of None \<Rightarrow> - 1 | Some k \<Rightarrow> int k)"

text \<open>\<open>s.find(sub, start)\<close> for \<open>start \<ge> 0\<close>.\<close>

definition py_find_from :: "string \<Rightarrow> string \<Rightarrow> nat \<Rightarrow> int" where
  "py_find_from s sub start =
     (if length s < start then - 1
      else case find_at (drop start s) sub of None \<Rightarrow> - 1 | Some k \<Rightarrow> int (start + k))"

definition contains :: "string \<Rightarrow> string \<Rightarrow> bool" where
  "contains s sub \<longleftrightarrow> find_at s sub \<noteq> None"

definition py_rfind :: "string \<Rightarrow> string \<Rightarrow> int" where
  "py_rfind s sub =
     (case find_at (rev s) (rev sub) of
        None \<Rightarrow> - 1 | Some k \<Rightarrow> int (length s) - int (length sub) - int k)"

text \<open>\<open>s.count(sub)\<close> for a non-empty \<open>sub\<close>: occurrences that do not overlap, from the left.\<close>

function py_count :: "string \<Rightarrow> string \<Rightarrow> nat" where
  "py_count s sub =
     (if sub = [] then Suc (length s)
      else case s of
        [] \<Rightarrow> 0
      | c # cs \<Rightarrow> if startswith s sub then Suc (py_count (drop (length sub) s) sub)
                  else py_count cs sub)"
  by pat_completeness auto
termination
  by (relation "measure (\<lambda>(s, sub). length s)") auto

declare py_count.simps [simp del]

text \<open>\<open>s.replace(old, new)\<close>.\<close>

function py_replace :: "string \<Rightarrow> string \<Rightarrow> string \<Rightarrow> string" where
  "py_replace s old new =
     (if old = [] then concat (map (\<lambda>c. new @ [c]) s) @ new
      else case s of
        [] \<Rightarrow> []
      | c # cs \<Rightarrow> if startswith s old then new @ py_replace (drop (length old) s) old new
                  else c # py_replace cs old new)"
  by pat_completeness auto
termination
  by (relation "measure (\<lambda>(s, old, new). length s)") auto

declare py_replace.simps [simp del]

section \<open>Splitting and stripping\<close>

definition py_lstrip :: "string \<Rightarrow> string" where
  "py_lstrip s = dropWhile is_space s"

definition py_rstrip :: "string \<Rightarrow> string" where
  "py_rstrip s = rev (dropWhile is_space (rev s))"

definition py_strip :: "string \<Rightarrow> string" where
  "py_strip s = py_rstrip (py_lstrip s)"

text \<open>\<open>s.lstrip(chars)\<close>, \<open>s.rstrip(chars)\<close> and \<open>s.strip(chars)\<close>.\<close>

definition lstrip_chars :: "string \<Rightarrow> string \<Rightarrow> string" where
  "lstrip_chars cs s = dropWhile (\<lambda>c. c \<in> set cs) s"

definition rstrip_chars :: "string \<Rightarrow> string \<Rightarrow> string" where
  "rstrip_chars cs s = rev (dropWhile (\<lambda>c. c \<in> set cs) (rev s))"

definition strip_chars :: "string \<Rightarrow> string \<Rightarrow> string" where
  "strip_chars cs s = rstrip_chars cs (lstrip_chars cs s)"

text \<open>\<open>s.strip()\<close> of a byte string: command lines and configuration files are not decoded.\<close>

definition str_strip :: "string \<Rightarrow> string" where
  "str_strip s = rev (dropWhile re_space (rev (dropWhile re_space s)))"

text \<open>\<open>s.isspace()\<close>: not empty and only white space.\<close>

definition py_isspace :: "string \<Rightarrow> bool" where
  "py_isspace s \<longleftrightarrow> s \<noteq> [] \<and> list_all is_space s"

text \<open>
  \<open>unicode.isdigit\<close> on code points below 256: the decimal digits and the superscripts 1, 2 and 3.
\<close>

definition py_isdigit :: "string \<Rightarrow> bool" where
  "py_isdigit s \<longleftrightarrow> s \<noteq> [] \<and> list_all (\<lambda>c. re_digit c \<or> code c \<in> {178, 179, 185}) s"

text \<open>\<open>s.split(c)\<close> for a separator of one character: never empty.\<close>

fun split_on :: "char \<Rightarrow> string \<Rightarrow> string list" where
  "split_on c [] = [[]]"
| "split_on c (x # xs) =
     (if x = c then [] # split_on c xs
      else case split_on c xs of [] \<Rightarrow> [[x]] | w # ws \<Rightarrow> (x # w) # ws)"

text \<open>\<open>s.split()\<close>: the maximal runs of characters that are not white space.\<close>

fun split_ws :: "string \<Rightarrow> string list" where
  "split_ws [] = []"
| "split_ws (x # xs) =
     (if is_space x then split_ws xs
      else case xs of
        [] \<Rightarrow> [[x]]
      | y # ys \<Rightarrow> if is_space y then [x] # split_ws xs
                  else case split_ws xs of [] \<Rightarrow> [[x]] | w # ws \<Rightarrow> (x # w) # ws)"

text \<open>\<open>s.partition(c)\<close>, as the pair of the text before and the text after the separator.\<close>

definition py_partition :: "char \<Rightarrow> string \<Rightarrow> string \<times> string" where
  "py_partition c s = (takeWhile (\<lambda>x. x \<noteq> c) s, drop 1 (dropWhile (\<lambda>x. x \<noteq> c) s))"

fun py_join :: "string \<Rightarrow> string list \<Rightarrow> string" where
  "py_join sep [] = []"
| "py_join sep [w] = w"
| "py_join sep (w # ws) = w @ sep @ py_join sep ws"

section \<open>Numbers as text\<close>

definition digit_char :: "nat \<Rightarrow> char" where
  "digit_char d = char_of (48 + d)"

fun str_of_nat :: "nat \<Rightarrow> string" where
  "str_of_nat n = (if n < 10 then [digit_char n] else str_of_nat (n div 10) @ [digit_char (n mod 10)])"

declare str_of_nat.simps [simp del]

definition str_of_int :: "int \<Rightarrow> string" where
  "str_of_int i = (if i < 0 then CHR ''-'' # str_of_nat (nat (- i)) else str_of_nat (nat i))"

section \<open>Lemmas on prefixes, suffixes and occurrences\<close>

lemma startswith_iff: "startswith s p \<longleftrightarrow> (\<exists>t. s = p @ t)"
  by (induction s p rule: startswith.induct) auto

lemma startswith_take: "startswith s p \<longleftrightarrow> take (length p) s = p"
  by (induction s p rule: startswith.induct) auto

lemma startswith_append [simp]: "startswith (p @ t) p"
  by (auto simp: startswith_iff)

lemma endswith_iff: "endswith s p \<longleftrightarrow> (\<exists>t. s = t @ p)"
proof -
  have "endswith s p \<longleftrightarrow> (\<exists>t. rev s = rev p @ t)"
    by (simp add: endswith_def startswith_iff)
  also have "\<dots> \<longleftrightarrow> (\<exists>t. s = t @ p)"
    by (metis rev_append rev_rev_ident)
  finally show ?thesis .
qed

lemma endswith_append [simp]: "endswith (t @ p) p"
  by (auto simp: endswith_iff)

lemma find_at_Some:
  "find_at s sub = Some k \<Longrightarrow> k + length sub \<le> length s \<and> startswith (drop k s) sub"
proof (induction s sub arbitrary: k rule: find_at.induct)
  case (1 sub)
  then show ?case by (simp split: if_splits)
next
  case (2 c s sub)
  show ?case
  proof (cases "startswith (c # s) sub")
    case True
    with 2 show ?thesis by (auto simp: startswith_iff dest: arg_cong [where f = length])
  next
    case False
    with 2 show ?thesis by auto
  qed
qed

lemma find_at_None: "find_at s sub = None \<longleftrightarrow> (\<nexists>a b. s = a @ sub @ b)"
proof (induction s sub rule: find_at.induct)
  case (1 sub)
  then show ?case by simp
next
  case (2 c s sub)
  show ?case
  proof (cases "startswith (c # s) sub")
    case True
    then show ?thesis by (auto simp: startswith_iff intro: exI [of _ "[]"])
  next
    case False
    have "(\<exists>a b. c # s = a @ sub @ b) \<longleftrightarrow> (\<exists>a b. s = a @ sub @ b)"
    proof
      assume "\<exists>a b. c # s = a @ sub @ b"
      then obtain a b where ab: "c # s = a @ sub @ b" by blast
      with False have "a \<noteq> []" by (auto simp: startswith_iff)
      then obtain a' where "a = c # a'" using ab by (cases a) auto
      with ab show "\<exists>a b. s = a @ sub @ b" by auto
    next
      assume "\<exists>a b. s = a @ sub @ b"
      then show "\<exists>a b. c # s = a @ sub @ b" by (metis append_Cons)
    qed
    with False 2 show ?thesis by simp
  qed
qed

lemma find_at_least:
  "find_at s sub = Some k \<Longrightarrow> j < k \<Longrightarrow> \<not> startswith (drop j s) sub"
proof (induction s sub arbitrary: j k rule: find_at.induct)
  case (1 sub)
  then show ?case by (simp split: if_splits)
next
  case (2 c s sub)
  then show ?case by (cases j) (auto split: if_splits)
qed

lemma contains_iff: "contains s sub \<longleftrightarrow> (\<exists>a b. s = a @ sub @ b)"
  using find_at_None [of s sub] by (auto simp: contains_def)

lemma py_find_nonneg: "0 \<le> py_find s sub \<longleftrightarrow> contains s sub"
  by (auto simp: py_find_def contains_def split: option.splits)

lemma py_find_neg: "py_find s sub < 0 \<longleftrightarrow> \<not> contains s sub"
  by (auto simp: py_find_def contains_def split: option.splits)

lemma find_at_single: "find_at s [c] = None \<longleftrightarrow> c \<notin> set s"
  by (simp add: find_at_None) (metis in_set_conv_decomp)

lemma py_lstrip_length [len_bounds]: "length (py_lstrip s) \<le> length s"
  by (simp add: py_lstrip_def length_dropWhile_le)

lemma split_on_nonempty [simp]: "split_on c s \<noteq> []"
  by (cases s) (auto split: list.splits)

lemma split_on_no_sep: "w \<in> set (split_on c s) \<Longrightarrow> c \<notin> set w"
  by (induction s arbitrary: w) (auto split: list.splits if_splits)

lemma py_join_split_on: "py_join [c] (split_on c s) = s"
proof (induction s)
  case Nil
  then show ?case by simp
next
  case (Cons x xs)
  show ?case
  proof (cases "split_on c xs")
    case Nil
    then show ?thesis by simp
  next
    case (Cons w ws)
    with \<open>py_join [c] (split_on c xs) = xs\<close> show ?thesis by (cases ws) auto
  qed
qed

lemma clip_le [len_bounds]: "clip n i \<le> n"
  by (auto simp: clip_def)

lemma clip_nonneg [simp]: "0 \<le> i \<Longrightarrow> clip n i = min n (nat i)"
  by (auto simp: clip_def)

lemma py_index_nat [simp]: "i < length xs \<Longrightarrow> py_index xs (int i) = Some (xs ! i)"
  by (simp add: py_index_def)

lemma py_index_in_range: "0 \<le> i \<Longrightarrow> i < int (length xs) \<Longrightarrow> py_index xs i = Some (xs ! nat i)"
  by (simp add: py_index_def)

lemma py_index_set: "py_index xs i = Some x \<Longrightarrow> x \<in> set xs"
  by (auto simp: py_index_def Let_def split: if_splits)

lemma py_index_returns: "- int (length xs) \<le> i \<Longrightarrow> i < int (length xs) \<Longrightarrow> returns (py_index xs i)"
  by (simp add: py_index_def Let_def)

end
