(* ===== verification/Regex.thy ===== *)
theory Regex
  imports Prelude
begin

text \<open>
  Python's regular expressions (\<^verbatim>\<open>re\<close> / \<^verbatim>\<open>sre_compile\<close>), as far as the program uses
  them, and the three wrappers \<^verbatim>\<open>Match\<close>, \<^verbatim>\<open>Search\<close> and \<^verbatim>\<open>ReplaceAll\<close> of
  \<^verbatim>\<open>script/cpplint.py\<close>.

  \<^item> \<open>re_compile\<close> parses a pattern string. The fragment: literals and escapes, \<open>.\<close>,
    sets, the classes \<^verbatim>\<open>\d \s \w\<close> and their complements, \<open>^\<close>, \<open>$\<close>,
    \<^verbatim>\<open>\b \B\<close>, groups (capturing or not), \<open>|\<close>, the repeats \<open>* + ? {m} {m,n}\<close>
    greedy and lazy, look-ahead, back references and the flag \<open>(?i)\<close>. A malformed pattern
    is \<open>None\<close> (Python raises \<^verbatim>\<open>re.error\<close>), as are the constructs outside the fragment.
  \<^item> \<open>run\<close> is the backtracking matcher: the list of all ways to match at a position, in the
    order in which the backtracking engine tries them. Its head is the match the engine reports.
  \<^item> \<open>denotes\<close> is the declarative reading of an expression as a relation, and
    \<open>run_denotes\<close> says the matcher enumerates exactly that relation.
  \<^item> The locale \<open>matcher\<close> is the interface between an engine and the functions that
    search, iterate and substitute: what an engine must guarantee for them to be correct.
\<close>

declare split_paired_All [simp del] split_paired_Ex [simp del]

section \<open>Expressions\<close>

datatype re_cat = CatDigit | CatNotDigit | CatSpace | CatNotSpace | CatWord | CatNotWord

datatype re_item = ItemChar char | ItemRange char char | ItemCat re_cat

datatype re =
    REmpty
  | RChar char
  | RAny
  | RSet bool "re_item list"  \<comment> \<open>\<open>True\<close>: the set is negated\<close>
  | RBegin
  | REnd
  | RBoundary bool  \<comment> \<open>\<open>False\<close>: not a boundary\<close>
  | RSeq re re
  | RAlt re re
  | RRepeat nat "nat option" bool re  \<comment> \<open>minimum, maximum, greedy\<close>
  | RGroup nat re
  | RLook bool re  \<comment> \<open>\<open>False\<close>: negative look-ahead\<close>
  | RBackref nat

section \<open>The parser\<close>

datatype group_kind = Capture nat | NoCapture | LookAhead bool

datatype re_tok =
    TItem re
  | TOpen
  | TOpenNoCapture
  | TOpenLook bool
  | TClose
  | TBar
  | TQuant nat "nat option" bool
  | TBackref nat
  | TFlagI

text \<open>The escapes that name a category, shared by sets and plain text.\<close>

definition category_escape :: "char \<Rightarrow> re_cat option" where
  "category_escape c =
     (if c = CHR ''d'' then Some CatDigit else if c = CHR ''D'' then Some CatNotDigit
      else if c = CHR ''s'' then Some CatSpace else if c = CHR ''S'' then Some CatNotSpace
      else if c = CHR ''w'' then Some CatWord else if c = CHR ''W'' then Some CatNotWord
      else None)"

definition control_escape :: "char \<Rightarrow> char option" where
  "control_escape c =
     (if c = CHR ''n'' then Some (CHR 0x0A) else if c = CHR ''t'' then Some (CHR 0x09)
      else if c = CHR ''r'' then Some (CHR 0x0D) else if c = CHR ''f'' then Some (CHR 0x0C)
      else if c = CHR ''v'' then Some (CHR 0x0B) else if c = CHR ''a'' then Some (CHR 0x07)
      else None)"

definition class_escape :: "char \<Rightarrow> re_item option" where
  "class_escape c =
     (case category_escape c of
        Some k \<Rightarrow> Some (ItemCat k)
      | None \<Rightarrow>
          (case control_escape c of
             Some x \<Rightarrow> Some (ItemChar x)
           | None \<Rightarrow> if c = CHR ''b'' then Some (ItemChar (CHR 0x08))
                     else if re_digit c \<or> c = CHR ''x'' then None
                     else Some (ItemChar c)))"

text \<open>One element of a set: a plain character or an escape.\<close>

definition set_element :: "string \<Rightarrow> (re_item \<times> string) option" where
  "set_element s =
     (case s of
        [] \<Rightarrow> None
      | c # cs \<Rightarrow>
          if c = backslash
          then (case cs of
                  [] \<Rightarrow> None
                | d # ds \<Rightarrow> map_option (\<lambda>it. (it, ds)) (class_escape d))
          else Some (ItemChar c, cs))"

lemma set_element_shorter: "set_element s = Some (it, s') \<Longrightarrow> length s' < length s"
  by (auto simp: set_element_def split: list.splits if_splits)

definition mk_range :: "re_item \<Rightarrow> re_item \<Rightarrow> re_item option" where
  "mk_range a b =
     (case (a, b) of
        (ItemChar x, ItemChar y) \<Rightarrow> if code x \<le> code y then Some (ItemRange x y) else None
      | _ \<Rightarrow> None)"

text \<open>
  One element or one range of a set, and whether the set ends right after it (a hyphen before the
  closing bracket stands for itself).
\<close>

definition set_step :: "string \<Rightarrow> (re_item list \<times> bool \<times> string) option" where
  "set_step s =
     (case set_element s of
        None \<Rightarrow> None
      | Some (it, s1) \<Rightarrow>
          (case s1 of
             [] \<Rightarrow> Some ([it], False, [])
           | d # ds \<Rightarrow>
               if d = CHR ''-''
               then (case ds of
                       [] \<Rightarrow> None
                     | e # es \<Rightarrow>
                         if e = CHR '']'' then Some ([it, ItemChar (CHR ''-'')], True, es)
                         else (case set_element ds of
                                 None \<Rightarrow> None
                               | Some (it2, s2) \<Rightarrow>
                                   map_option (\<lambda>r. ([r], False, s2)) (mk_range it it2)))
               else Some ([it], False, s1)))"

lemma set_step_shorter: "set_step s = Some (its, b, u) \<Longrightarrow> length u < length s"
  by (auto simp: set_step_def split: option.splits list.splits if_splits
      dest!: set_element_shorter)

text \<open>The elements up to the closing bracket; \<open>first\<close>: no element has been read yet.\<close>

function set_items :: "bool \<Rightarrow> string \<Rightarrow> (re_item list \<times> string) option" where
  "set_items first [] = None"
| "set_items first (c # cs) =
     (if c = CHR '']'' \<and> \<not> first then Some ([], cs)
      else (case set_step (c # cs) of
              None \<Rightarrow> None
            | Some (its, closed, u) \<Rightarrow>
                if closed then Some (its, u)
                else map_option (\<lambda>(its', v). (its @ its', v)) (set_items False u)))"
  by pat_completeness auto
termination
  by (relation "measure (\<lambda>(first, s). length s)") (auto dest!: set_step_shorter)

lemma set_items_shorter: "set_items first s = Some (its, u) \<Longrightarrow> length u < length s"
  by (induction first s arbitrary: its u rule: set_items.induct)
    (fastforce split: if_splits option.splits dest: set_step_shorter)+

declare set_items.simps [simp del]

text \<open>A decimal numeral at the front of a string.\<close>

fun read_digits :: "string \<Rightarrow> string \<times> string" where
  "read_digits [] = ([], [])"
| "read_digits (c # cs) =
     (if re_digit c then (case read_digits cs of (ds, u) \<Rightarrow> (c # ds, u)) else ([], c # cs))"

definition nat_of_digits :: "string \<Rightarrow> nat" where
  "nat_of_digits ds = foldl (\<lambda>n c. 10 * n + (code c - 48)) 0 ds"

text \<open>
  The repeat after an opening brace: its bounds and what follows the closing brace. \<open>None\<close>:
  not a repeat, the brace stands for itself.
\<close>

definition read_braces :: "string \<Rightarrow> (nat \<times> nat option \<times> string) option" where
  "read_braces s =
     (if (case s of [] \<Rightarrow> False | c # _ \<Rightarrow> c = CHR ''}'') then None
      else (case read_digits s of
        (lo, s1) \<Rightarrow>
          let (hi, s2) =
                (case s1 of
                   c # cs \<Rightarrow> if c = CHR '','' then read_digits cs else (lo, s1)
                 | [] \<Rightarrow> (lo, s1))
          in (case s2 of
                c # u \<Rightarrow>
                  if c = CHR ''}''
                  then Some (nat_of_digits lo,
                             if hi = [] then None else Some (nat_of_digits hi), u)
                  else None
              | [] \<Rightarrow> None)))"

lemma read_digits_length: "read_digits s = (ds, u) \<Longrightarrow> length u \<le> length s"
  by (induction s arbitrary: ds u) (auto split: if_splits prod.splits intro: le_SucI)

lemma read_braces_shorter: "read_braces s = Some (lo, hi, u) \<Longrightarrow> length u < length s"
  by (auto simp: read_braces_def split: if_splits prod.splits list.splits
      dest!: read_digits_length)

text \<open>A repeat is lazy when a question mark follows it.\<close>

definition lazy_mark :: "string \<Rightarrow> bool \<times> string" where
  "lazy_mark s = (case s of c # cs \<Rightarrow> if c = CHR ''?'' then (False, cs) else (True, s)
                          | [] \<Rightarrow> (True, s))"

lemma lazy_mark_length: "lazy_mark s = (g, u) \<Longrightarrow> length u \<le> length s"
  by (auto simp: lazy_mark_def split: list.splits if_splits)

text \<open>What an escape outside a set stands for.\<close>

definition escape_tok :: "char \<Rightarrow> re_tok option" where
  "escape_tok c =
     (case category_escape c of
        Some k \<Rightarrow> Some (TItem (RSet False [ItemCat k]))
      | None \<Rightarrow>
          if c = CHR ''b'' then Some (TItem (RBoundary True))
          else if c = CHR ''B'' then Some (TItem (RBoundary False))
          else (case control_escape c of
                  Some x \<Rightarrow> Some (TItem (RChar x))
                | None \<Rightarrow>
                    if re_digit c
                    then (if c = CHR ''0'' then None else Some (TBackref (code c - 48)))
                    else if c \<in> {CHR ''x'', CHR ''A'', CHR ''Z''} then None
                    else Some (TItem (RChar c))))"

text \<open>The token at the front of a non-empty pattern, and the rest of the pattern.\<close>

definition next_tok :: "char \<Rightarrow> string \<Rightarrow> (re_tok \<times> string) option" where
  "next_tok c s =
     (if c = backslash
      then (case s of [] \<Rightarrow> None | d # ds \<Rightarrow> map_option (\<lambda>t. (t, ds)) (escape_tok d))
      else if c = CHR ''.'' then Some (TItem RAny, s)
      else if c = CHR ''^'' then Some (TItem RBegin, s)
      else if c = CHR ''$'' then Some (TItem REnd, s)
      else if c = CHR ''|'' then Some (TBar, s)
      else if c = CHR '')'' then Some (TClose, s)
      else if c = CHR ''('' then
        (case s of
           [] \<Rightarrow> Some (TOpen, s)
         | d # ds \<Rightarrow>
             if d = CHR ''?''
             then (case ds of
                     [] \<Rightarrow> None
                   | e # es \<Rightarrow>
                       if e = CHR '':'' then Some (TOpenNoCapture, es)
                       else if e = CHR ''='' then Some (TOpenLook True, es)
                       else if e = CHR ''!'' then Some (TOpenLook False, es)
                       else if startswith ds ''i)'' then Some (TFlagI, drop 2 ds)
                       else None)
             else Some (TOpen, s))
      else if c = CHR ''['' then
        (let (neg, body) = (case s of d # ds \<Rightarrow> if d = CHR ''^'' then (True, ds) else (False, s)
                                    | [] \<Rightarrow> (False, s))
         in map_option (\<lambda>(its, u). (TItem (RSet neg its), u)) (set_items True body))
      else if c = CHR ''*'' then (case lazy_mark s of (g, u) \<Rightarrow> Some (TQuant 0 None g, u))
      else if c = CHR ''+'' then (case lazy_mark s of (g, u) \<Rightarrow> Some (TQuant 1 None g, u))
      else if c = CHR ''?'' then (case lazy_mark s of (g, u) \<Rightarrow> Some (TQuant 0 (Some 1) g, u))
      else if c = CHR ''{'' then
        (case read_braces s of
           None \<Rightarrow> Some (TItem (RChar c), s)
         | Some (lo, hi, u) \<Rightarrow>
             (case hi of
                Some h \<Rightarrow> if h < lo then None
                          else (case lazy_mark u of (g, v) \<Rightarrow> Some (TQuant lo hi g, v))
              | None \<Rightarrow> (case lazy_mark u of (g, v) \<Rightarrow> Some (TQuant lo hi g, v))))
      else Some (TItem (RChar c), s))"

lemma next_tok_length: "next_tok c s = Some (t, u) \<Longrightarrow> length u \<le> length s"
  by (auto simp: next_tok_def Let_def split: if_splits list.splits option.splits prod.splits
      dest!: set_items_shorter read_braces_shorter lazy_mark_length)

function tokens :: "string \<Rightarrow> re_tok list option" where
  "tokens [] = Some []"
| "tokens (c # s) =
     (case next_tok c s of
        None \<Rightarrow> None
      | Some (t, u) \<Rightarrow> map_option (\<lambda>ts. t # ts) (tokens u))"
  by pat_completeness auto
termination
  by (relation "measure length") (auto dest!: next_tok_length)

text \<open>Sequences and alternatives, innermost last.\<close>

fun mk_seq :: "re list \<Rightarrow> re" where
  "mk_seq [] = REmpty"
| "mk_seq [r] = r"
| "mk_seq (r # rs) = RSeq r (mk_seq rs)"

fun mk_alt :: "re list \<Rightarrow> re" where
  "mk_alt [] = REmpty"
| "mk_alt [r] = r"
| "mk_alt (r # rs) = RAlt r (mk_alt rs)"

text \<open>Anchors and repeats cannot be repeated.\<close>

definition repeatable :: "re \<Rightarrow> bool" where
  "repeatable r = (case r of RBegin \<Rightarrow> False | REnd \<Rightarrow> False | RBoundary _ \<Rightarrow> False
                           | RRepeat _ _ _ _ \<Rightarrow> False | _ \<Rightarrow> True)"

definition close_group :: "group_kind \<Rightarrow> re \<Rightarrow> re" where
  "close_group k r = (case k of Capture n \<Rightarrow> RGroup n r | NoCapture \<Rightarrow> r | LookAhead b \<Rightarrow> RLook b r)"

text \<open>
  The parser proper: \<open>stack\<close> holds the open groups, each with the alternatives and the items
  read before it; \<open>alts\<close> and \<open>items\<close> are those of the innermost group, latest first;
  \<open>gid\<close> is the next group number.
\<close>

type_synonym frame = "group_kind \<times> re list \<times> re list"

fun parse_toks :: "re_tok list \<Rightarrow> frame list \<Rightarrow> re list \<Rightarrow> re list \<Rightarrow> nat \<Rightarrow> bool \<Rightarrow> (bool \<times> re) option"
where
  "parse_toks [] stack alts items gid ci =
     (if stack = [] then Some (ci, mk_alt (rev (mk_seq (rev items) # alts))) else None)"
| "parse_toks (TItem r # ts) stack alts items gid ci =
     parse_toks ts stack alts (r # items) gid ci"
| "parse_toks (TBackref n # ts) stack alts items gid ci =
     (if n < gid \<and> (\<forall>(k, _) \<in> set stack. k \<noteq> Capture n)
      then parse_toks ts stack alts (RBackref n # items) gid ci else None)"
| "parse_toks (TBar # ts) stack alts items gid ci =
     parse_toks ts stack (mk_seq (rev items) # alts) [] gid ci"
| "parse_toks (TOpen # ts) stack alts items gid ci =
     parse_toks ts ((Capture gid, alts, items) # stack) [] [] (Suc gid) ci"
| "parse_toks (TOpenNoCapture # ts) stack alts items gid ci =
     parse_toks ts ((NoCapture, alts, items) # stack) [] [] gid ci"
| "parse_toks (TOpenLook b # ts) stack alts items gid ci =
     parse_toks ts ((LookAhead b, alts, items) # stack) [] [] gid ci"
| "parse_toks (TClose # ts) stack alts items gid ci =
     (case stack of
        [] \<Rightarrow> None
      | (k, alts', items') # stack' \<Rightarrow>
          parse_toks ts stack' alts'
            (close_group k (mk_alt (rev (mk_seq (rev items) # alts))) # items') gid ci)"
| "parse_toks (TQuant lo hi g # ts) stack alts items gid ci =
     (case items of
        [] \<Rightarrow> None
      | r # items' \<Rightarrow>
          if repeatable r then parse_toks ts stack alts (RRepeat lo hi g r # items') gid ci
          else None)"
| "parse_toks (TFlagI # ts) stack alts items gid ci = parse_toks ts stack alts items gid True"

definition re_compile :: "string \<Rightarrow> (bool \<times> re) py" where
  "re_compile p = (case tokens p of None \<Rightarrow> raise | Some ts \<Rightarrow> parse_toks ts [] [] [] 1 False)"

section \<open>The matcher\<close>

text \<open>
  A cursor is a position in the text with the character before it and the text after it.
  The groups matched so far are an association list, the latest first, from a group number to the
  positions of its first character and just after its last.
\<close>

type_synonym cursor = "nat \<times> char option \<times> string"
type_synonym groups = "(nat \<times> nat \<times> nat) list"

abbreviation pos_of :: "cursor \<Rightarrow> nat" where
  "pos_of c \<equiv> fst c"

abbreviation rest_of :: "cursor \<Rightarrow> string" where
  "rest_of c \<equiv> snd (snd c)"

definition cat_match :: "re_cat \<Rightarrow> char \<Rightarrow> bool" where
  "cat_match k c = (case k of
     CatDigit \<Rightarrow> re_digit c | CatNotDigit \<Rightarrow> \<not> re_digit c
   | CatSpace \<Rightarrow> re_space c | CatNotSpace \<Rightarrow> \<not> re_space c
   | CatWord \<Rightarrow> re_word c | CatNotWord \<Rightarrow> \<not> re_word c)"

definition fold_char :: "bool \<Rightarrow> char \<Rightarrow> char" where
  "fold_char ci c = (if ci \<and> 65 \<le> code c \<and> code c \<le> 90 then char_of (code c + 32) else c)"

fun item_match :: "bool \<Rightarrow> re_item \<Rightarrow> char \<Rightarrow> bool" where
  "item_match ci (ItemChar x) c = (fold_char ci x = fold_char ci c)"
| "item_match ci (ItemRange x y) c =
     (code (fold_char ci x) \<le> code (fold_char ci c) \<and> code (fold_char ci c) \<le> code (fold_char ci y))"
| "item_match ci (ItemCat k) c = cat_match k (fold_char ci c)"

definition set_match :: "bool \<Rightarrow> bool \<Rightarrow> re_item list \<Rightarrow> char \<Rightarrow> bool" where
  "set_match ci neg its c = (neg \<noteq> list_ex (\<lambda>it. item_match ci it c) its)"

text \<open>Consume one character that satisfies \<open>P\<close>.\<close>

fun one_char :: "(char \<Rightarrow> bool) \<Rightarrow> cursor \<Rightarrow> groups \<Rightarrow> (cursor \<times> groups) list" where
  "one_char P (i, p, []) g = []"
| "one_char P (i, p, x # xs) g = (if P x then [((Suc i, Some x, xs), g)] else [])"

definition at_boundary :: "cursor \<Rightarrow> bool" where
  "at_boundary c =
     ((case fst (snd c) of None \<Rightarrow> False | Some x \<Rightarrow> re_word x) \<noteq>
      (case rest_of c of [] \<Rightarrow> False | x # _ \<Rightarrow> re_word x))"

text \<open>
  \<open>iter f greedy mn mx\<close>: at least \<open>mn\<close> and at most \<open>mx\<close> rounds of \<open>f\<close>. Beyond the
  minimum a round that consumes nothing is the last one, as in the engine.
\<close>

fun iter :: "(cursor \<Rightarrow> groups \<Rightarrow> (cursor \<times> groups) list) \<Rightarrow> bool \<Rightarrow> nat \<Rightarrow> nat
    \<Rightarrow> cursor \<Rightarrow> groups \<Rightarrow> (cursor \<times> groups) list" where
  "iter f greedy mn 0 c g = (if mn = 0 then [(c, g)] else [])"
| "iter f greedy (Suc mn) (Suc mx) c g = concat (map (\<lambda>(c', g'). iter f greedy mn mx c' g') (f c g))"
| "iter f greedy 0 (Suc mx) c g =
     (let more = concat (map (\<lambda>(c', g'). if pos_of c' = pos_of c then [(c', g')]
                                         else iter f greedy 0 mx c' g') (f c g))
      in if greedy then more @ [(c, g)] else (c, g) # more)"

text \<open>
  The rounds a repeat without a maximum can make: its minimum, one for every character left, and
  one that consumes nothing.
\<close>

definition max_rounds :: "nat \<Rightarrow> nat option \<Rightarrow> cursor \<Rightarrow> nat" where
  "max_rounds mn mx c = (case mx of Some n \<Rightarrow> n | None \<Rightarrow> mn + length (rest_of c) + 1)"

text \<open>The text between two positions.\<close>

definition text_between :: "string \<Rightarrow> nat \<Rightarrow> nat \<Rightarrow> string" where
  "text_between s a b = take (b - a) (drop a s)"

text \<open>Advance over a given text.\<close>

fun eat :: "bool \<Rightarrow> string \<Rightarrow> cursor \<Rightarrow> cursor option" where
  "eat ci [] c = Some c"
| "eat ci (y # ys) (i, p, []) = None"
| "eat ci (y # ys) (i, p, x # xs) =
     (if fold_char ci x = fold_char ci y then eat ci ys (Suc i, Some x, xs) else None)"

primrec run :: "bool \<Rightarrow> string \<Rightarrow> re \<Rightarrow> cursor \<Rightarrow> groups \<Rightarrow> (cursor \<times> groups) list" where
  "run ci s REmpty = (\<lambda>c g. [(c, g)])"
| "run ci s (RChar x) = one_char (\<lambda>y. fold_char ci x = fold_char ci y)"
| "run ci s RAny = one_char (\<lambda>y. y \<noteq> newline)"
| "run ci s (RSet neg its) = one_char (set_match ci neg its)"
| "run ci s RBegin = (\<lambda>c g. if pos_of c = 0 then [(c, g)] else [])"
| "run ci s REnd = (\<lambda>c g. if rest_of c = [] \<or> rest_of c = [newline] then [(c, g)] else [])"
| "run ci s (RBoundary b) = (\<lambda>c g. if at_boundary c = b then [(c, g)] else [])"
| "run ci s (RSeq r1 r2) = (\<lambda>c g. concat (map (\<lambda>(c', g'). run ci s r2 c' g') (run ci s r1 c g)))"
| "run ci s (RAlt r1 r2) = (\<lambda>c g. run ci s r1 c g @ run ci s r2 c g)"
| "run ci s (RRepeat mn mx gr r) = (\<lambda>c g. iter (run ci s r) gr mn (max_rounds mn mx c) c g)"
| "run ci s (RGroup n r) =
     (\<lambda>c g. map (\<lambda>(c', g'). (c', (n, pos_of c, pos_of c') # g')) (run ci s r c g))"
| "run ci s (RLook b r) =
     (\<lambda>c g. case run ci s r c g of
               [] \<Rightarrow> if b then [] else [(c, g)]
             | (_, g') # _ \<Rightarrow> if b then [(c, g')] else [])"
| "run ci s (RBackref n) =
     (\<lambda>c g. case map_of g n of
               None \<Rightarrow> []
             | Some (a, b) \<Rightarrow> (case eat ci (text_between s a b) c of None \<Rightarrow> [] | Some c' \<Rightarrow> [(c', g)]))"

section \<open>Searching, iterating, substituting\<close>

record rmatch =
  m_string :: string
  m_start :: nat
  m_end :: nat
  m_groups :: groups

text \<open>\<open>match.group(n)\<close>: \<open>None\<close> for a group that took no part in the match.\<close>

definition group :: "rmatch \<Rightarrow> nat \<Rightarrow> string option" where
  "group m n =
     (if n = 0 then Some (text_between (m_string m) (m_start m) (m_end m))
      else map_option (\<lambda>(a, b). text_between (m_string m) a b) (map_of (m_groups m) n))"

text \<open>The same where the pattern makes sure that the group took part.\<close>

definition group_text :: "rmatch \<Rightarrow> nat \<Rightarrow> string" where
  "group_text m n = (case group m n of None \<Rightarrow> [] | Some t \<Rightarrow> t)"

definition start_cursor :: "string \<Rightarrow> cursor" where
  "start_cursor s = (0, None, s)"

type_synonym engine = "cursor \<Rightarrow> groups \<Rightarrow> (cursor \<times> groups) list"

text \<open>The first match at a cursor.\<close>

definition match_here :: "engine \<Rightarrow> cursor \<Rightarrow> (cursor \<times> groups) option" where
  "match_here f c = (case f c [] of [] \<Rightarrow> None | x # _ \<Rightarrow> Some x)"

text \<open>The leftmost match from a cursor on: where it starts, where it ends, its groups.\<close>

function search_from :: "engine \<Rightarrow> cursor \<Rightarrow> (cursor \<times> cursor \<times> groups) option" where
  "search_from f (i, p, xs) =
     (case match_here f (i, p, xs) of
        Some (c', g) \<Rightarrow> Some ((i, p, xs), c', g)
      | None \<Rightarrow> (case xs of [] \<Rightarrow> None | y # ys \<Rightarrow> search_from f (Suc i, Some y, ys)))"
  by pat_completeness auto
termination
  by (relation "measure (\<lambda>(f, c). length (rest_of c))") auto

declare search_from.simps [simp del]

definition mk_match :: "string \<Rightarrow> cursor \<times> cursor \<times> groups \<Rightarrow> rmatch" where
  "mk_match s r = (case r of (c, c', g) \<Rightarrow>
     \<lparr>m_string = s, m_start = pos_of c, m_end = pos_of c', m_groups = g\<rparr>)"

text \<open>
  All matches from left to right, as \<^verbatim>\<open>finditer\<close> and \<^verbatim>\<open>findall\<close> produce them: after an empty
  match the search resumes one character further on. \<open>fuel\<close> bounds the number of matches; one
  more than the characters left is enough (\<open>matches_from_enough\<close>).
\<close>

fun matches_from :: "nat \<Rightarrow> engine \<Rightarrow> cursor \<Rightarrow> (cursor \<times> cursor \<times> groups) list" where
  "matches_from 0 f c = []"
| "matches_from (Suc fuel) f c =
     (case search_from f c of
        None \<Rightarrow> []
      | Some (a, b, g) \<Rightarrow>
          (a, b, g) #
          (if pos_of a = pos_of b
           then (case rest_of b of [] \<Rightarrow> [] | y # ys \<Rightarrow> matches_from fuel f (Suc (pos_of b), Some y, ys))
           else matches_from fuel f b))"

definition all_matches :: "engine \<Rightarrow> string \<Rightarrow> (cursor \<times> cursor \<times> groups) list" where
  "all_matches f s = matches_from (Suc (length s)) f (start_cursor s)"

text \<open>
  \<^verbatim>\<open>sub\<close> (Python 2.7): the text between the matches is kept and every match is replaced; an
  empty match right after the previous match is skipped.
\<close>

fun sub_pieces :: "(rmatch \<Rightarrow> string) \<Rightarrow> string \<Rightarrow> nat \<Rightarrow> bool \<Rightarrow> rmatch list \<Rightarrow> string" where
  "sub_pieces rep s i later [] = drop i s"
| "sub_pieces rep s i later (m # ms) =
     (if i = m_start m \<and> i = m_end m \<and> later then sub_pieces rep s i later ms
      else text_between s i (m_start m) @ rep m @ sub_pieces rep s (m_end m) True ms)"

definition engine_of :: "bool \<times> re \<Rightarrow> string \<Rightarrow> engine" where
  "engine_of r s = run (fst r) s (snd r)"

definition re_match :: "bool \<times> re \<Rightarrow> string \<Rightarrow> rmatch option" where
  "re_match r s =
     map_option (\<lambda>(c', g). mk_match s (start_cursor s, c', g))
       (match_here (engine_of r s) (start_cursor s))"

definition re_search :: "bool \<times> re \<Rightarrow> string \<Rightarrow> rmatch option" where
  "re_search r s = map_option (mk_match s) (search_from (engine_of r s) (start_cursor s))"

definition re_finditer :: "bool \<times> re \<Rightarrow> string \<Rightarrow> rmatch list" where
  "re_finditer r s = map (mk_match s) (all_matches (engine_of r s) s)"

definition re_sub :: "bool \<times> re \<Rightarrow> (rmatch \<Rightarrow> string) \<Rightarrow> string \<Rightarrow> string" where
  "re_sub r rep s = sub_pieces rep s 0 False (re_finditer r s)"

text \<open>\<^verbatim>\<open>re.split\<close> for a pattern without groups.\<close>

fun split_pieces :: "string \<Rightarrow> nat \<Rightarrow> rmatch list \<Rightarrow> string list" where
  "split_pieces s i [] = [drop i s]"
| "split_pieces s i (m # ms) =
     (if m_start m = m_end m then split_pieces s i ms
      else text_between s i (m_start m) # split_pieces s (m_end m) ms)"

definition re_split :: "bool \<times> re \<Rightarrow> string \<Rightarrow> string list" where
  "re_split r s = split_pieces s 0 (re_finditer r s)"

text \<open>
  The program's wrappers. The cache of compiled patterns they keep is not observable: it holds for
  every pattern the value \<open>re_compile\<close> gives.
\<close>

definition Match :: "string \<Rightarrow> string \<Rightarrow> rmatch option py" where
  "Match pattern s = do { r \<leftarrow> re_compile pattern; Some (re_match r s) }"

definition ReplaceAll :: "string \<Rightarrow> string \<Rightarrow> string \<Rightarrow> string py" where
  "ReplaceAll pattern rep s = do { r \<leftarrow> re_compile pattern; Some (re_sub r (\<lambda>_. rep) s) }"

definition Search :: "string \<Rightarrow> string \<Rightarrow> rmatch option py" where
  "Search pattern s = do { r \<leftarrow> re_compile pattern; Some (re_search r s) }"

text \<open>The truth value of the match object.\<close>

definition Matches :: "string \<Rightarrow> string \<Rightarrow> bool py" where
  "Matches pattern s = map_option (\<lambda>m. m \<noteq> None) (Match pattern s)"

definition Searches :: "string \<Rightarrow> string \<Rightarrow> bool py" where
  "Searches pattern s = map_option (\<lambda>m. m \<noteq> None) (Search pattern s)"

section \<open>What an engine guarantees, and what its clients rely on\<close>

text \<open>One cursor lies at or after another in the same text.\<close>

definition advances :: "cursor \<Rightarrow> cursor \<Rightarrow> bool" where
  "advances c c' \<longleftrightarrow> (\<exists>pre. rest_of c = pre @ rest_of c' \<and> pos_of c' = pos_of c + length pre \<and>
     fst (snd c') = (if pre = [] then fst (snd c) else Some (last pre)))"

lemma advances_refl [simp, intro]: "advances c c"
  by (auto simp: advances_def)

lemma advances_trans:
  assumes "advances a b" and "advances b c"
  shows "advances a c"
proof -
  from assms(1) obtain p where p: "rest_of a = p @ rest_of b" "pos_of b = pos_of a + length p"
    "fst (snd b) = (if p = [] then fst (snd a) else Some (last p))" by (auto simp: advances_def)
  from assms(2) obtain q where q: "rest_of b = q @ rest_of c" "pos_of c = pos_of b + length q"
    "fst (snd c) = (if q = [] then fst (snd b) else Some (last q))" by (auto simp: advances_def)
  from p q show ?thesis
    unfolding advances_def by (intro exI [of _ "p @ q"]) auto
qed

lemma advances_Cons [simp]: "advances (i, p, x # xs) (Suc i, Some x, xs)"
  unfolding advances_def by (intro exI [of _ "[x]"]) simp

lemma advances_length: "advances c c' \<Longrightarrow> pos_of c' + length (rest_of c') = pos_of c + length (rest_of c)"
  by (auto simp: advances_def)

lemma advances_pos: "advances c c' \<Longrightarrow> pos_of c \<le> pos_of c'"
  by (auto simp: advances_def)

lemma advances_same_pos: "advances c c' \<Longrightarrow> pos_of c' = pos_of c \<Longrightarrow> c' = c"
  by (auto simp: advances_def prod_eq_iff)

lemma advances_rest: "advances c c' \<Longrightarrow> length (rest_of c') \<le> length (rest_of c)"
  by (auto simp: advances_def)

lemma advances_cases:
  assumes "advances (i, p, xs) c"
  obtains "c = (i, p, xs)" | y ys where "xs = y # ys" and "advances (Suc i, Some y, ys) c"
proof -
  from assms obtain pre where pre: "xs = pre @ rest_of c" "pos_of c = i + length pre"
    "fst (snd c) = (if pre = [] then p else Some (last pre))" by (auto simp: advances_def)
  show thesis
  proof (cases pre)
    case Nil
    with pre have "c = (i, p, xs)" by (simp add: prod_eq_iff)
    then show thesis by (rule that(1))
  next
    case (Cons y ys)
    with pre have "xs = y # (ys @ rest_of c)" and
      "advances (Suc i, Some y, ys @ rest_of c) c"
      unfolding advances_def by (auto intro!: exI [of _ ys])
    then show thesis by (rule that(2))
  qed
qed

lemma advances_step_iff:
  "advances (i, p, xs) c \<longleftrightarrow> c = (i, p, xs) \<or> (\<exists>y ys. xs = y # ys \<and> advances (Suc i, Some y, ys) c)"
  by (auto elim: advances_cases intro: advances_trans [OF advances_Cons])

lemma advances_start: "advances (start_cursor s) c \<Longrightarrow> rest_of c = drop (pos_of c) s \<and> pos_of c \<le> length s"
  by (auto simp: advances_def start_cursor_def)

locale matcher =
  fixes f :: engine
  assumes advance: "(c', g') \<in> set (f c g) \<Longrightarrow> advances c c'"
begin

lemma match_here_advances: "match_here f c = Some (c', g) \<Longrightarrow> advances c c'"
  by (auto simp: match_here_def split: list.splits intro: advance [where g = "[]" and g' = g])

text \<open>A search returns the leftmost position with a match, and the engine's first match there.\<close>

lemma search_from_Some:
  assumes "search_from f c = Some (a, b, g)"
  shows "advances c a \<and> match_here f a = Some (b, g) \<and>
    (\<forall>d. advances c d \<and> pos_of d < pos_of a \<longrightarrow> f d [] = [])"
  using assms
proof (induction f c rule: search_from.induct)
  case (1 f i p xs)
  show ?case
  proof (cases "match_here f (i, p, xs)")
    case None
    then have here: "f (i, p, xs) [] = []"
      by (auto simp: match_here_def split: list.splits)
    from None "1.prems" obtain y ys where xs: "xs = y # ys"
      and later: "search_from f (Suc i, Some y, ys) = Some (a, b, g)"
      by (cases xs) (auto simp: search_from.simps [of f i p])
    from "1.IH" [OF None xs later] have ih: "advances (Suc i, Some y, ys) a" "match_here f a = Some (b, g)"
      "\<And>d. advances (Suc i, Some y, ys) d \<Longrightarrow> pos_of d < pos_of a \<Longrightarrow> f d [] = []" by auto
    have "advances (i, p, xs) a"
      using xs ih(1) by (auto intro: advances_trans [OF advances_Cons])
    moreover have "f d [] = []" if "advances (i, p, xs) d" "pos_of d < pos_of a" for d
      using that(1)
      by (rule advances_cases) (use here xs ih(3) that(2) in auto)
    ultimately show ?thesis using ih(2) by blast
  next
    case (Some r)
    with "1.prems" have "a = (i, p, xs)" "match_here f a = Some (b, g)"
      by (auto simp: search_from.simps [of f i p] split: prod.splits)
    then show ?thesis by (auto dest: advances_pos)
  qed
qed

lemma search_from_None: "search_from f c = None \<longleftrightarrow> (\<forall>d. advances c d \<longrightarrow> f d [] = [])"
proof (induction f c rule: search_from.induct)
  case (1 f i p xs)
  show ?case
  proof (cases "match_here f (i, p, xs)")
    case None
    then have here: "f (i, p, xs) [] = []"
      by (auto simp: match_here_def split: list.splits)
    show ?thesis
    proof (cases xs)
      case Nil
      then show ?thesis
        using None here by (auto simp: search_from.simps [of f i p] elim: advances_cases)
    next
      case (Cons y ys)
      have "search_from f (i, p, xs) = search_from f (Suc i, Some y, ys)"
        using None Cons by (simp add: search_from.simps [of f i p])
      moreover have "(\<forall>d. advances (i, p, xs) d \<longrightarrow> f d [] = []) \<longleftrightarrow>
          (\<forall>d. advances (Suc i, Some y, ys) d \<longrightarrow> f d [] = [])"
        using here Cons unfolding advances_step_iff [of i p xs] by auto
      ultimately show ?thesis using "1.IH" [OF None Cons] by simp
    qed
  next
    case (Some r)
    then have "f (i, p, xs) [] \<noteq> []" by (auto simp: match_here_def split: list.splits)
    with Some show ?thesis by (auto simp: search_from.simps [of f i p] split: prod.splits)
  qed
qed

lemma search_from_advances:
  "search_from f c = Some (a, b, g) \<Longrightarrow> advances c a \<and> advances a b"
  using search_from_Some match_here_advances by blast

text \<open>One more unit of fuel than there are characters left enumerates all matches.\<close>

lemma matches_from_enough:
  "length (rest_of c) < fuel \<Longrightarrow> matches_from (Suc fuel) f c = matches_from fuel f c"
proof (induction fuel arbitrary: c)
  case 0
  then show ?case by simp
next
  case (Suc n)
  show ?case
  proof (cases "search_from f c")
    case None
    then show ?thesis by simp
  next
    case (Some r)
    obtain a b g where r: "r = (a, b, g)" by (cases r)
    with Some have ab: "advances c a" "advances a b" using search_from_advances by blast+
    have step: "matches_from (Suc n) f d = matches_from n f d" if "length (rest_of d) < length (rest_of c)" for d
      using that Suc by (intro Suc.IH) simp
    have "length (rest_of b) < length (rest_of c)" if "pos_of a \<noteq> pos_of b"
      using ab that advances_length [OF ab(1)] advances_length [OF ab(2)] advances_pos [OF ab(1)]
        advances_pos [OF ab(2)] by linarith
    moreover have "length ys < length (rest_of c)" if "rest_of b = y # ys" for y ys
      using that advances_rest [OF ab(1)] advances_rest [OF ab(2)] by simp
    ultimately show ?thesis
      using Some r step
      by (simp del: matches_from.simps add: matches_from.simps(2) [of _ f c] split: list.split)
  qed
qed

text \<open>Every listed match lies at or after the cursor.\<close>

lemma matches_from_at:
  "(a, b, g) \<in> set (matches_from fuel f c) \<Longrightarrow> advances c a \<and> advances a b"
proof (induction fuel arbitrary: c)
  case 0
  then show ?case by simp
next
  case (Suc n)
  show ?case
  proof (cases "search_from f c")
    case None
    with Suc.prems show ?thesis by simp
  next
    case (Some r)
    obtain a' b' g' where r: "r = (a', b', g')" by (cases r)
    with Some have ab: "advances c b'" "advances c a'" "advances a' b'"
      using search_from_advances advances_trans by blast+
    have tail: "advances c (Suc (pos_of b'), Some y, ys)" if "rest_of b' = y # ys" for y ys
      using that ab(1) by (cases b') (auto intro: advances_trans)
    from Suc.prems Some r consider "(a, b, g) = (a', b', g')"
      | y ys where "rest_of b' = y # ys" "(a, b, g) \<in> set (matches_from n f (Suc (pos_of b'), Some y, ys))"
      | "(a, b, g) \<in> set (matches_from n f b')"
      by (cases "rest_of b'") (auto split: if_splits)
    then show ?thesis
      by cases (use ab tail Suc.IH advances_trans in blast)+
  qed
qed

end

section \<open>The backtracking matcher is such an engine\<close>

lemma one_char_advances: "(c', g') \<in> set (one_char P c g) \<Longrightarrow> advances c c'"
  by (cases "(P, c, g)" rule: one_char.cases) (auto split: if_splits)

lemma eat_advances: "eat ci ys c = Some c' \<Longrightarrow> advances c c'"
  by (induction ci ys c rule: eat.induct)
    (auto split: if_splits intro: advances_trans [OF advances_Cons])

lemma mem_concat_pairs:
  "y \<in> set (concat (map (\<lambda>(c, g). F c g) xs)) \<longleftrightarrow> (\<exists>d h. (d, h) \<in> set xs \<and> y \<in> set (F d h))"
proof (induction xs)
  case (Cons x xs)
  then show ?case by (cases x) (simp only: list.map concat.simps set_append Un_iff list.set, auto)
qed simp

lemma iter_Suc_mem:
  "y \<in> set (iter f gr (Suc mn) (Suc mx) c g) \<longleftrightarrow>
     (\<exists>d h. (d, h) \<in> set (f c g) \<and> y \<in> set (iter f gr mn mx d h))"
  by (simp only: iter.simps mem_concat_pairs)

lemma iter_0_mem:
  "y \<in> set (iter f gr 0 (Suc mx) c g) \<longleftrightarrow> y = (c, g) \<or>
     (\<exists>d h. (d, h) \<in> set (f c g) \<and>
       (if pos_of d = pos_of c then y = (d, h) else y \<in> set (iter f gr 0 mx d h)))"
proof -
  have "y \<in> set (iter f gr 0 (Suc mx) c g) \<longleftrightarrow> y = (c, g) \<or>
      y \<in> set (concat (map (\<lambda>(d, h). if pos_of d = pos_of c then [(d, h)] else iter f gr 0 mx d h) (f c g)))"
    by (auto simp: Let_def)
  also have "\<dots> \<longleftrightarrow> y = (c, g) \<or> (\<exists>d h. (d, h) \<in> set (f c g) \<and>
       y \<in> set (if pos_of d = pos_of c then [(d, h)] else iter f gr 0 mx d h))"
    by (simp only: mem_concat_pairs)
  finally show ?thesis by (simp only: if_distrib [of set] if_distrib [of "(\<in>) y"] set_simps singleton_iff)
qed

text \<open>What every round keeps, a repeat keeps.\<close>

lemma iter_invariant:
  assumes "\<And>c g c' g'. I c g \<Longrightarrow> (c', g') \<in> set (f c g) \<Longrightarrow> I c' g'"
  shows "I c g \<Longrightarrow> (c', g') \<in> set (iter f gr mn mx c g) \<Longrightarrow> I c' g'"
proof (induction mx arbitrary: mn c g)
  case 0
  then show ?case by (simp split: if_splits)
next
  case (Suc mx)
  show ?case
  proof (cases mn)
    case 0
    with Suc.prems(2) consider "(c', g') = (c, g)"
      | d h where "(d, h) \<in> set (f c g)" "(c', g') = (d, h) \<or> (c', g') \<in> set (iter f gr 0 mx d h)"
      by (simp only: iter_0_mem) (meson)
    then show ?thesis using Suc.prems(1) Suc.IH assms by cases blast+
  next
    case (Suc k)
    with Suc.prems(2) obtain d h where "(d, h) \<in> set (f c g)" "(c', g') \<in> set (iter f gr k mx d h)"
      by (simp only: iter_Suc_mem) blast
    then show ?thesis using Suc.prems(1) Suc.IH assms by blast
  qed
qed

lemma iter_advances:
  assumes "\<And>c g c' g'. (c', g') \<in> set (f c g) \<Longrightarrow> advances c c'"
  shows "(c', g') \<in> set (iter f gr mn mx c g) \<Longrightarrow> advances c c'"
  by (rule iter_invariant [where I = "\<lambda>d h. advances c d" and f = f])
    (use assms advances_trans in blast)+

lemma run_advances: "(c', g') \<in> set (run ci s r c g) \<Longrightarrow> advances c c'"
proof (induction r arbitrary: c g c' g')
  case (RSeq r1 r2)
  then obtain d h where "(d, h) \<in> set (run ci s r1 c g)" "(c', g') \<in> set (run ci s r2 d h)"
    by (auto simp only: run.simps mem_concat_pairs)
  then show ?case using RSeq.IH advances_trans by blast
next
  case (RRepeat mn mx gr r)
  from RRepeat.prems show ?case
    by (auto intro: iter_advances [OF RRepeat.IH])
next
  case (RBackref n)
  then show ?case
    by (cases "map_of g n") (auto split: option.splits simp: eat_advances)
qed (auto split: if_splits list.splits dest: one_char_advances)

interpretation backtrack: matcher "run ci s r" for ci s r
  by unfold_locales (rule run_advances)

interpretation compiled: matcher "engine_of r s" for r s
  unfolding engine_of_def by unfold_locales (rule run_advances)

section \<open>The declarative reading of an expression\<close>

type_synonym place = "cursor \<times> groups"

definition fewer :: "nat option \<Rightarrow> nat option" where
  "fewer mx = map_option (\<lambda>n. n - 1) mx"

text \<open>Rounds of a relation, at least \<open>mn\<close> of them and at most \<open>mx\<close>.\<close>

inductive rounds :: "(place \<Rightarrow> place \<Rightarrow> bool) \<Rightarrow> nat \<Rightarrow> nat option \<Rightarrow> place \<Rightarrow> place \<Rightarrow> bool"
  for R where
  stop: "rounds R 0 mx x x"
| least: "mx \<noteq> Some 0 \<Longrightarrow> R x y \<Longrightarrow> rounds R mn (fewer mx) y z \<Longrightarrow> rounds R (Suc mn) mx x z"
| more: "mx \<noteq> Some 0 \<Longrightarrow> R x y \<Longrightarrow> pos_of (fst y) \<noteq> pos_of (fst x) \<Longrightarrow>
    rounds R 0 (fewer mx) y z \<Longrightarrow> rounds R 0 mx x z"
| idle: "mx \<noteq> Some 0 \<Longrightarrow> R x y \<Longrightarrow> pos_of (fst y) = pos_of (fst x) \<Longrightarrow> rounds R 0 mx x y"

inductive_simps rounds_none: "rounds R mn (Some 0) x z"
inductive_simps rounds_Suc: "rounds R (Suc mn) mx x z"
inductive_simps rounds_0: "rounds R 0 mx x z"

primrec denotes :: "bool \<Rightarrow> string \<Rightarrow> re \<Rightarrow> place \<Rightarrow> place \<Rightarrow> bool" where
  "denotes ci s REmpty x y \<longleftrightarrow> y = x"
| "denotes ci s (RChar a) x y \<longleftrightarrow>
     (\<exists>b u. rest_of (fst x) = b # u \<and> fold_char ci a = fold_char ci b \<and>
            y = ((Suc (pos_of (fst x)), Some b, u), snd x))"
| "denotes ci s RAny x y \<longleftrightarrow>
     (\<exists>b u. rest_of (fst x) = b # u \<and> b \<noteq> newline \<and> y = ((Suc (pos_of (fst x)), Some b, u), snd x))"
| "denotes ci s (RSet neg its) x y \<longleftrightarrow>
     (\<exists>b u. rest_of (fst x) = b # u \<and> set_match ci neg its b \<and>
            y = ((Suc (pos_of (fst x)), Some b, u), snd x))"
| "denotes ci s RBegin x y \<longleftrightarrow> y = x \<and> pos_of (fst x) = 0"
| "denotes ci s REnd x y \<longleftrightarrow> y = x \<and> (rest_of (fst x) = [] \<or> rest_of (fst x) = [newline])"
| "denotes ci s (RBoundary b) x y \<longleftrightarrow> y = x \<and> at_boundary (fst x) = b"
| "denotes ci s (RSeq r1 r2) x y \<longleftrightarrow> (\<exists>z. denotes ci s r1 x z \<and> denotes ci s r2 z y)"
| "denotes ci s (RAlt r1 r2) x y \<longleftrightarrow> denotes ci s r1 x y \<or> denotes ci s r2 x y"
| "denotes ci s (RRepeat mn mx gr r) x y \<longleftrightarrow> rounds (denotes ci s r) mn mx x y"
| "denotes ci s (RGroup n r) x y \<longleftrightarrow>
     (\<exists>c g. denotes ci s r x (c, g) \<and> y = (c, (n, pos_of (fst x), pos_of c) # g))"
| "denotes ci s (RLook b r) x y \<longleftrightarrow> y = x \<and> (\<exists>z. denotes ci s r x z) = b"
| "denotes ci s (RBackref n) x y \<longleftrightarrow>
     (\<exists>a b c. map_of (snd x) n = Some (a, b) \<and> eat ci (text_between s a b) (fst x) = Some c \<and>
              y = (c, snd x))"

text \<open>
  No capturing group inside a positive look-ahead: there the engine commits to one choice of
  groups, which the relation leaves open. Every pattern of the program is of this kind.
\<close>

primrec no_groups :: "re \<Rightarrow> bool" where
  "no_groups REmpty \<longleftrightarrow> True"
| "no_groups (RChar a) \<longleftrightarrow> True"
| "no_groups RAny \<longleftrightarrow> True"
| "no_groups (RSet neg its) \<longleftrightarrow> True"
| "no_groups RBegin \<longleftrightarrow> True"
| "no_groups REnd \<longleftrightarrow> True"
| "no_groups (RBoundary b) \<longleftrightarrow> True"
| "no_groups (RSeq r1 r2) \<longleftrightarrow> no_groups r1 \<and> no_groups r2"
| "no_groups (RAlt r1 r2) \<longleftrightarrow> no_groups r1 \<and> no_groups r2"
| "no_groups (RRepeat mn mx gr r) \<longleftrightarrow> no_groups r"
| "no_groups (RGroup n r) \<longleftrightarrow> False"
| "no_groups (RLook b r) \<longleftrightarrow> b \<longrightarrow> no_groups r"
| "no_groups (RBackref n) \<longleftrightarrow> True"

primrec plain_look :: "re \<Rightarrow> bool" where
  "plain_look REmpty \<longleftrightarrow> True"
| "plain_look (RChar a) \<longleftrightarrow> True"
| "plain_look RAny \<longleftrightarrow> True"
| "plain_look (RSet neg its) \<longleftrightarrow> True"
| "plain_look RBegin \<longleftrightarrow> True"
| "plain_look REnd \<longleftrightarrow> True"
| "plain_look (RBoundary b) \<longleftrightarrow> True"
| "plain_look (RSeq r1 r2) \<longleftrightarrow> plain_look r1 \<and> plain_look r2"
| "plain_look (RAlt r1 r2) \<longleftrightarrow> plain_look r1 \<and> plain_look r2"
| "plain_look (RRepeat mn mx gr r) \<longleftrightarrow> plain_look r"
| "plain_look (RGroup n r) \<longleftrightarrow> plain_look r"
| "plain_look (RLook b r) \<longleftrightarrow> plain_look r \<and> (b \<longrightarrow> no_groups r)"
| "plain_look (RBackref n) \<longleftrightarrow> True"

text \<open>A repeat runs exactly the rounds its bound allows.\<close>

lemma iter_rounds:
  assumes "\<And>c g y. y \<in> set (f c g) \<longleftrightarrow> R (c, g) y"
  shows "y \<in> set (iter f gr mn mx c g) \<longleftrightarrow> rounds R mn (Some mx) (c, g) y"
proof (induction mx arbitrary: mn c g)
  case 0
  show ?case by (cases mn) (auto simp: rounds_none)
next
  case (Suc mx)
  show ?case
  proof (cases mn)
    case 0
    have "rounds R 0 (Some (Suc mx)) (c, g) y \<longleftrightarrow> y = (c, g) \<or>
        (\<exists>x. R (c, g) x \<and>
          (if pos_of (fst x) = pos_of c then y = x else rounds R 0 (Some mx) x y))"
      by (subst rounds_0) (auto simp: fewer_def)
    also have "\<dots> \<longleftrightarrow> y = (c, g) \<or> (\<exists>d h. R (c, g) (d, h) \<and>
          (if pos_of d = pos_of c then y = (d, h) else rounds R 0 (Some mx) (d, h) y))"
      by (simp only: split_paired_Ex [of "\<lambda>x. R (c, g) x \<and> _ x"] fst_conv)
    finally have "rounds R 0 (Some (Suc mx)) (c, g) y \<longleftrightarrow> y = (c, g) \<or>
        (\<exists>d h. R (c, g) (d, h) \<and>
          (if pos_of d = pos_of c then y = (d, h) else rounds R 0 (Some mx) (d, h) y))" .
    with 0 show ?thesis by (simp only: iter_0_mem assms Suc.IH)
  next
    case (Suc k)
    then show ?thesis by (simp only: iter_Suc_mem assms Suc.IH rounds_Suc) (auto simp: fewer_def)
  qed
qed


lemma rounds_unbounded: "rounds R mn mx x z \<Longrightarrow> rounds R mn None x z"
  by (induction rule: rounds.induct) (auto intro: rounds.intros simp: fewer_def)

text \<open>
  The bound \<open>max_rounds\<close> loses nothing: every round beyond the minimum but the last consumes a
  character.
\<close>

lemma rounds_bounded:
  assumes "\<And>x y. R x y \<Longrightarrow> advances (fst x) (fst y)"
  shows "rounds R mn mx x z \<Longrightarrow> mx = None \<Longrightarrow> mn + length (rest_of (fst x)) < n \<Longrightarrow>
    rounds R mn (Some n) x z"
proof (induction arbitrary: n rule: rounds.induct)
  case (stop mx x)
  show ?case by (rule rounds.stop)
next
  case (least mx x y mn z)
  from assms [OF least(2)] have "length (rest_of (fst y)) \<le> length (rest_of (fst x))"
    by (rule advances_rest)
  with least have "rounds R mn (Some (n - 1)) y z" by (simp add: fewer_def)
  with least show ?case by (intro rounds.least) (auto simp: fewer_def)
next
  case (more mx x y z)
  from assms [OF more(2)] have adv: "advances (fst x) (fst y)" .
  with more(3) have "length (rest_of (fst y)) < length (rest_of (fst x))"
    using advances_length [OF adv] advances_pos [OF adv] by linarith
  with more have "rounds R 0 (Some (n - 1)) y z" by (simp add: fewer_def)
  with more show ?case by (intro rounds.more [of _ R x y]) (auto simp: fewer_def)
next
  case (idle mx x y)
  then show ?case by (intro rounds.idle) auto
qed

lemma rounds_max_rounds:
  assumes "\<And>x y. R x y \<Longrightarrow> advances (fst x) (fst y)"
  shows "rounds R mn (Some (max_rounds mn mx c)) (c, g) z \<longleftrightarrow> rounds R mn mx (c, g) z"
proof (cases mx)
  case None
  then have "rounds R mn (Some (max_rounds mn mx c)) (c, g) z" if "rounds R mn None (c, g) z"
    using that by (intro rounds_bounded [OF assms]) (auto simp: max_rounds_def)
  with None show ?thesis by (auto dest: rounds_unbounded)
next
  case (Some n)
  then show ?thesis by (simp add: max_rounds_def)
qed

lemma one_char_mem:
  "y \<in> set (one_char P c g) \<longleftrightarrow>
     (\<exists>b u. rest_of c = b # u \<and> P b \<and> y = ((Suc (pos_of c), Some b, u), g))"
  by (cases "(P, c, g)" rule: one_char.cases) auto

lemma no_groups_run: "no_groups r \<Longrightarrow> (c', g') \<in> set (run ci s r c g) \<Longrightarrow> g' = g"
proof (induction r arbitrary: c g c' g')
  case (RSeq r1 r2)
  then obtain d h where "(d, h) \<in> set (run ci s r1 c g)" "(c', g') \<in> set (run ci s r2 d h)"
    by (auto simp only: run.simps mem_concat_pairs)
  with RSeq show ?case by (metis no_groups.simps(8))
next
  case (RRepeat mn mx gr r)
  then show ?case
    by (auto intro: iter_invariant [where I = "\<lambda>d h. h = g" and f = "run ci s r"])
next
  case (RLook b r)
  show ?case
  proof (cases "run ci s r c g")
    case Nil
    with RLook.prems show ?thesis by (simp split: if_splits)
  next
    case (Cons z zs)
    obtain d h where z: "z = (d, h)" by (cases z)
    with Cons RLook.prems have "b" "g' = h" by (auto split: if_splits)
    moreover have "h = g"
      using \<open>b\<close> z Cons RLook.prems(1) by (intro RLook.IH [of d h c g]) auto
    ultimately show ?thesis by simp
  qed
next
  case (RBackref n)
  then show ?case by (auto split: option.splits)
qed (auto simp: one_char_mem split: if_splits)

text \<open>The matcher enumerates exactly what the expression denotes.\<close>

lemma run_denotes: "plain_look r \<Longrightarrow> y \<in> set (run ci s r c g) \<longleftrightarrow> denotes ci s r (c, g) y"
proof (induction r arbitrary: c g y)
  case (RSeq r1 r2)
  then show ?case by (simp only: run.simps mem_concat_pairs) auto
next
  case (RRepeat mn mx gr r)
  then have ih: "\<And>c g y. y \<in> set (run ci s r c g) \<longleftrightarrow> denotes ci s r (c, g) y" by simp
  then have adv: "advances (fst x) (fst y)" if "denotes ci s r x y" for x y
    using that run_advances [of "fst y" "snd y" ci s r "fst x" "snd x"] by simp
  show ?case
    by (simp add: iter_rounds [where f = "run ci s r" and R = "denotes ci s r", OF ih]
        rounds_max_rounds [OF adv])
next
  case (RGroup n r)
  then have ih: "(d, h) \<in> set (run ci s r c g) \<longleftrightarrow> denotes ci s r (c, g) (d, h)" for d h by simp
  have "y \<in> set (run ci s (RGroup n r) c g) \<longleftrightarrow>
      (\<exists>d h. (d, h) \<in> set (run ci s r c g) \<and> y = (d, (n, pos_of c, pos_of d) # h))"
    by force
  then show ?case by (simp only: ih denotes.simps fst_conv)
next
  case (RLook b r)
  then have ih: "y \<in> set (run ci s r c g) \<longleftrightarrow> denotes ci s r (c, g) y" for y by simp
  show ?case
  proof (cases "run ci s r c g")
    case Nil
    with ih have "\<nexists>z. denotes ci s r (c, g) z" by auto
    with Nil show ?thesis by auto
  next
    case (Cons z zs)
    with ih [of z] have ex: "\<exists>z. denotes ci s r (c, g) z" by auto
    obtain d h where z: "z = (d, h)" by (cases z)
    have "h = g" if b using no_groups_run [of r d h ci s c g] RLook that Cons z by simp
    with Cons z ex show ?thesis by auto
  qed
next
  case (RBackref n)
  show ?case by (cases "map_of g n") (auto split: option.splits)
qed (auto simp: one_char_mem)

section \<open>The wrappers\<close>

named_theorems re_compiled \<open>the compiled form of the program's patterns\<close>

lemma Match_compiled: "re_compile p = Some r \<Longrightarrow> Match p s = Some (re_match r s)"
  by (simp add: Match_def)

lemma Search_compiled: "re_compile p = Some r \<Longrightarrow> Search p s = Some (re_search r s)"
  by (simp add: Search_def)

lemma ReplaceAll_compiled: "re_compile p = Some r \<Longrightarrow> ReplaceAll p rep s = Some (re_sub r (\<lambda>_. rep) s)"
  by (simp add: ReplaceAll_def)

lemma match_here_None: "match_here f c = None \<longleftrightarrow> f c [] = []"
  by (auto simp: match_here_def split: list.splits)

lemma match_here_mem: "match_here f c = Some y \<Longrightarrow> y \<in> set (f c [])"
  by (auto simp: match_here_def split: list.splits)

lemma re_search_None:
  "re_search r s = None \<longleftrightarrow> (\<forall>c. advances (start_cursor s) c \<longrightarrow> engine_of r s c [] = [])"
  by (simp add: re_search_def compiled.search_from_None)

lemma re_search_Some:
  assumes "re_search r s = Some m"
  obtains a b where "advances (start_cursor s) a" and "advances a b" and "m_string m = s"
    and "m_start m = pos_of a" and "m_end m = pos_of b"
    and "match_here (engine_of r s) a = Some (b, m_groups m)"
    and "\<forall>d. advances (start_cursor s) d \<and> pos_of d < pos_of a \<longrightarrow> engine_of r s d [] = []"
proof -
  from assms obtain x where x: "search_from (engine_of r s) (start_cursor s) = Some x"
    and m: "m = mk_match s x" by (auto simp: re_search_def)
  obtain a b g where xabg: "x = (a, b, g)" by (cases x)
  from compiled.search_from_Some [OF x [unfolded xabg]] compiled.search_from_advances [OF x [unfolded xabg]]
  show thesis using m xabg by (intro that [of a b]) (auto simp: mk_match_def)
qed

lemma re_match_Some:
  assumes "re_match r s = Some m"
  obtains b where "advances (start_cursor s) b" and "m_string m = s" and "m_start m = 0"
    and "m_end m = pos_of b"
    and "match_here (engine_of r s) (start_cursor s) = Some (b, m_groups m)"
proof -
  from assms obtain b g where "match_here (engine_of r s) (start_cursor s) = Some (b, g)"
    and "m = mk_match s (start_cursor s, b, g)" by (auto simp: re_match_def)
  then show thesis
    by (intro that [of b]) (auto simp: mk_match_def start_cursor_def dest: compiled.match_here_advances)
qed

text \<open>
  C27. \<open>Search\<close> finds the leftmost place of the line where the pattern matches and nothing else:
  it returns no match exactly when the expression denotes no match at any position, and otherwise a
  match that the expression denotes, with none starting earlier.
\<close>

theorem Search_leftmost:
  assumes "re_compile p = Some (ci, r)" and "plain_look r"
  shows "case Search p s of
      None \<Rightarrow> False
    | Some None \<Rightarrow> (\<forall>c y. advances (start_cursor s) c \<longrightarrow> \<not> denotes ci s r (c, []) y)
    | Some (Some m) \<Rightarrow> (\<exists>a b. advances (start_cursor s) a \<and> advances a b \<and>
         m_start m = pos_of a \<and> m_end m = pos_of b \<and> denotes ci s r (a, []) (b, m_groups m) \<and>
         (\<forall>d y. advances (start_cursor s) d \<longrightarrow> pos_of d < pos_of a \<longrightarrow> \<not> denotes ci s r (d, []) y))"
proof (cases "re_search (ci, r) s")
  case None
  then have "\<not> denotes ci s r (c, []) y" if "advances (start_cursor s) c" for c y
    using that run_denotes [OF assms(2), of y ci s c "[]"] by (simp add: re_search_None engine_of_def)
  with None show ?thesis by (simp add: Search_compiled [OF assms(1)])
next
  case (Some m)
  then obtain a b where m: "advances (start_cursor s) a" "advances a b" "m_string m = s"
    "m_start m = pos_of a" "m_end m = pos_of b" "match_here (engine_of (ci, r) s) a = Some (b, m_groups m)"
    and first: "\<forall>d. advances (start_cursor s) d \<and> pos_of d < pos_of a \<longrightarrow> engine_of (ci, r) s d [] = []"
    by (rule re_search_Some)
  have "denotes ci s r (a, []) (b, m_groups m)"
    using match_here_mem [OF m(6)] run_denotes [OF assms(2)] by (simp add: engine_of_def)
  moreover have "\<not> denotes ci s r (d, []) y"
    if "advances (start_cursor s) d" "pos_of d < pos_of a" for d y
    using first that run_denotes [OF assms(2), of y ci s d "[]"] by (simp add: engine_of_def)
  moreover have "Search p s = Some (Some m)" using Some by (simp add: Search_compiled [OF assms(1)])
  ultimately show ?thesis using m(1,2,4,5) by (simp only: option.case) blast
qed

theorem Search_leftmost_witness:
  "re_compile ''ab'' = Some (False, RSeq (RChar (CHR ''a'')) (RChar (CHR ''b''))) \<and>
   (\<exists>m. Search ''ab'' ''xaab'' = Some (Some m) \<and> m_start m = 2 \<and>
     (\<exists>a b. advances (start_cursor ''xaab'') a \<and> m_start m = pos_of a \<and>
       denotes False ''xaab'' (RSeq (RChar (CHR ''a'')) (RChar (CHR ''b''))) (a, []) (b, m_groups m)))"
proof -
  have c: "re_compile ''ab'' = Some (False, RSeq (RChar (CHR ''a'')) (RChar (CHR ''b'')))" by code_simp
  have s: "Search ''ab'' ''xaab'' = Some (Some \<lparr>m_string = ''xaab'', m_start = 2, m_end = 4, m_groups = []\<rparr>)"
    by code_simp
  show ?thesis using c Search_leftmost [OF c, of "''xaab''"] unfolding s by auto
qed

text \<open>
  C28. \<open>Match\<close> succeeds exactly when the expression denotes a match that starts at the beginning
  of the line, and what it returns is such a match.
\<close>

theorem Match_anchored:
  assumes "re_compile p = Some (ci, r)" and "plain_look r"
  shows "case Match p s of
      None \<Rightarrow> False
    | Some None \<Rightarrow> (\<forall>y. \<not> denotes ci s r (start_cursor s, []) y)
    | Some (Some m) \<Rightarrow> m_start m = 0 \<and>
        (\<exists>b. advances (start_cursor s) b \<and> m_end m = pos_of b \<and>
             denotes ci s r (start_cursor s, []) (b, m_groups m))"
proof (cases "re_match (ci, r) s")
  case None
  then have "\<not> denotes ci s r (start_cursor s, []) y" for y
    using run_denotes [OF assms(2), of y ci s "start_cursor s" "[]"]
    by (simp add: re_match_def match_here_None engine_of_def)
  with None show ?thesis by (simp add: Match_compiled [OF assms(1)])
next
  case (Some m)
  then obtain b where b: "advances (start_cursor s) b" "m_string m = s" "m_start m = 0"
    "m_end m = pos_of b"
    "match_here (engine_of (ci, r) s) (start_cursor s) = Some (b, m_groups m)"
    by (rule re_match_Some)
  then have "denotes ci s r (start_cursor s, []) (b, m_groups m)"
    using match_here_mem [OF b(5)] run_denotes [OF assms(2)] by (simp add: engine_of_def)
  with Some b show ?thesis by (auto simp: Match_compiled [OF assms(1)])
qed

theorem Match_anchored_witness:
  "re_compile ''ab'' = Some (False, RSeq (RChar (CHR ''a'')) (RChar (CHR ''b''))) \<and>
   Match ''ab'' ''xaab'' = Some None \<and>
   (\<forall>y. \<not> denotes False ''xaab'' (RSeq (RChar (CHR ''a'')) (RChar (CHR ''b''))) (start_cursor ''xaab'', []) y)"
proof -
  have c: "re_compile ''ab'' = Some (False, RSeq (RChar (CHR ''a'')) (RChar (CHR ''b'')))" by code_simp
  have s: "Match ''ab'' ''xaab'' = Some None" by code_simp
  have "plain_look (RSeq (RChar (CHR ''a'')) (RChar (CHR ''b'')))" by simp
  with c s Match_anchored [OF c, of "''xaab''"] show ?thesis by (simp del: denotes.simps)
qed

end
