(* ===== verification/RegexRules.thy ===== *)
theory RegexRules
  imports Regex
begin

text \<open>
  Rules for computing with the matcher: literal text, runs of one class of characters, optional
  parts, and how a search finds a given match. The component theories use them to reason about
  the program's patterns on texts of which only the shape is known.
\<close>

declare split_paired_All [simp del] split_paired_Ex [simp del]

section \<open>Cursors\<close>

text \<open>The cursor \<open>k\<close> characters further on.\<close>

fun skip :: "nat \<Rightarrow> cursor \<Rightarrow> cursor" where
  "skip 0 c = c"
| "skip (Suc k) (i, p, []) = (i, p, [])"
| "skip (Suc k) (i, p, x # xs) = skip k (Suc i, Some x, xs)"

lemma skip_Nil [simp]: "skip k (i, p, []) = (i, p, [])"
  by (cases k) auto

lemma skip_advances: "advances c (skip k c)"
  by (induction k c rule: skip.induct) (auto intro: advances_trans [OF advances_Cons])

lemma rest_skip [simp]: "rest_of (skip k c) = drop k (rest_of c)"
  by (induction k c rule: skip.induct) auto

lemma pos_skip: "k \<le> length (rest_of c) \<Longrightarrow> pos_of (skip k c) = pos_of c + k"
  by (induction k c rule: skip.induct) auto

lemma skip_skip: "skip j (skip k c) = skip (k + j) c"
  by (induction k c rule: skip.induct) auto

lemma skip_append:
  "skip (length w) (i, p, w @ u) = (i + length w, if w = [] then p else Some (last w), u)"
  by (induction w arbitrary: i p) auto

lemma advances_unique: "advances c a \<Longrightarrow> advances c b \<Longrightarrow> pos_of a = pos_of b \<Longrightarrow> a = b"
  by (auto simp: advances_def prod_eq_iff append_eq_append_conv)

lemma advances_skip: "advances c a \<Longrightarrow> a = skip (pos_of a - pos_of c) c"
  using advances_length [of c a] advances_pos [of c a]
  by (intro advances_unique [of c]) (auto simp: skip_advances pos_skip)

section \<open>Searching\<close>

context matcher
begin

lemma matches_from_here: "(a, b, g) \<in> set (matches_from fuel f c) \<Longrightarrow> match_here f a = Some (b, g)"
proof (induction fuel arbitrary: c)
  case (Suc n)
  show ?case
  proof (cases "search_from f c")
    case None
    with Suc.prems show ?thesis by simp
  next
    case (Some r)
    obtain a' b' g' where r: "r = (a', b', g')" by (cases r)
    have here: "match_here f a' = Some (b', g')" using search_from_Some Some r by blast
    from Suc.prems Some r consider "(a, b, g) = (a', b', g')"
      | c' where "(a, b, g) \<in> set (matches_from n f c')"
      by (cases b') (auto split: if_splits list.splits)
    then show ?thesis by cases (use here Suc.IH in auto)
  qed
qed simp

lemma search_from_eqI:
  assumes "advances c a" and "match_here f a = Some (b, g)"
    and "\<And>d. advances c d \<Longrightarrow> pos_of d < pos_of a \<Longrightarrow> f d [] = []"
  shows "search_from f c = Some (a, b, g)"
proof (cases "search_from f c")
  case None
  with assms(1,2) show ?thesis by (auto simp: search_from_None match_here_def split: list.splits)
next
  case (Some x)
  obtain a' b' g' where x: "x = (a', b', g')" by (cases x)
  from search_from_Some [OF Some [unfolded x]]
  have a': "advances c a'" "match_here f a' = Some (b', g')"
    "\<And>d. advances c d \<Longrightarrow> pos_of d < pos_of a' \<Longrightarrow> f d [] = []" by auto
  have "\<not> pos_of a' < pos_of a"
    using assms(3) [OF a'(1)] a'(2) by (auto simp: match_here_def split: list.splits)
  moreover have "\<not> pos_of a < pos_of a'"
    using a'(3) [OF assms(1)] assms(2) by (auto simp: match_here_def split: list.splits)
  ultimately have "a' = a" using assms(1) a'(1) advances_unique by simp
  with a'(2) assms(2) Some x show ?thesis by simp
qed

end

section \<open>Literal text\<close>

text \<open>An expression that starts with the characters of a word.\<close>

fun lits :: "string \<Rightarrow> re \<Rightarrow> re" where
  "lits [] r = r"
| "lits (c # cs) r = RSeq (RChar c) (lits cs r)"

lemma fold_char_False [simp]: "fold_char False c = c"
  by (simp add: fold_char_def)

lemma run_lits:
  "run False s (lits w r) c g =
     (if startswith (rest_of c) w then run False s r (skip (length w) c) g else [])"
proof (induction w arbitrary: c)
  case Nil
  then show ?case by simp
next
  case (Cons a w)
  then show ?case by (cases "((=) a, c, g)" rule: one_char.cases) auto
qed

declare lits.simps [simp del]

lemma run_char:
  "run False s (RChar a) c g = (if startswith (rest_of c) [a] then [(skip 1 c, g)] else [])"
  by (cases "((=) a, c, g)" rule: one_char.cases) auto

text \<open>A whole word.\<close>

definition word :: "string \<Rightarrow> re" where
  "word w = mk_seq (map RChar w)"

lemma mk_seq_word: "w \<noteq> [] \<Longrightarrow> mk_seq (map RChar w) = lits (butlast w) (RChar (last w))"
proof (induction w rule: induct_list012)
  case (3 x y zs)
  then show ?case by (simp add: lits.simps)
qed (auto simp: lits.simps)

lemma startswith_append_iff:
  "startswith s (p @ q) \<longleftrightarrow> startswith s p \<and> startswith (drop (length p) s) q"
  by (induction s p rule: startswith.induct) auto

lemma run_word:
  assumes "w \<noteq> []"
  shows "run False s (word w) c g =
    (if startswith (rest_of c) w then [(skip (length w) c, g)] else [])"
proof -
  obtain v a where w: "w = v @ [a]" using assms by (cases w rule: rev_cases) auto
  then have "word w = lits v (RChar a)" using mk_seq_word [OF assms] by (simp add: word_def)
  then show ?thesis
    by (simp add: w run_lits run_char startswith_append_iff skip_skip del: run.simps)
qed

section \<open>Runs of one class of characters\<close>

text \<open>The expressions that consume one character, and which.\<close>

fun char_class :: "bool \<Rightarrow> re \<Rightarrow> (char \<Rightarrow> bool) option" where
  "char_class ci (RChar a) = Some (\<lambda>y. fold_char ci a = fold_char ci y)"
| "char_class ci RAny = Some (\<lambda>y. y \<noteq> newline)"
| "char_class ci (RSet neg its) = Some (set_match ci neg its)"
| "char_class ci _ = None"

lemma run_char_class: "char_class ci r = Some P \<Longrightarrow> run ci s r = one_char P"
  by (cases r) auto

definition span :: "(char \<Rightarrow> bool) \<Rightarrow> cursor \<Rightarrow> nat" where
  "span P c = length (takeWhile P (rest_of c))"

lemma span_le: "span P c \<le> length (rest_of c)"
  by (simp add: span_def length_takeWhile_le)

lemma span_append:
  "list_all P w \<Longrightarrow> (u = [] \<or> \<not> P (hd u)) \<Longrightarrow> span P (i, p, w @ u) = length w"
  by (cases u) (auto simp: span_def list_all_iff takeWhile_append takeWhile_eq_all_conv [THEN iffD2])

lemma map_skip_Suc:
  "map (\<lambda>k. (skip k (i, p, x # xs), g)) (rev [Suc a..<Suc b]) =
   map (\<lambda>k. (skip k (Suc i, Some x, xs), g)) (rev [a..<b])"
  unfolding map_Suc_upt [symmetric] rev_map map_map comp_def by simp

lemma iter_greedy:
  "length (rest_of c) < mx \<Longrightarrow>
   iter (one_char P) True 0 mx c g = map (\<lambda>k. (skip k c, g)) (rev [0..<Suc (span P c)])"
proof (induction mx arbitrary: c)
  case 0
  then show ?case by simp
next
  case (Suc mx)
  obtain i p xs where c: "c = (i, p, xs)" by (cases c)
  show ?case
  proof (cases xs)
    case Nil
    with c show ?thesis by (simp add: span_def)
  next
    case (Cons x ys)
    show ?thesis
    proof (cases "P x")
      case True
      with c Cons Suc.prems have
        "iter (one_char P) True 0 (Suc mx) c g =
          map (\<lambda>k. (skip k (Suc i, Some x, ys), g)) (rev [0..<Suc (span P (Suc i, Some x, ys))]) @ [(c, g)]"
        by (simp add: Suc.IH del: upt_Suc)
      also have "\<dots> = map (\<lambda>k. (skip k c, g)) (rev [1..<Suc (span P c)]) @ [(c, g)]"
        using c Cons True by (simp add: span_def map_skip_Suc [of i p x ys g 0] del: upt_Suc)
      also have "\<dots> = map (\<lambda>k. (skip k c, g)) (rev [0..<Suc (span P c)])"
        by (simp add: upt_rec [of 0] del: upt_Suc)
      finally show ?thesis .
    next
      case False
      with c Cons show ?thesis by (simp add: span_def)
    qed
  qed
qed

lemma run_star:
  assumes "char_class ci r = Some P"
  shows "run ci s (RRepeat 0 None True r) c g = map (\<lambda>k. (skip k c, g)) (rev [0..<Suc (span P c)])"
  unfolding run.simps run_char_class [OF assms] by (rule iter_greedy) (simp add: max_rounds_def)

lemma run_plus:
  assumes "char_class ci r = Some P"
  shows "run ci s (RRepeat 1 None True r) c g = map (\<lambda>k. (skip k c, g)) (rev [1..<Suc (span P c)])"
proof -
  obtain i p xs where c: "c = (i, p, xs)" by (cases c)
  show ?thesis
  proof (cases "xs \<noteq> [] \<and> P (hd xs)")
    case True
    then obtain x ys where xs: "xs = x # ys" "P x" by (cases xs) auto
    have "iter (one_char P) True 0 (max_rounds 1 None c - 1) (Suc i, Some x, ys) g =
        map (\<lambda>k. (skip k (Suc i, Some x, ys), g)) (rev [0..<Suc (span P (Suc i, Some x, ys))])"
      by (rule iter_greedy) (simp add: c xs max_rounds_def)
    then show ?thesis
      using map_skip_Suc [of i p x ys g 0 "Suc (span P (Suc i, Some x, ys))"]
      by (simp add: run_char_class [OF assms] c xs max_rounds_def span_def del: upt_Suc)
  next
    case False
    then show ?thesis
      by (cases xs) (auto simp: run_char_class [OF assms] c max_rounds_def span_def)
  qed
qed

section \<open>Optional parts\<close>

text \<open>An optional part is tried first with and then without.\<close>

lemma run_option:
  "run ci s (RRepeat 0 (Some 1) True r) c g =
     concat (map (\<lambda>(c', g'). [(c', g')]) (run ci s r c g)) @ [(c, g)]"
proof -
  have "max_rounds 0 (Some 1) c = Suc 0" by (simp add: max_rounds_def)
  moreover have "concat (map (\<lambda>(c', g'). if pos_of c' = pos_of c then [(c', g')]
        else iter (run ci s r) True 0 0 c' g') xs) = concat (map (\<lambda>(c', g'). [(c', g')]) xs)" for xs
    by (induction xs) auto
  ultimately show ?thesis by simp
qed

lemma concat_singletons [simp]: "concat (map (\<lambda>(c, g). [(c, g)]) xs) = xs"
  by (induction xs) auto

text \<open>Only one of the choices a repeat offers can be continued.\<close>

lemma concat_only:
  assumes "\<And>k. k \<in> set ks \<Longrightarrow> k \<noteq> n \<Longrightarrow> F k = []" and "n \<in> set ks" and "distinct ks"
  shows "concat (map F ks) = F n"
  using assms
proof (induction ks)
  case (Cons k ks)
  show ?case
  proof (cases "k = n")
    case True
    with Cons.prems have "\<forall>j \<in> set ks. F j = []" by auto
    then have "concat (map F ks) = []" by auto
    with True show ?thesis by simp
  next
    case False
    with Cons show ?thesis by auto
  qed
qed simp

lemma run_seq_option:
  "run ci s (RSeq (RRepeat 0 (Some 1) True r) r') c g =
     concat (map (\<lambda>(c', g'). run ci s r' c' g') (run ci s r c g)) @ run ci s r' c g"
  unfolding run.simps(8) run_option by simp

lemma run_group:
  "run ci s (RGroup n r) c g = map (\<lambda>(c', g'). (c', (n, pos_of c, pos_of c') # g')) (run ci s r c g)"
  by simp

text \<open>A run of a class, ended by a character outside the class.\<close>

lemma run_plus_until:
  assumes cls: "char_class False r = Some P" and all: "list_all P w" and "w \<noteq> []" and "\<not> P a"
  shows "run False s (RSeq (RRepeat 1 None True r) (RChar a)) (i, p, w @ a # u) g =
    [(skip (Suc (length w)) (i, p, w @ a # u), g)]"
proof -
  let ?c = "(i, p, w @ a # u)"
  let ?F = "\<lambda>k. run False s (RChar a) (skip k ?c) g"
  have "?F k = []" if "k < length w" for k
  proof -
    have "drop k (w @ a # u) = w ! k # drop (Suc k) w @ a # u"
      using that by (simp add: Cons_nth_drop_Suc)
    moreover have "w ! k \<noteq> a" using that all \<open>\<not> P a\<close> by (auto simp: list_all_length)
    ultimately show ?thesis by (simp add: run_char del: run.simps)
  qed
  then have "concat (map ?F (rev [1..<Suc (length w)])) = ?F (length w)"
    using \<open>w \<noteq> []\<close> by (intro concat_only) (auto simp: Suc_le_eq simp del: run.simps)
  also have "?F (length w) = [(skip (Suc (length w)) ?c, g)]"
    by (simp add: run_char skip_skip del: run.simps)
  finally have "concat (map ?F (rev [1..<Suc (length w)])) = [(skip (Suc (length w)) ?c, g)]" .
  moreover have "span P ?c = length w" using all \<open>\<not> P a\<close> by (intro span_append) auto
  ultimately show ?thesis
    unfolding run.simps(8) run_plus [OF cls] by (simp only: map_map comp_def prod.case)
qed

section \<open>Groups lie in the text\<close>

definition groups_in :: "string \<Rightarrow> groups \<Rightarrow> bool" where
  "groups_in s g \<longleftrightarrow> (\<forall>(n, a, b) \<in> set g. a \<le> b \<and> b \<le> length s)"

lemma run_groups_in:
  "(c', g') \<in> set (run ci s r c g) \<Longrightarrow> advances (start_cursor s) c \<Longrightarrow> groups_in s g \<Longrightarrow>
     advances (start_cursor s) c' \<and> groups_in s g'"
proof (induction r arbitrary: c g c' g')
  case (RSeq r1 r2)
  then obtain d h where "(d, h) \<in> set (run ci s r1 c g)" "(c', g') \<in> set (run ci s r2 d h)"
    by (auto simp only: run.simps mem_concat_pairs)
  with RSeq show ?case by blast
next
  case (RRepeat mn mx gr r)
  from RRepeat.prems have "(c', g') \<in> set (iter (run ci s r) gr mn (max_rounds mn mx c) c g)" by simp
  then show ?case
    by (rule iter_invariant [where I = "\<lambda>c g. advances (start_cursor s) c \<and> groups_in s g"
          and f = "run ci s r", rotated 2])
      (use RRepeat in blast)+
next
  case (RGroup n r)
  then obtain h where h: "(c', h) \<in> set (run ci s r c g)" "g' = (n, pos_of c, pos_of c') # h" by auto
  have "advances c c'" using h(1) by (rule run_advances)
  with h RGroup show ?case
    using advances_start [of s c'] advances_pos [of c c'] by (auto simp: groups_in_def)
next
  case (RLook b r)
  show ?case
  proof (cases "run ci s r c g")
    case Nil
    with RLook.prems show ?thesis by (simp split: if_splits)
  next
    case (Cons z zs)
    obtain d h where "z = (d, h)" by (cases z)
    with Cons RLook.prems have "c' = c" "g' = h" "(d, h) \<in> set (run ci s r c g)" by (auto split: if_splits)
    with RLook show ?thesis by blast
  qed
next
  case (RBackref n)
  then show ?case
    by (auto split: option.splits intro: advances_trans dest!: sym [of "Some _"] eat_advances)
qed (auto simp: one_char_mem split: if_splits intro: advances_trans [OF _ advances_Cons])

section \<open>Reading an expression on the text it consumes\<close>

text \<open>\<open>goes c w d\<close>: the text between the cursors \<open>c\<close> and \<open>d\<close> is \<open>w\<close>.\<close>

definition goes :: "cursor \<Rightarrow> string \<Rightarrow> cursor \<Rightarrow> bool" where
  "goes c w d \<longleftrightarrow> rest_of c = w @ rest_of d \<and> pos_of d = pos_of c + length w \<and>
     fst (snd d) = (if w = [] then fst (snd c) else Some (last w))"

lemma advances_goes: "advances c d \<longleftrightarrow> (\<exists>w. goes c w d)"
  by (simp add: advances_def goes_def)

lemma goes_Nil [simp]: "goes c [] d \<longleftrightarrow> d = c"
  by (auto simp: goes_def prod_eq_iff)

lemma goes_pos: "goes c w d \<Longrightarrow> pos_of d = pos_of c + length w"
  by (simp add: goes_def)

lemma goes_rest: "goes c w d \<Longrightarrow> rest_of c = w @ rest_of d"
  by (simp add: goes_def)

lemma goes_trans: "goes c w d \<Longrightarrow> goes d v e \<Longrightarrow> goes c (w @ v) e"
  by (simp add: goes_def)

lemma goes_iff_skip: "goes c w d \<longleftrightarrow> startswith (rest_of c) w \<and> d = skip (length w) c"
proof (cases "startswith (rest_of c) w")
  case True
  then obtain i p u where c: "c = (i, p, w @ u)" by (cases c) (auto simp: startswith_iff)
  have "goes c w d \<longleftrightarrow> d = (i + length w, if w = [] then p else Some (last w), u)"
    unfolding c by (cases d) (auto simp: goes_def)
  with True show ?thesis by (simp add: c skip_append)
next
  case False
  then show ?thesis by (metis goes_rest startswith_append)
qed

lemma goes_skip: "k \<le> length (rest_of c) \<Longrightarrow> goes c (take k (rest_of c)) (skip k c)"
  by (simp add: goes_iff_skip startswith_take)

lemma goes_exists: "rest_of c = w @ v \<Longrightarrow> \<exists>d. goes c w d \<and> rest_of d = v"
  by (intro exI [of _ "skip (length w) c"]) (simp add: goes_iff_skip)

lemma goes_start: "goes (start_cursor s) w d \<Longrightarrow> s = w @ rest_of d \<and> pos_of d = length w"
  by (simp add: goes_def start_cursor_def)

lemma goes_text: "goes (start_cursor s) u c \<Longrightarrow> goes c w d \<Longrightarrow> text_between s (pos_of c) (pos_of d) = w"
  using goes_start [of s u c] goes_pos [of c w d] goes_rest [of c w d] by (auto simp: text_between_def)

lemma goes_text0: "goes (start_cursor s) w d \<Longrightarrow> text_between s 0 (pos_of d) = w"
  using goes_start [of s w d] by (auto simp: text_between_def)

named_theorems reads \<open>what an expression consumes\<close>

lemma denotes_seq [reads]:
  "denotes ci s (RSeq r1 r2) (c, g) (e, k) \<longleftrightarrow>
     (\<exists>d h. denotes ci s r1 (c, g) (d, h) \<and> denotes ci s r2 (d, h) (e, k))"
  by (simp only: denotes.simps split_paired_Ex)

lemma denotes_group [reads]:
  "denotes ci s (RGroup n r) (c, g) (d, h) \<longleftrightarrow>
     (\<exists>h'. denotes ci s r (c, g) (d, h') \<and> h = (n, pos_of c, pos_of d) # h')"
  by auto

lemma denotes_class:
  assumes "char_class ci r = Some P"
  shows "denotes ci s r (c, g) (d, h) \<longleftrightarrow> h = g \<and> (\<exists>b. P b \<and> goes c [b] d)"
proof -
  obtain i p xs where c: "c = (i, p, xs)" by (cases c)
  have "denotes ci s r (c, g) (d, h) \<longleftrightarrow>
      (\<exists>b u. rest_of c = b # u \<and> P b \<and> (d, h) = ((Suc (pos_of c), Some b, u), g))"
    using assms by (cases r) auto
  then show ?thesis by (cases xs) (auto simp: c goes_iff_skip startswith_iff)
qed

lemma goes_in_span:
  "d = skip k c \<and> k \<le> span P c \<longleftrightarrow> (\<exists>w. length w = k \<and> list_all P w \<and> goes c w d)"
proof
  assume k: "d = skip k c \<and> k \<le> span P c"
  then have "take k (rest_of c) = take k (takeWhile P (rest_of c))"
    unfolding span_def by (metis take_all_iff takeWhile_eq_take min.absorb1 take_take)
  then have "list_all P (take k (rest_of c))" by (metis list_all_iff in_set_takeD set_takeWhileD)
  moreover have "k \<le> length (rest_of c)" using k span_le [of P c] by simp
  ultimately show "\<exists>w. length w = k \<and> list_all P w \<and> goes c w d"
    using k goes_skip [of k c] by (intro exI [of _ "take k (rest_of c)"]) simp
next
  assume "\<exists>w. length w = k \<and> list_all P w \<and> goes c w d"
  then obtain w where w: "length w = k" "list_all P w" "goes c w d" by blast
  then have "takeWhile P (rest_of c) = w @ takeWhile P (rest_of d)"
    by (simp add: goes_def list_all_iff takeWhile_append2)
  then have "k \<le> span P c" using w(1) by (simp add: span_def)
  with w(1,3) show "d = skip k c \<and> k \<le> span P c" by (simp add: goes_iff_skip)
qed

lemma denotes_star:
  assumes "char_class ci r = Some P"
  shows "denotes ci s (RRepeat 0 None gr r) (c, g) (d, h) \<longleftrightarrow> h = g \<and> (\<exists>w. list_all P w \<and> goes c w d)"
proof -
  have "plain_look r" using assms by (cases r) auto
  then have "denotes ci s (RRepeat 0 None gr r) (c, g) (d, h) \<longleftrightarrow>
      (d, h) \<in> set (run ci s (RRepeat 0 None True r) c g)"
    by (subst run_denotes) simp_all
  also have "\<dots> \<longleftrightarrow> h = g \<and> (\<exists>k. d = skip k c \<and> k \<le> span P c)"
    unfolding run_star [OF assms] by (auto simp: less_Suc_eq_le simp del: upt_Suc)
  finally show ?thesis unfolding goes_in_span by blast
qed

lemma denotes_plus:
  assumes "char_class ci r = Some P"
  shows "denotes ci s (RRepeat 1 None gr r) (c, g) (d, h) \<longleftrightarrow>
    h = g \<and> (\<exists>w. w \<noteq> [] \<and> list_all P w \<and> goes c w d)"
proof -
  have "plain_look r" using assms by (cases r) auto
  then have "denotes ci s (RRepeat 1 None gr r) (c, g) (d, h) \<longleftrightarrow>
      (d, h) \<in> set (run ci s (RRepeat 1 None True r) c g)"
    by (subst run_denotes) simp_all
  also have "\<dots> \<longleftrightarrow> h = g \<and> (\<exists>k. 1 \<le> k \<and> d = skip k c \<and> k \<le> span P c)"
    unfolding run_plus [OF assms] by (auto simp: less_Suc_eq_le simp del: upt_Suc)
  finally show ?thesis unfolding goes_in_span by (auto simp: Suc_le_eq)
qed

lemma denotes_option [reads]:
  "denotes ci s (RRepeat 0 (Some 1) gr r) (c, g) (d, h) \<longleftrightarrow>
     denotes ci s r (c, g) (d, h) \<or> (d, h) = (c, g)"
proof -
  have "rounds R 0 (Some (Suc 0)) x z \<longleftrightarrow> R x z \<or> z = x" for R x z
    by (subst rounds_0) (auto simp: rounds_none fewer_def)
  then show ?thesis by simp
qed

lemma denotes_begin [reads]: "denotes ci s RBegin (c, g) (d, h) \<longleftrightarrow> h = g \<and> d = c \<and> pos_of c = 0"
  by auto

lemma denotes_end [reads]:
  "denotes ci s REnd (c, g) (d, h) \<longleftrightarrow> h = g \<and> d = c \<and> (rest_of c = [] \<or> rest_of c = [newline])"
  by auto

lemma denotes_boundary [reads]:
  "denotes ci s (RBoundary b) (c, g) (d, h) \<longleftrightarrow> h = g \<and> d = c \<and> at_boundary c = b"
  by auto

lemma denotes_look [reads]:
  "denotes ci s (RLook b r) (c, g) (d, h) \<longleftrightarrow> d = c \<and> h = g \<and> (\<exists>z. denotes ci s r (c, g) z) = b"
  by auto

lemma denotes_alt [reads]:
  "denotes ci s (RAlt r1 r2) x y \<longleftrightarrow> denotes ci s r1 x y \<or> denotes ci s r2 x y"
  by simp

lemmas denotes_chars [reads] =
  denotes_class [OF char_class.simps(1)] denotes_class [OF char_class.simps(2)]
  denotes_class [OF char_class.simps(3)]
  denotes_star [OF char_class.simps(1)] denotes_star [OF char_class.simps(2)]
  denotes_star [OF char_class.simps(3)]
  denotes_plus [OF char_class.simps(1)] denotes_plus [OF char_class.simps(2)]
  denotes_plus [OF char_class.simps(3)]
  denotes_plus [OF char_class.simps(1), unfolded One_nat_def]
  denotes_plus [OF char_class.simps(2), unfolded One_nat_def]
  denotes_plus [OF char_class.simps(3), unfolded One_nat_def]

text \<open>Moving on never leaves the text.\<close>

lemma denotes_goes:
  assumes "plain_look r" and "denotes ci s r (c, g) (d, h)"
  shows "\<exists>w. goes c w d"
  using assms run_denotes [OF assms(1)] run_advances advances_goes by blast

lemma denotes_no_groups:
  assumes "plain_look r" and "no_groups r" and "denotes ci s r (c, g) (d, h)"
  shows "h = g \<and> (\<exists>w. goes c w d)"
  using assms run_denotes [OF assms(1)] no_groups_run [OF assms(2)] denotes_goes [OF assms(1,3)] by blast

text \<open>What \<open>Match\<close> returns, and that it returns.\<close>

lemma re_match_denotes:
  assumes "re_match (ci, r) s = Some m" and "plain_look r"
  obtains d where "denotes ci s r (start_cursor s, []) (d, m_groups m)"
    and "m_string m = s" and "m_start m = 0" and "m_end m = pos_of d"
proof -
  from assms(1) obtain b where b: "advances (start_cursor s) b" "m_string m = s" "m_start m = 0"
    "m_end m = pos_of b"
    "match_here (engine_of (ci, r) s) (start_cursor s) = Some (b, m_groups m)"
    by (rule re_match_Some)
  then have "denotes ci s r (start_cursor s, []) (b, m_groups m)"
    using match_here_mem [OF b(5)] run_denotes [OF assms(2)] by (simp add: engine_of_def)
  with b show thesis using that by blast
qed

lemma re_match_exists:
  "plain_look r \<Longrightarrow> denotes ci s r (start_cursor s, []) y \<Longrightarrow> re_match (ci, r) s \<noteq> None"
  using run_denotes [of r y ci s "start_cursor s" "[]"]
  by (auto simp: re_match_def match_here_None engine_of_def)

lemma Match_eqI:
  assumes "re_compile p = Some (ci, r)" and "plain_look r"
    and "denotes ci s r (start_cursor s, []) y"
    and "\<And>d g. denotes ci s r (start_cursor s, []) (d, g) \<Longrightarrow> pos_of d = e \<and> g = gs"
  shows "Match p s = Some (Some \<lparr>m_string = s, m_start = 0, m_end = e, m_groups = gs\<rparr>)"
proof -
  obtain m where m: "re_match (ci, r) s = Some m" using re_match_exists [OF assms(2,3)] by blast
  then obtain d where "denotes ci s r (start_cursor s, []) (d, m_groups m)"
    "m_string m = s" "m_start m = 0" "m_end m = pos_of d"
    using assms(2) by (rule re_match_denotes)
  with assms(4) [of d "m_groups m"] m show ?thesis by (cases m) (simp add: Match_compiled [OF assms(1)])
qed

lemma Match_NoneI:
  assumes "re_compile p = Some (ci, r)" and "plain_look r"
    and "\<And>d g. \<not> denotes ci s r (start_cursor s, []) (d, g)"
  shows "Match p s = Some None"
proof (cases "re_match (ci, r) s")
  case None
  then show ?thesis by (simp add: Match_compiled [OF assms(1)])
next
  case (Some m)
  then show ?thesis using assms(2,3) by (auto elim: re_match_denotes)
qed

lemma Match_returns:
  assumes "re_compile p = Some (ci, r)" and "plain_look r"
  obtains "Match p s = Some None" | m d where "Match p s = Some (Some m)"
    and "denotes ci s r (start_cursor s, []) (d, m_groups m)" and "m_string m = s"
proof (cases "re_match (ci, r) s")
  case None
  then show thesis using that(1) by (simp add: Match_compiled [OF assms(1)])
next
  case (Some m)
  then show thesis
    using that(2) [of m] assms by (auto elim: re_match_denotes simp: Match_compiled [OF assms(1)])
qed

text \<open>A search that finds something found text the expression denotes.\<close>

lemma re_search_denotes:
  assumes "re_search (ci, r) s = Some m" and "plain_look r"
  obtains u c d where "goes (start_cursor s) u c" and "denotes ci s r (c, []) (d, m_groups m)"
    and "m_string m = s" and "m_start m = length u" and "m_end m = pos_of d"
proof -
  from assms(1) obtain a b where ab: "advances (start_cursor s) a" "m_string m = s"
    "m_start m = pos_of a" "m_end m = pos_of b"
    "match_here (engine_of (ci, r) s) a = Some (b, m_groups m)"
    by (rule re_search_Some)
  obtain u where u: "goes (start_cursor s) u a" using ab(1) advances_goes by blast
  have "denotes ci s r (a, []) (b, m_groups m)"
    using match_here_mem [OF ab(5)] run_denotes [OF assms(2)] by (simp add: engine_of_def)
  then show thesis using that [OF u] ab goes_start [OF u] by simp
qed

text \<open>The truth values of \<open>Matches\<close> and \<open>Searches\<close>, read off the expression.\<close>

lemma Matches_returns: "re_compile p \<noteq> None \<Longrightarrow> \<exists>b. Matches p s = Some b"
  by (auto simp: Matches_def Match_def)

lemma Searches_returns: "re_compile p \<noteq> None \<Longrightarrow> \<exists>b. Searches p s = Some b"
  by (auto simp: Searches_def Search_def)

lemma Matches_iff:
  assumes "re_compile p = Some (ci, r)" and "plain_look r"
  shows "Matches p s = Some (\<exists>y. denotes ci s r (start_cursor s, []) y)"
proof -
  have "re_match (ci, r) s \<noteq> None \<longleftrightarrow> (\<exists>y. denotes ci s r (start_cursor s, []) y)"
    using re_match_exists [OF assms(2)] re_match_denotes [OF _ assms(2)] by blast
  then show ?thesis by (simp add: Matches_def Match_compiled [OF assms(1)])
qed

lemma Searches_iff:
  assumes "re_compile p = Some (ci, r)" and "plain_look r"
  shows "Searches p s = Some (\<exists>u c y. goes (start_cursor s) u c \<and> denotes ci s r (c, []) y)"
proof -
  have "re_search (ci, r) s = None \<longleftrightarrow> \<not> (\<exists>u c y. goes (start_cursor s) u c \<and> denotes ci s r (c, []) y)"
    unfolding re_search_None engine_of_def fst_conv snd_conv advances_goes
    by (metis (no_types, lifting) run_denotes [OF assms(2)] list.set_intros(1) neq_Nil_conv list.set(1) empty_iff)
  then have "(re_search (ci, r) s \<noteq> None) = (\<exists>u c y. goes (start_cursor s) u c \<and> denotes ci s r (c, []) y)"
    by metis
  then show ?thesis by (simp only: Searches_def Search_compiled [OF assms(1)] option.map)
qed

text \<open>The text of a group, once its place is known.\<close>

lemma text_between_append [simp]: "text_between (u @ w @ v) (length u) (length u + length w) = w"
  by (simp add: text_between_def)

lemma text_between_append0 [simp]: "text_between (w @ v) 0 (length w) = w"
  by (simp add: text_between_def)

section \<open>Substituting single characters\<close>

lemma search_one_char:
  "search_from (one_char P) (i, p, xs) =
     (case xs of
        [] \<Rightarrow> None
      | x # ys \<Rightarrow> if P x then Some ((i, p, xs), (Suc i, Some x, ys), [])
                  else search_from (one_char P) (Suc i, Some x, ys))"
  by (subst search_from.simps) (auto simp: match_here_def split: list.splits)

lemma text_between_Suc: "j \<le> length pre \<Longrightarrow>
    text_between (pre @ x # xs) j (Suc (length pre)) = text_between (pre @ x # xs) j (length pre) @ [x]"
  by (simp add: text_between_def Suc_diff_le take_Suc_conv_app_nth)

lemma sub_pieces_one_char:
  "s = pre @ xs \<Longrightarrow> j \<le> length pre \<Longrightarrow> length xs < n \<Longrightarrow>
   sub_pieces (\<lambda>_. rep) s j later (map (mk_match s) (matches_from n (one_char P) (length pre, p, xs))) =
     text_between s j (length pre) @ concat (map (\<lambda>c. if P c then rep else [c]) xs)"
proof (induction xs arbitrary: pre p j n later)
  case Nil
  then obtain k where "n = Suc k" by (cases n) auto
  with Nil show ?case by (simp add: search_one_char text_between_def)
next
  case (Cons x xs)
  obtain k where n: "n = Suc k" using Cons.prems(3) by (cases n) auto
  have s: "s = (pre @ [x]) @ xs" using Cons.prems(1) by simp
  show ?case
  proof (cases "P x")
    case True
    then have "matches_from n (one_char P) (length pre, p, x # xs) =
        ((length pre, p, x # xs), (Suc (length pre), Some x, xs), []) #
        matches_from k (one_char P) (length (pre @ [x]), Some x, xs)"
      by (simp add: n search_one_char)
    moreover have "text_between s (Suc (length pre)) (Suc (length pre)) = []" by (simp add: text_between_def)
    ultimately show ?thesis
      using Cons.IH [OF s, of "Suc (length pre)" k True "Some x"] Cons.prems(3) n True
      by (auto simp: mk_match_def)
  next
    case False
    then have "matches_from n (one_char P) (length pre, p, x # xs) =
        matches_from n (one_char P) (length (pre @ [x]), Some x, xs)"
      by (simp add: n search_one_char [of P "length pre"])
    moreover have "text_between s j (length (pre @ [x])) = text_between s j (length pre) @ [x]"
      using text_between_Suc [OF Cons.prems(2), of x xs] Cons.prems(1) by simp
    ultimately show ?thesis
      using Cons.IH [OF s, of j n later "Some x"] Cons.prems(2,3) False by simp
  qed
qed

lemma re_sub_char_class:
  assumes "char_class ci r = Some P"
  shows "re_sub (ci, r) (\<lambda>_. rep) s = concat (map (\<lambda>c. if P c then rep else [c]) s)"
  using sub_pieces_one_char [of s "[]" s 0 "Suc (length s)" rep False P None]
  by (simp add: re_sub_def re_finditer_def all_matches_def engine_of_def run_char_class [OF assms]
      start_cursor_def text_between_def)

section \<open>Patterns with a name in them\<close>

definition plain_char :: "char \<Rightarrow> bool" where
  "plain_char c \<longleftrightarrow> c \<notin> set (backslash # ''.^$|()[*+?{'')"

definition literal :: "string \<Rightarrow> re list \<Rightarrow> re" where
  "literal w rs = mk_seq (map RChar w @ rs)"

lemma tokens_literal:
  "list_all plain_char w \<Longrightarrow>
     tokens (w @ s) = map_option (\<lambda>ts. map (\<lambda>c. TItem (RChar c)) w @ ts) (tokens s)"
proof (induction w)
  case Nil
  then show ?case by (cases "tokens s") simp_all
next
  case (Cons a w)
  then have "next_tok a (w @ s) = Some (TItem (RChar a), w @ s)" by (simp add: plain_char_def next_tok_def)
  with Cons show ?case by (cases "tokens s") simp_all
qed

lemma lazy_mark_plain: "plain_char c \<Longrightarrow> lazy_mark (c # s) = (True, c # s)"
  by (simp add: lazy_mark_def plain_char_def)

text \<open>A pattern that is continued after a complete first part.\<close>

lemma lazy_mark_append:
  assumes "lazy_mark s = (g, u)" and "t = [] \<or> hd t \<noteq> CHR ''?''"
  shows "lazy_mark (s @ t) = (g, u @ t)"
  using assms by (cases s; cases t) (auto simp: lazy_mark_def split: if_splits)

lemma next_tok_append:
  assumes "next_tok c s = Some (k, u)" and "c \<noteq> CHR ''{''" and "c \<noteq> CHR ''[''" and "t = [] \<or> hd t \<noteq> CHR ''?''"
  shows "next_tok c (s @ t) = Some (k, u @ t) \<and> set u \<subseteq> set s"
proof (cases "c \<in> set ''*+?''")
  case True
  obtain g v where "lazy_mark s = (g, v)" by force
  moreover from this have "set v \<subseteq> set s" by (auto simp: lazy_mark_def split: if_splits list.splits)
  ultimately show ?thesis using True assms(1) lazy_mark_append [OF _ assms(4)] by (auto simp: next_tok_def backslash_def)
next
  case False
  show ?thesis
  proof (cases "c = CHR ''(''")
    case True
    with assms show ?thesis
      by (cases s; cases t) (auto simp: next_tok_def backslash_def startswith_iff split: list.splits if_splits)
  next
    case F2: False
    with False assms(1-3) show ?thesis
      by (cases s) (auto simp: next_tok_def split: if_splits option.splits)
  qed
qed

lemma tokens_append:
  assumes "tokens p = Some ts" and "list_all (\<lambda>c. c \<noteq> CHR ''{'' \<and> c \<noteq> CHR ''['') p" and "t = [] \<or> hd t \<noteq> CHR ''?''"
  shows "tokens (p @ t) = map_option (\<lambda>us. ts @ us) (tokens t)"
  using assms(1,2)
proof (induction p arbitrary: ts rule: tokens.induct)
  case 1
  then show ?case by (cases "tokens t") simp_all
next
  case (2 c s)
  then obtain k u vs where k: "next_tok c s = Some (k, u)" "tokens u = Some vs" "ts = k # vs"
    by (auto split: option.splits)
  have "next_tok c (s @ t) = Some (k, u @ t) \<and> set u \<subseteq> set s"
    using next_tok_append [OF k(1) _ _ assms(3)] 2(3) by simp
  moreover from this have "list_all (\<lambda>c. c \<noteq> CHR ''{'' \<and> c \<noteq> CHR ''['') u" using 2(3) by (auto simp: list_all_iff)
  ultimately show ?case using 2(1) [OF k(1) refl k(2)] k(3) by (simp add: option.map_comp comp_def)
qed

lemma parse_toks_literal:
  "parse_toks (map (\<lambda>c. TItem (RChar c)) w @ ts) stack alts items gid ci =
     parse_toks ts stack alts (rev (map RChar w) @ items) gid ci"
  by (induction w arbitrary: items) simp_all

lemma mk_seq_Cons: "rs \<noteq> [] \<Longrightarrow> mk_seq (r # rs) = RSeq r (mk_seq rs)"
  by (cases rs) simp_all

lemma goes_Cons: "goes c (b # w) e \<longleftrightarrow> (\<exists>d. goes c [b] d \<and> goes d w e)"
proof
  assume "goes c (b # w) e"
  then show "\<exists>d. goes c [b] d \<and> goes d w e"
    by (intro exI [of _ "(Suc (pos_of c), Some b, w @ rest_of e)"]) (auto simp: goes_def prod_eq_iff)
next
  assume "\<exists>d. goes c [b] d \<and> goes d w e"
  then show "goes c (b # w) e" using goes_trans by fastforce
qed

lemma denotes_literal [reads]:
  assumes "rs \<noteq> []"
  shows "denotes False s (literal w rs) (c, g) (e, k) \<longleftrightarrow>
    (\<exists>d. goes c w d \<and> denotes False s (mk_seq rs) (d, g) (e, k))"
proof (induction w arbitrary: c)
  case Nil
  then show ?case by (simp add: literal_def)
next
  case (Cons b w)
  have "literal (b # w) rs = RSeq (RChar b) (literal w rs)"
    using assms by (simp add: literal_def mk_seq_Cons)
  moreover have "denotes False s (RChar b) (c, g) (d, h) \<longleftrightarrow> h = g \<and> goes c [b] d" for d h
    unfolding reads by (auto simp: fold_char_def)
  ultimately have "denotes False s (literal (b # w) rs) (c, g) (e, k) \<longleftrightarrow>
      (\<exists>d. goes c [b] d \<and> denotes False s (literal w rs) (d, g) (e, k))"
    by (simp only: denotes_seq) blast
  then show ?case unfolding Cons goes_Cons [of c b w] by blast
qed

lemma literal_plain_look [simp]: "plain_look (mk_seq rs) \<Longrightarrow> rs \<noteq> [] \<Longrightarrow> plain_look (literal w rs)"
  by (induction w) (simp_all add: literal_def mk_seq_Cons)

lemma denotes_char: "denotes False s (RChar b) (c, g) (d, h) \<longleftrightarrow> h = g \<and> goes c [b] d"
  unfolding reads by (auto simp: fold_char_def)

section \<open>Words and alternatives\<close>

definition word_re :: "string \<Rightarrow> re" where
  "word_re w = mk_seq (map RChar w)"

lemma denotes_word: "w \<noteq> [] \<Longrightarrow> denotes False s (word_re w) (c, g) (d, h) \<longleftrightarrow> h = g \<and> goes c w d"
proof (induction w arbitrary: c)
  case (Cons b w)
  show ?case
  proof (cases "w = []")
    case True
    then show ?thesis by (simp add: word_re_def denotes_char del: denotes.simps)
  next
    case False
    then have "word_re (b # w) = RSeq (RChar b) (word_re w)" by (simp add: word_re_def mk_seq_Cons)
    then show ?thesis
      using Cons.IH [OF False] by (auto simp: denotes_seq denotes_char goes_Cons [of c b w] simp del: denotes.simps)
  qed
qed simp

text \<open>What a word matches when the case of letters may be ignored.\<close>

definition spells :: "bool \<Rightarrow> string \<Rightarrow> cursor \<Rightarrow> cursor \<Rightarrow> bool" where
  "spells ci w c d \<longleftrightarrow> (\<exists>v. list_all2 (\<lambda>a b. fold_char ci a = fold_char ci b) w v \<and> goes c v d)"

lemma spells_Cons: "spells ci (a # w) c e \<longleftrightarrow> (\<exists>d b. fold_char ci a = fold_char ci b \<and> goes c [b] d \<and> spells ci w d e)"
proof
  assume "spells ci (a # w) c e"
  then obtain b v where "fold_char ci a = fold_char ci b" "list_all2 (\<lambda>a b. fold_char ci a = fold_char ci b) w v" "goes c (b # v) e"
    by (auto simp: spells_def list_all2_Cons1)
  then show "\<exists>d b. fold_char ci a = fold_char ci b \<and> goes c [b] d \<and> spells ci w d e"
    unfolding goes_Cons [of c b v] spells_def by blast
next
  assume "\<exists>d b. fold_char ci a = fold_char ci b \<and> goes c [b] d \<and> spells ci w d e"
  then obtain d b v where "fold_char ci a = fold_char ci b" "goes c [b] d"
    "list_all2 (\<lambda>a b. fold_char ci a = fold_char ci b) w v" "goes d v e" by (auto simp: spells_def)
  then show "spells ci (a # w) c e"
    unfolding spells_def by (intro exI [of _ "b # v"]) (auto simp: goes_Cons [of c b v])
qed

lemma denotes_lits:
  "denotes ci s (lits w r) (c, g) (e, k) \<longleftrightarrow> (\<exists>d. spells ci w c d \<and> denotes ci s r (d, g) (e, k))"
proof (induction w arbitrary: c g)
  case Nil
  then show ?case by (simp add: spells_def lits.simps)
next
  case (Cons a w)
  have ch: "denotes ci s (RChar a) (c, g) (d, h) \<longleftrightarrow> h = g \<and> (\<exists>b. fold_char ci a = fold_char ci b \<and> goes c [b] d)" for d h
    by (rule denotes_class) simp
  show ?case unfolding lits.simps denotes_seq ch Cons spells_Cons by blast
qed

lemma word_re_lits: "w \<noteq> [] \<Longrightarrow> word_re w = lits (butlast w) (RChar (last w))"
  by (induction w rule: induct_list012) (simp_all add: word_re_def lits.simps)

lemma denotes_word_ci:
  assumes "w \<noteq> []"
  shows "denotes ci s (word_re w) (c, g) (d, h) \<longleftrightarrow> h = g \<and> spells ci w c d"
proof -
  have "denotes ci s (RChar a) (c, g) (d, h) \<longleftrightarrow> h = g \<and> spells ci [a] c d" for a c
    by (subst denotes_class) (auto simp: spells_def list_all2_Cons1)
  moreover have "spells ci w c d \<longleftrightarrow> (\<exists>e. spells ci (butlast w) c e \<and> spells ci [last w] e d)"
    using assms
  proof (induction w arbitrary: c rule: induct_list012)
    case (3 a b w)
    then show ?case by (simp add: spells_Cons [of ci a]) blast
  qed (auto simp: spells_def list_all2_Cons1)
  ultimately show ?thesis unfolding word_re_lits [OF assms] denotes_lits by blast
qed

lemma denotes_mk_alt: "rs \<noteq> [] \<Longrightarrow> denotes ci s (mk_alt rs) x y \<longleftrightarrow> (\<exists>r \<in> set rs. denotes ci s r x y)"
  by (induction rs rule: mk_alt.induct) auto

lemma plain_word: "plain_look (word_re w)" "no_groups (word_re w)"
proof -
  have "plain_look (mk_seq (map RChar w)) \<and> no_groups (mk_seq (map RChar w))"
    by (induction w rule: induct_list012) simp_all
  then show "plain_look (word_re w)" "no_groups (word_re w)" by (simp_all add: word_re_def)
qed

lemma plain_mk_alt: "\<forall>r \<in> set rs. plain_look r \<and> no_groups r \<Longrightarrow> plain_look (mk_alt rs) \<and> no_groups (mk_alt rs)"
  by (induction rs rule: mk_alt.induct) auto

text \<open>Every match \<^verbatim>\<open>finditer\<close> produces is one the expression denotes.\<close>

lemma re_finditer_denotes:
  assumes "m \<in> set (re_finditer (ci, r) s)" and "plain_look r"
  obtains c d where "denotes ci s r (c, []) (d, m_groups m)" and "m_string m = s"
    and "m_start m = pos_of c" and "m_end m = pos_of d" and "advances (start_cursor s) c"
proof -
  from assms(1) obtain x where x: "x \<in> set (matches_from (Suc (length s)) (run ci s r) (start_cursor s))"
    and mx: "m = mk_match s x"
    unfolding re_finditer_def all_matches_def engine_of_def set_map fst_conv snd_conv by blast
  obtain c d g where cdg: "x = (c, d, g)" by (cases x)
  note c = x [unfolded cdg] and m = mx [unfolded cdg]
  have "(d, g) \<in> set (run ci s r c [])" using backtrack.matches_from_here [OF c] match_here_mem by blast
  then have "denotes ci s r (c, []) (d, g)" using run_denotes [OF assms(2)] by blast
  moreover have "advances (start_cursor s) c" using backtrack.matches_from_at [OF c] by blast
  ultimately show thesis using that m by (simp add: mk_match_def)
qed

section \<open>Expressions that consume something\<close>

primrec consumes :: "re \<Rightarrow> bool" where
  "consumes REmpty \<longleftrightarrow> False"
| "consumes (RChar a) \<longleftrightarrow> True"
| "consumes RAny \<longleftrightarrow> True"
| "consumes (RSet neg its) \<longleftrightarrow> True"
| "consumes RBegin \<longleftrightarrow> False"
| "consumes REnd \<longleftrightarrow> False"
| "consumes (RBoundary b) \<longleftrightarrow> False"
| "consumes (RSeq r1 r2) \<longleftrightarrow> consumes r1 \<or> consumes r2"
| "consumes (RAlt r1 r2) \<longleftrightarrow> consumes r1 \<and> consumes r2"
| "consumes (RRepeat mn mx gr r) \<longleftrightarrow> 0 < mn \<and> consumes r"
| "consumes (RGroup n r) \<longleftrightarrow> consumes r"
| "consumes (RLook b r) \<longleftrightarrow> False"
| "consumes (RBackref n) \<longleftrightarrow> False"

lemma denotes_pos: "plain_look r \<Longrightarrow> denotes ci s r x y \<Longrightarrow> pos_of (fst x) \<le> pos_of (fst y)"
  using denotes_goes [of r ci s "fst x" "snd x" "fst y" "snd y"] by (auto dest: goes_pos)

lemma rounds_pos:
  "rounds (denotes ci s r) mn mx x z \<Longrightarrow> plain_look r \<Longrightarrow> pos_of (fst x) \<le> pos_of (fst z)"
  by (induction rule: rounds.induct) (auto dest!: denotes_pos)

lemma denotes_consumes:
  "plain_look r \<Longrightarrow> consumes r \<Longrightarrow> denotes ci s r x y \<Longrightarrow> pos_of (fst x) < pos_of (fst y)"
proof (induction r arbitrary: x y)
  case (RSeq r1 r2)
  then obtain z where z: "denotes ci s r1 x z" "denotes ci s r2 z y" by (auto simp: denotes.simps)
  have "pos_of (fst x) \<le> pos_of (fst z)" "pos_of (fst z) \<le> pos_of (fst y)"
    using RSeq.prems(1) by (auto intro: denotes_pos [OF _ z(1)] denotes_pos [OF _ z(2)])
  moreover have "pos_of (fst x) < pos_of (fst z) \<or> pos_of (fst z) < pos_of (fst y)"
    using RSeq.IH(1) [OF _ _ z(1)] RSeq.IH(2) [OF _ _ z(2)] RSeq.prems(1,2) by auto
  ultimately show ?case by linarith
next
  case (RRepeat mn mx gr r)
  then obtain k where "mn = Suc k" by (cases mn) auto
  with RRepeat.prems obtain z where z: "denotes ci s r x z" "rounds (denotes ci s r) k (fewer mx) z y"
    by (auto simp: denotes.simps rounds_Suc)
  have "pos_of (fst x) < pos_of (fst z)" using RRepeat z(1) by simp
  also have "\<dots> \<le> pos_of (fst y)" using rounds_pos [OF z(2)] RRepeat.prems(1) by simp
  finally show ?case .
qed (auto simp: denotes.simps)

lemma re_match_consumes:
  assumes "re_match (ci, r) s = Some m" and "plain_look r" and "consumes r"
  shows "s \<noteq> []"
proof -
  obtain d where d: "denotes ci s r (start_cursor s, []) (d, m_groups m)" using assms(1,2) by (rule re_match_denotes)
  obtain w where "goes (start_cursor s) w d" using denotes_goes [OF assms(2) d] by blast
  then show ?thesis using denotes_consumes [OF assms(2,3) d] goes_start [of s w d] by (auto simp: start_cursor_def)
qed

lemma re_search_consumes:
  assumes "re_search (ci, r) s = Some m" and "plain_look r" and "consumes r"
  shows "m_start m < m_end m \<and> m_end m \<le> length s"
proof -
  obtain u c d where u: "goes (start_cursor s) u c" and d: "denotes ci s r (c, []) (d, m_groups m)"
    and m: "m_start m = length u" "m_end m = pos_of d" using assms(1,2) by (rule re_search_denotes)
  obtain w where w: "goes c w d" using denotes_goes [OF assms(2) d] by blast
  have "length w \<le> length (rest_of c)" using goes_rest [OF w] by simp
  then show ?thesis
    using m denotes_consumes [OF assms(2,3) d] goes_start [OF u] goes_start [OF goes_trans [OF u w]] by auto
qed

text \<open>No group of that number.\<close>

primrec avoids :: "nat \<Rightarrow> re \<Rightarrow> bool" where
  "avoids n REmpty \<longleftrightarrow> True"
| "avoids n (RChar a) \<longleftrightarrow> True"
| "avoids n RAny \<longleftrightarrow> True"
| "avoids n (RSet neg its) \<longleftrightarrow> True"
| "avoids n RBegin \<longleftrightarrow> True"
| "avoids n REnd \<longleftrightarrow> True"
| "avoids n (RBoundary b) \<longleftrightarrow> True"
| "avoids n (RSeq r1 r2) \<longleftrightarrow> avoids n r1 \<and> avoids n r2"
| "avoids n (RAlt r1 r2) \<longleftrightarrow> avoids n r1 \<and> avoids n r2"
| "avoids n (RRepeat mn mx gr r) \<longleftrightarrow> avoids n r"
| "avoids n (RGroup k r) \<longleftrightarrow> k \<noteq> n \<and> avoids n r"
| "avoids n (RLook b r) \<longleftrightarrow> True"
| "avoids n (RBackref k) \<longleftrightarrow> True"

text \<open>A group of that number starts only after something was consumed.\<close>

primrec late :: "nat \<Rightarrow> re \<Rightarrow> bool" where
  "late n REmpty \<longleftrightarrow> True"
| "late n (RChar a) \<longleftrightarrow> True"
| "late n RAny \<longleftrightarrow> True"
| "late n (RSet neg its) \<longleftrightarrow> True"
| "late n RBegin \<longleftrightarrow> True"
| "late n REnd \<longleftrightarrow> True"
| "late n (RBoundary b) \<longleftrightarrow> True"
| "late n (RSeq r1 r2) \<longleftrightarrow> late n r1 \<and> (consumes r1 \<or> late n r2)"
| "late n (RAlt r1 r2) \<longleftrightarrow> late n r1 \<and> late n r2"
| "late n (RRepeat mn mx gr r) \<longleftrightarrow> late n r"
| "late n (RGroup k r) \<longleftrightarrow> k \<noteq> n \<and> late n r"
| "late n (RLook b r) \<longleftrightarrow> True"
| "late n (RBackref k) \<longleftrightarrow> True"

text \<open>Where a group lies that was not there before.\<close>

definition new_group :: "nat \<Rightarrow> nat \<Rightarrow> place \<Rightarrow> place \<Rightarrow> bool" where
  "new_group n k x y \<longleftrightarrow> map_of (snd y) n = map_of (snd x) n \<or>
     (\<exists>a b. map_of (snd y) n = Some (a, b) \<and> pos_of (fst x) + k \<le> a \<and> a \<le> b \<and> b \<le> pos_of (fst y))"

lemma new_group_refl [simp]: "new_group n k x x"
  by (simp add: new_group_def)

lemma new_group_trans:
  "new_group n k x y \<Longrightarrow> new_group n k y z \<Longrightarrow> pos_of (fst x) \<le> pos_of (fst y) \<Longrightarrow> pos_of (fst y) \<le> pos_of (fst z) \<Longrightarrow>
   new_group n k x z"
  by (fastforce simp: new_group_def)

lemma rounds_new_group:
  assumes "rounds (denotes ci s r) mn mx x z" and "plain_look r" and "\<And>x y. denotes ci s r x y \<Longrightarrow> new_group n k x y"
  shows "new_group n k x z"
  using assms
proof (induction rule: rounds.induct)
  case (least mx x y mn z)
  then show ?case using denotes_pos rounds_pos new_group_trans by blast
next
  case (more mx x y z)
  then show ?case using denotes_pos rounds_pos new_group_trans by blast
qed auto

lemma denotes_new_group:
  "plain_look r \<Longrightarrow> denotes ci s r x y \<Longrightarrow> new_group n 0 x y \<and> (late n r \<longrightarrow> new_group n 1 x y) \<and>
     (avoids n r \<longrightarrow> map_of (snd y) n = map_of (snd x) n)"
proof (induction r arbitrary: x y)
  case (RSeq r1 r2)
  then obtain z where z: "denotes ci s r1 x z" "denotes ci s r2 z y" by (auto simp: denotes.simps)
  note le = denotes_pos [OF _ z(1)] denotes_pos [OF _ z(2)]
  note ih = RSeq.IH(1) [OF _ z(1)] RSeq.IH(2) [OF _ z(2)]
  have "new_group n 1 x y" if "late n r1" "consumes r1"
  proof -
    have "pos_of (fst x) < pos_of (fst z)" using denotes_consumes [OF _ that(2) z(1)] RSeq.prems by simp
    moreover have "new_group n 1 x z" "new_group n 0 z y" using ih RSeq.prems(1) that(1) by auto
    ultimately show ?thesis using le RSeq.prems(1) by (fastforce simp: new_group_def)
  qed
  then show ?case
    using ih le RSeq.prems(1) by (auto intro: new_group_trans)
next
  case (RAlt r1 r2)
  then consider "denotes ci s r1 x y" | "denotes ci s r2 x y" by (auto simp: denotes.simps)
  then show ?case
  proof cases
    case 1
    from RAlt.IH(1) [OF _ this] RAlt.prems(1) show ?thesis by simp
  next
    case 2
    from RAlt.IH(2) [OF _ this] RAlt.prems(1) show ?thesis by simp
  qed
next
  case (RRepeat mn mx gr r)
  then have r: "rounds (denotes ci s r) mn mx x y" "plain_look r" by (auto simp: denotes.simps)
  have "map_of (snd y) n = map_of (snd x) n" if "avoids n r"
    using r RRepeat.IH that by (induction rule: rounds.induct) auto
  then show ?case using rounds_new_group [OF r] RRepeat.IH [OF r(2)] by auto
next
  case (RGroup k r)
  then obtain c g where cg: "denotes ci s r x (c, g)" "y = (c, (k, pos_of (fst x), pos_of c) # g)"
    by (auto simp: denotes.simps)
  have "pos_of (fst x) \<le> pos_of c" using denotes_pos [OF _ cg(1)] RGroup.prems(1) by simp
  then show ?case using RGroup.IH [OF _ cg(1)] RGroup.prems(1) cg(2) by (auto simp: new_group_def)
qed (auto simp: denotes.simps new_group_def)

definition has_rest :: "nat \<Rightarrow> string \<Rightarrow> bool" where
  "has_rest n p = (case re_compile p of None \<Rightarrow> False | Some (ci, r) \<Rightarrow> plain_look r \<and> consumes r \<and> late n r)"

lemma rest_shorter:
  assumes "has_rest n p" and "re_match (the (re_compile p)) s = Some m" and "0 < n"
  shows "length (group_text m n) < length s"
proof -
  obtain ci r where p: "re_compile p = Some (ci, r)" "plain_look r" "consumes r" "late n r"
    using assms(1) by (auto simp: has_rest_def split: option.splits)
  obtain d where d: "denotes ci s r (start_cursor s, []) (d, m_groups m)" and str: "m_string m = s"
    using assms(2) p(1,2) by (auto elim: re_match_denotes)
  obtain w where w: "goes (start_cursor s) w d" using denotes_goes [OF p(2) d] by blast
  have ne: "pos_of d \<noteq> 0" "pos_of d \<le> length s"
    using denotes_consumes [OF p(2,3) d] goes_start [OF w] by (auto simp: start_cursor_def)
  have "new_group n 1 (start_cursor s, []) (d, m_groups m)" using denotes_new_group [OF p(2) d] p(4) by blast
  then show ?thesis
    using ne str assms(3) by (auto simp: new_group_def group_text_def group_def text_between_def start_cursor_def)
qed

text \<open>
  Patterns whose first group starts at the beginning of the text and is followed by something: the
  length of the group is a column of the text.
\<close>

fun column_shape :: "re \<Rightarrow> bool" where
  "column_shape (RSeq RBegin (RSeq (RGroup n r1) r2)) \<longleftrightarrow>
     n = 1 \<and> plain_look r1 \<and> plain_look r2 \<and> avoids 1 r2 \<and> consumes r2"
| "column_shape r \<longleftrightarrow> False"

definition has_column :: "string \<Rightarrow> bool" where
  "has_column p = (case re_compile p of None \<Rightarrow> False | Some (ci, r) \<Rightarrow> column_shape r)"

lemma column_in_line:
  assumes "has_column p" and "re_match (the (re_compile p)) s = Some m"
  shows "length (group_text m 1) < length s"
proof -
  obtain ci r where p: "re_compile p = Some (ci, r)" "column_shape r"
    using assms(1) by (auto simp: has_column_def split: option.splits)
  then obtain r1 r2 where r: "r = RSeq RBegin (RSeq (RGroup 1 r1) r2)" and ok: "plain_look r1"
    "plain_look r2" "avoids 1 r2" "consumes r2" by (cases r rule: column_shape.cases) auto
  have "plain_look r" using r ok by simp
  with assms(2) p(1) obtain e where "denotes ci s r (start_cursor s, []) (e, m_groups m)" and str: "m_string m = s"
    by (auto elim: re_match_denotes)
  then obtain d h where r1: "denotes ci s r1 (start_cursor s, []) (d, h)"
    and r2: "denotes ci s r2 (d, (1, 0, pos_of d) # h) (e, m_groups m)"
    unfolding r reads by (auto simp: start_cursor_def)
  obtain w where w: "goes (start_cursor s) w d" using denotes_goes [OF ok(1) r1] by blast
  obtain v where v: "goes d v e" using denotes_goes [OF ok(2) r2] by blast
  have "map_of (m_groups m) 1 = Some (0, pos_of d)" using denotes_new_group [OF ok(2) r2, of 1] ok(3) by simp
  then have "group_text m 1 = w" using str goes_text0 [OF w] by (simp add: group_text_def group_def)
  moreover have "length w < length s"
    using denotes_consumes [OF ok(2,4) r2] goes_start [OF w] goes_start [OF goes_trans [OF w v]] by auto
  ultimately show ?thesis by simp
qed

text \<open>What the groups of a number enclose.\<close>

primrec bodies :: "nat \<Rightarrow> re \<Rightarrow> re list" where
  "bodies n REmpty = []"
| "bodies n (RChar a) = []"
| "bodies n RAny = []"
| "bodies n (RSet neg its) = []"
| "bodies n RBegin = []"
| "bodies n REnd = []"
| "bodies n (RBoundary b) = []"
| "bodies n (RSeq r1 r2) = bodies n r1 @ bodies n r2"
| "bodies n (RAlt r1 r2) = bodies n r1 @ bodies n r2"
| "bodies n (RRepeat mn mx gr r) = bodies n r"
| "bodies n (RGroup k r) = (if k = n then [r] else []) @ bodies n r"
| "bodies n (RLook b r) = []"
| "bodies n (RBackref k) = []"

definition group_from :: "bool \<Rightarrow> string \<Rightarrow> nat \<Rightarrow> re list \<Rightarrow> place \<Rightarrow> place \<Rightarrow> bool" where
  "group_from ci s n rs x y \<longleftrightarrow> map_of (snd y) n = map_of (snd x) n \<or>
     (\<exists>r \<in> set rs. \<exists>c w d g h. goes (fst x) w c \<and> denotes ci s r (c, g) (d, h) \<and>
        map_of (snd y) n = Some (pos_of c, pos_of d))"

lemma group_from_mono: "group_from ci s n rs x y \<Longrightarrow> set rs \<subseteq> set rs' \<Longrightarrow> group_from ci s n rs' x y"
  unfolding group_from_def by blast

lemma group_from_trans:
  assumes "group_from ci s n rs x y" and "group_from ci s n rs y z" and "goes (fst x) w (fst y)"
  shows "group_from ci s n rs x z"
proof (cases "map_of (snd z) n = map_of (snd y) n")
  case True
  with assms(1) show ?thesis by (simp add: group_from_def)
next
  case False
  with assms(2) obtain r c v d g h where "r \<in> set rs" "goes (fst y) v c" "denotes ci s r (c, g) (d, h)"
    "map_of (snd z) n = Some (pos_of c, pos_of d)" unfolding group_from_def by blast
  with goes_trans [OF assms(3)] show ?thesis unfolding group_from_def by blast
qed

lemma rounds_group_from:
  assumes "rounds (denotes ci s r) mn mx x z" and "plain_look r" and "\<And>x y. denotes ci s r x y \<Longrightarrow> group_from ci s n rs x y"
  shows "group_from ci s n rs x z"
  using assms
proof (induction rule: rounds.induct)
  case (least mx x y mn z)
  then show ?case using denotes_goes [of r ci s "fst x" "snd x" "fst y" "snd y"] group_from_trans by (metis prod.collapse)
next
  case (more mx x y z)
  then show ?case using denotes_goes [of r ci s "fst x" "snd x" "fst y" "snd y"] group_from_trans by (metis prod.collapse)
qed (simp_all add: group_from_def)

lemma denotes_group_from: "plain_look r \<Longrightarrow> denotes ci s r x y \<Longrightarrow> group_from ci s n (bodies n r) x y"
proof (induction r arbitrary: x y)
  case (RSeq r1 r2)
  then obtain z where z: "denotes ci s r1 x z" "denotes ci s r2 z y" by (auto simp: denotes.simps)
  obtain w where "goes (fst x) w (fst z)"
    using denotes_goes [of r1 ci s "fst x" "snd x" "fst z" "snd z"] z(1) RSeq.prems(1) by auto
  moreover have "group_from ci s n (bodies n (RSeq r1 r2)) x z" "group_from ci s n (bodies n (RSeq r1 r2)) z y"
    using RSeq.IH(1) [OF _ z(1)] RSeq.IH(2) [OF _ z(2)] RSeq.prems(1) by (auto elim: group_from_mono)
  ultimately show ?case using group_from_trans by blast
next
  case (RAlt r1 r2)
  then consider "denotes ci s r1 x y" | "denotes ci s r2 x y" by (auto simp: denotes.simps)
  then show ?case
  proof cases
    case 1
    from RAlt.IH(1) [OF _ this] RAlt.prems(1) show ?thesis by (auto elim: group_from_mono)
  next
    case 2
    from RAlt.IH(2) [OF _ this] RAlt.prems(1) show ?thesis by (auto elim: group_from_mono)
  qed
next
  case (RRepeat mn mx gr r)
  then have r: "rounds (denotes ci s r) mn mx x y" "plain_look r" by (auto simp: denotes.simps)
  show ?case using rounds_group_from [OF r] RRepeat.IH [OF r(2)] by simp
next
  case (RGroup k r)
  then obtain c g where cg: "denotes ci s r x (c, g)" "y = (c, (k, pos_of (fst x), pos_of c) # g)"
    by (auto simp: denotes.simps)
  have ih: "group_from ci s n (bodies n r) x (c, g)" using RGroup.IH [OF _ cg(1)] RGroup.prems(1) by simp
  show ?case
  proof (cases "k = n")
    case True
    have "goes (fst x) [] (fst x)" by (simp add: goes_Nil)
    moreover have "denotes ci s r (fst x, snd x) (c, g)" using cg(1) by simp
    ultimately show ?thesis using True cg(2) unfolding group_from_def by fastforce
  next
    case False
    with ih cg(2) show ?thesis by (auto simp: group_from_def)
  qed
qed (auto simp: denotes.simps group_from_def)

text \<open>A group that can only be one of a list of words.\<close>

definition word_group :: "nat \<Rightarrow> string list \<Rightarrow> string \<Rightarrow> bool" where
  "word_group n ws p = (case re_compile p of None \<Rightarrow> False
     | Some (ci, r) \<Rightarrow> \<not> ci \<and> plain_look r \<and> 0 < n \<and> ws \<noteq> [] \<and> [] \<notin> set ws \<and> bodies n r = [mk_alt (map word_re ws)])"

lemma word_group_text:
  assumes "word_group n ws p"
    and "re_search (the (re_compile p)) s = Some m \<or> re_match (the (re_compile p)) s = Some m"
  shows "group m n = None \<or> group_text m n \<in> set ws"
proof -
  obtain r where p: "re_compile p = Some (False, r)" "plain_look r" "0 < n" "ws \<noteq> []" "[] \<notin> set ws"
    "bodies n r = [mk_alt (map word_re ws)]" using assms(1) by (auto simp: word_group_def split: option.splits)
  obtain u c d where u: "goes (start_cursor s) u c" and d: "denotes False s r (c, []) (d, m_groups m)" and str: "m_string m = s"
  proof (cases "re_search (False, r) s = Some m")
    case True
    then show ?thesis using p(2) that by (auto elim: re_search_denotes)
  next
    case False
    then have "re_match (False, r) s = Some m" using assms(2) p(1) by simp
    then obtain d where "denotes False s r (start_cursor s, []) (d, m_groups m)" "m_string m = s"
      using p(2) by (auto elim: re_match_denotes)
    then show ?thesis using that [of "[]" "start_cursor s" d] by (simp add: goes_Nil)
  qed
  from denotes_group_from [OF p(2) d, of n] p(6)
  consider "map_of (m_groups m) n = None"
    | c' w d' g h where "goes c w c'" "denotes False s (mk_alt (map word_re ws)) (c', g) (d', h)"
        "map_of (m_groups m) n = Some (pos_of c', pos_of d')"
    by (auto simp: group_from_def)
  then show ?thesis
  proof cases
    case 1
    with p(3) show ?thesis by (simp add: group_def)
  next
    case 2
    then obtain v where v: "v \<in> set ws" "denotes False s (word_re v) (c', g) (d', h)"
      using denotes_mk_alt [of "map word_re ws"] p(4) by auto
    have "v \<noteq> []" using v(1) p(5) by metis
    then have "goes c' v d'" using v(2) denotes_word by blast
    then have "text_between s (pos_of c') (pos_of d') = v" using goes_text [OF goes_trans [OF u 2(1)]] by blast
    with v(1) 2(3) p(3) str show ?thesis by (simp add: group_text_def group_def)
  qed
qed

section \<open>Patterns that compile\<close>

text \<open>On a pattern that compiles the wrappers are total functions.\<close>

definition is_match :: "string \<Rightarrow> string \<Rightarrow> bool" where
  "is_match p s \<longleftrightarrow> re_match (the (re_compile p)) s \<noteq> None"

definition is_found :: "string \<Rightarrow> string \<Rightarrow> bool" where
  "is_found p s \<longleftrightarrow> re_search (the (re_compile p)) s \<noteq> None"

named_theorems re_total \<open>the wrappers on patterns that compile\<close>

lemma Match_ok [re_total]: "re_compile p \<noteq> None \<Longrightarrow> Match p s = Some (re_match (the (re_compile p)) s)"
  by (auto simp: Match_def)

lemma Search_ok [re_total]: "re_compile p \<noteq> None \<Longrightarrow> Search p s = Some (re_search (the (re_compile p)) s)"
  by (auto simp: Search_def)

lemma Matches_ok [re_total]: "re_compile p \<noteq> None \<Longrightarrow> Matches p s = Some (is_match p s)"
  by (auto simp: Matches_def Match_def is_match_def)

lemma Searches_ok [re_total]: "re_compile p \<noteq> None \<Longrightarrow> Searches p s = Some (is_found p s)"
  by (auto simp: Searches_def Search_def is_found_def)

lemma ReplaceAll_ok [re_total]:
  "re_compile p \<noteq> None \<Longrightarrow> ReplaceAll p rep s = Some (re_sub (the (re_compile p)) (\<lambda>_. rep) s)"
  by (auto simp: ReplaceAll_def)

declare denotes.simps [simp del]

end
