(* ===== verification/LintState.thy ===== *)
theory LintState
  imports RegexRules
begin

text \<open>
  The module-wide state of \<^verbatim>\<open>script/cpplint.py\<close>: the NOLINT suppressions, the class
  \<^verbatim>\<open>_CppLintState\<close> (verbosity, filters, counters, output format) and the error sink
  \<^verbatim>\<open>Error\<close> that every check reports to.

  A check does not write to the sink itself: it returns the list of its \<open>event\<close>s, the calls
  of \<open>error\<close> and the suppressions it makes, in order; \<open>perform\<close> carries them out. The locale
  \<open>suppression_store\<close> is what the sink relies on of the suppressions.
\<close>

section \<open>Categories\<close>

definition ERROR_CATEGORIES :: "string list" where
  "ERROR_CATEGORIES =
  [
   ''build/class'', ''build/c++11'', ''build/deprecated'', ''build/endif_comment'',
   ''build/explicit_make_pair'', ''build/forward_decl'', ''build/header_guard'',
   ''build/include'', ''build/include_alpha'', ''build/include_order'',
   ''build/include_what_you_use'', ''build/namespaces'', ''build/printf_format'',
   ''build/storage_class'', ''legal/copyright'', ''readability/alt_tokens'',
   ''readability/braces'', ''readability/casting'', ''readability/check'',
   ''readability/constructors'', ''readability/fn_size'', ''readability/function'',
   ''readability/inheritance'', ''readability/multiline_comment'',
   ''readability/multiline_string'', ''readability/namespace'', ''readability/nolint'',
   ''readability/nul'', ''readability/strings'', ''readability/todo'', ''readability/utf8'',
   ''runtime/arrays'', ''runtime/casting'', ''runtime/explicit'', ''runtime/int'',
   ''runtime/init'', ''runtime/invalid_increment'', ''runtime/member_string_references'',
   ''runtime/memset'', ''runtime/indentation_namespace'', ''runtime/operator'',
   ''runtime/printf'', ''runtime/printf_format'', ''runtime/references'', ''runtime/string'',
   ''runtime/threadsafe_fn'', ''runtime/vlog'', ''whitespace/blank_line'', ''whitespace/braces'',
   ''whitespace/comma'', ''whitespace/comments'', ''whitespace/empty_conditional_body'',
   ''whitespace/empty_loop_body'', ''whitespace/end_of_line'', ''whitespace/ending_newline'',
   ''whitespace/forcolon'', ''whitespace/indent'', ''whitespace/line_length'',
   ''whitespace/newline'', ''whitespace/operators'', ''whitespace/parens'',
   ''whitespace/semicolon'', ''whitespace/tab'', ''whitespace/todo'']"

definition LEGACY_ERROR_CATEGORIES :: "string list" where
  "LEGACY_ERROR_CATEGORIES = [''readability/streams'']"

definition DEFAULT_FILTERS :: "string list" where
  "DEFAULT_FILTERS = [''-build/include_alpha'']"

section \<open>Events\<close>

datatype event =
    Report (r_file: string) (r_line: int) (r_category: string) (r_confidence: int)
      (r_message: string)
  | Suppress (s_category: "string option") (s_line: int)

fun is_report :: "event \<Rightarrow> bool" where
  "is_report (Report _ _ _ _ _) = True"
| "is_report (Suppress _ _) = False"

section \<open>NOLINT suppressions\<close>

type_synonym suppressions = "string option \<rightharpoonup> int set"

text \<open>\<^verbatim>\<open>_error_suppressions.setdefault(category, set()).add(linenum)\<close>\<close>

definition add_suppression :: "string option \<Rightarrow> int \<Rightarrow> suppressions \<Rightarrow> suppressions" where
  "add_suppression k n m = m(k \<mapsto> insert n (case m k of None \<Rightarrow> {} | Some ls \<Rightarrow> ls))"

definition re_nolint :: string where
  "re_nolint = raw ''`bNOLINT(NEXTLINE)?`b(`([^)]+`))?''"

definition ParseNolintSuppressions :: "string \<Rightarrow> string \<Rightarrow> int \<Rightarrow> event list py" where
  "ParseNolintSuppressions filename raw_line linenum = do {
     matched \<leftarrow> Search re_nolint raw_line;
     Some (case matched of
       None \<Rightarrow> []
     | Some m \<Rightarrow>
         let suppressed_line = (if group_text m 1 \<noteq> [] then linenum + 1 else linenum) in
         (case group m 2 of
            None \<Rightarrow> [Suppress None suppressed_line]
          | Some category \<Rightarrow>
              if category = ''(*)'' then [Suppress None suppressed_line]
              else if startswith category ''('' \<and> endswith category '')''
              then (let category = py_slice category 1 (- 1) in
                    if category \<in> set ERROR_CATEGORIES
                    then [Suppress (Some category) suppressed_line]
                    else if category \<notin> set LEGACY_ERROR_CATEGORIES
                    then [Report filename linenum ''readability/nolint'' 5
                            (''Unknown NOLINT error category: '' @ category)]
                    else [])
              else []))
   }"

definition ResetNolintSuppressions :: suppressions where
  "ResetNolintSuppressions = Map.empty"

definition IsErrorSuppressedByNolint :: "suppressions \<Rightarrow> string \<Rightarrow> int \<Rightarrow> bool" where
  "IsErrorSuppressedByNolint m category linenum \<longleftrightarrow>
     linenum \<in> (case m (Some category) of None \<Rightarrow> {} | Some ls \<Rightarrow> ls) \<or>
     linenum \<in> (case m None of None \<Rightarrow> {} | Some ls \<Rightarrow> ls)"

section \<open>The linter's state\<close>

record CppLintState =
  verbose_level :: int
  error_count :: int
  filters :: "string list"
  filters_backup :: "string list"
  counting :: string
  errors_by_category :: "string \<rightharpoonup> int"
  output_format :: string

definition init_CppLintState :: CppLintState where
  "init_CppLintState =
     \<lparr>verbose_level = 1, error_count = 0, filters = DEFAULT_FILTERS,
      filters_backup = DEFAULT_FILTERS, counting = ''total'', errors_by_category = Map.empty,
      output_format = ''emacs''\<rparr>"

definition SetOutputFormat :: "string \<Rightarrow> CppLintState \<Rightarrow> CppLintState" where
  "SetOutputFormat f st = st\<lparr>output_format := f\<rparr>"

definition SetVerboseLevel :: "int \<Rightarrow> CppLintState \<Rightarrow> int \<times> CppLintState" where
  "SetVerboseLevel level st = (verbose_level st, st\<lparr>verbose_level := level\<rparr>)"

definition SetCountingStyle :: "string \<Rightarrow> CppLintState \<Rightarrow> CppLintState" where
  "SetCountingStyle style st = st\<lparr>counting := style\<rparr>"

text \<open>A filter that starts with neither sign makes \<^verbatim>\<open>AddFilters\<close> raise: \<open>Inl\<close> is the message.\<close>

definition signed_filter :: "string \<Rightarrow> bool" where
  "signed_filter f \<longleftrightarrow> startswith f ''+'' \<or> startswith f ''-''"

definition split_filters :: "string \<Rightarrow> string list" where
  "split_filters fs = filter (\<lambda>f. f \<noteq> []) (map str_strip (split_on (CHR '','') fs))"

definition AddFilters :: "string \<Rightarrow> CppLintState \<Rightarrow> string + CppLintState" where
  "AddFilters fs st =
     (let st' = st\<lparr>filters := filters st @ split_filters fs\<rparr> in
      case find (\<lambda>f. \<not> signed_filter f) (filters st') of
        Some f \<Rightarrow> Inl (''Every filter in --filters must start with + or - ('' @ f @ '' does not)'')
      | None \<Rightarrow> Inr st')"

definition SetFilters :: "string \<Rightarrow> CppLintState \<Rightarrow> string + CppLintState" where
  "SetFilters fs st = AddFilters fs (st\<lparr>filters := DEFAULT_FILTERS\<rparr>)"

definition BackupFilters :: "CppLintState \<Rightarrow> CppLintState" where
  "BackupFilters st = st\<lparr>filters_backup := filters st\<rparr>"

definition RestoreFilters :: "CppLintState \<Rightarrow> CppLintState" where
  "RestoreFilters st = st\<lparr>filters := filters_backup st\<rparr>"

definition ResetErrorCounts :: "CppLintState \<Rightarrow> CppLintState" where
  "ResetErrorCounts st = st\<lparr>error_count := 0, errors_by_category := Map.empty\<rparr>"

text \<open>\<^verbatim>\<open>counts[key] += 1\<close>, starting from zero.\<close>

definition bump :: "'k \<Rightarrow> ('k \<rightharpoonup> int) \<Rightarrow> ('k \<rightharpoonup> int)" where
  "bump k m = m(k \<mapsto> (case m k of None \<Rightarrow> 0 | Some n \<Rightarrow> n) + 1)"

definition IncrementErrorCount :: "string \<Rightarrow> CppLintState \<Rightarrow> CppLintState" where
  "IncrementErrorCount category st =
     (let st = st\<lparr>error_count := error_count st + 1\<rparr> in
      if counting st \<in> {''toplevel'', ''detailed''}
      then (let category = (if counting st \<noteq> ''detailed''
                            then hd (split_on (CHR ''/'') category) else category)
            in st\<lparr>errors_by_category := bump category (errors_by_category st)\<rparr>)
      else st)"

text \<open>
  The summary at the end of a run. The order in which a dictionary is iterated is not specified:
  \<open>keys\<close> is the order of this run.
\<close>

definition PrintErrorCounts :: "string list \<Rightarrow> CppLintState \<Rightarrow> string list" where
  "PrintErrorCounts keys st =
     map (\<lambda>k. ''Category '' @ [CHR 0x27] @ k @ [CHR 0x27] @ '' errors found: '' @
              str_of_int (case errors_by_category st k of None \<Rightarrow> 0 | Some n \<Rightarrow> n) @ [newline]) keys
     @ [''Total errors found: '' @ str_of_int (error_count st) @ [newline]]"

section \<open>The module's globals and the error sink\<close>

record globals =
  error_suppressions :: suppressions
  root :: "string option"
  line_length :: int
  valid_extensions :: "string list"
  cpplint_state :: CppLintState
  stderr :: "string list"

definition init_globals :: globals where
  "init_globals =
     \<lparr>error_suppressions = Map.empty, root = None, line_length = 80,
      valid_extensions = [''cc'', ''h'', ''cpp'', ''cu'', ''cuh''],
      cpplint_state = init_CppLintState, stderr = []\<rparr>"

definition map_state :: "(CppLintState \<Rightarrow> CppLintState) \<Rightarrow> globals \<Rightarrow> globals" where
  "map_state h gl = gl\<lparr>cpplint_state := h (cpplint_state gl)\<rparr>"

definition write_stderr :: "string \<Rightarrow> globals \<Rightarrow> globals" where
  "write_stderr s gl = gl\<lparr>stderr := stderr gl @ [s]\<rparr>"

text \<open>The loop over the filters; an unsigned filter is the failed assertion.\<close>

fun filter_loop :: "string \<Rightarrow> bool \<Rightarrow> string list \<Rightarrow> bool py" where
  "filter_loop category is_filtered [] = Some is_filtered"
| "filter_loop category is_filtered (one_filter # fs) =
     (if startswith one_filter ''-''
      then filter_loop category
             (if startswith category (py_from one_filter 1) then True else is_filtered) fs
      else if startswith one_filter ''+''
      then filter_loop category
             (if startswith category (py_from one_filter 1) then False else is_filtered) fs
      else raise)"

definition ShouldPrintError :: "globals \<Rightarrow> string \<Rightarrow> int \<Rightarrow> int \<Rightarrow> bool py" where
  "ShouldPrintError gl category confidence linenum =
     (if IsErrorSuppressedByNolint (error_suppressions gl) category linenum then Some False
      else if confidence < verbose_level (cpplint_state gl) then Some False
      else do {
        is_filtered \<leftarrow> filter_loop category False (filters (cpplint_state gl));
        Some (\<not> is_filtered)
      })"

definition format_error :: "string \<Rightarrow> string \<Rightarrow> int \<Rightarrow> string \<Rightarrow> int \<Rightarrow> string \<Rightarrow> string" where
  "format_error fmt filename linenum category confidence message =
     (let tail = message @ ''  ['' @ category @ ''] ['' @ str_of_int confidence @ '']'' @ [newline] in
      if fmt = ''vs7'' then filename @ ''('' @ str_of_int linenum @ ''):  '' @ tail
      else if fmt = ''eclipse'' then filename @ '':'' @ str_of_int linenum @ '': warning: '' @ tail
      else filename @ '':'' @ str_of_int linenum @ '':  '' @ tail)"

definition Error :: "string \<Rightarrow> int \<Rightarrow> string \<Rightarrow> int \<Rightarrow> string \<Rightarrow> globals \<Rightarrow> globals py" where
  "Error filename linenum category confidence message gl = do {
     printed \<leftarrow> ShouldPrintError gl category confidence linenum;
     Some (if printed
       then write_stderr
              (format_error (output_format (cpplint_state gl)) filename linenum category confidence message)
              (map_state (IncrementErrorCount category) gl)
       else gl)
   }"

text \<open>Carrying out the events of the checks, in order.\<close>

fun perform :: "event \<Rightarrow> globals \<Rightarrow> globals py" where
  "perform (Report filename linenum category confidence message) gl =
     Error filename linenum category confidence message gl"
| "perform (Suppress k n) gl = Some (gl\<lparr>error_suppressions := add_suppression k n (error_suppressions gl)\<rparr>)"

fun perform_all :: "event list \<Rightarrow> globals \<Rightarrow> globals py" where
  "perform_all [] gl = Some gl"
| "perform_all (e # es) gl = do { gl' \<leftarrow> perform e gl; perform_all es gl' }"

section \<open>What the sink relies on of the suppressions\<close>

locale suppression_store =
  fixes empty :: 's
    and suppress :: "string option \<Rightarrow> int \<Rightarrow> 's \<Rightarrow> 's"
    and suppressed :: "'s \<Rightarrow> string \<Rightarrow> int \<Rightarrow> bool"
  assumes empty: "\<not> suppressed empty c n"
    and suppress: "suppressed (suppress k l s) c n \<longleftrightarrow> suppressed s c n \<or> n = l \<and> (k = None \<or> k = Some c)"
begin

lemma suppressed_fold:
  "suppressed (fold (\<lambda>(k, l). suppress k l) ks s) c n \<longleftrightarrow>
     suppressed s c n \<or> (None, n) \<in> set ks \<or> (Some c, n) \<in> set ks"
proof (induction ks arbitrary: s)
  case (Cons x ks)
  obtain k l where "x = (k, l)" by (cases x)
  with Cons show ?case by (auto simp: suppress)
qed simp

lemma suppressed_after_reset:
  "suppressed (fold (\<lambda>(k, l). suppress k l) ks empty) c n \<longleftrightarrow>
     (None, n) \<in> set ks \<or> (Some c, n) \<in> set ks"
  by (simp add: suppressed_fold empty)

end

interpretation nolint: suppression_store ResetNolintSuppressions add_suppression IsErrorSuppressedByNolint
  by unfold_locales
    (auto simp: ResetNolintSuppressions_def add_suppression_def IsErrorSuppressedByNolint_def
      split: option.splits if_splits)

section \<open>Reading NOLINT comments\<close>

definition nolint_tail :: re where
  "nolint_tail =
     RSeq (RRepeat 0 (Some 1) True (RGroup 1 (word ''NEXTLINE'')))
      (RSeq (RBoundary True)
        (RRepeat 0 (Some 1) True (RGroup 2
          (RSeq (RChar (CHR ''(''))
            (RSeq (RRepeat 1 None True (RSet True [ItemChar (CHR '')'')])) (RChar (CHR '')'')))))))"

lemma re_nolint_compiled [re_compiled]:
  "re_compile re_nolint = Some (False, RSeq (RBoundary True) (lits ''NOLINT'' nolint_tail))"
  by code_simp

text \<open>The match of a line whose first \<^verbatim>\<open>NOLINT\<close> stands at the start of a word.\<close>

lemma nolint_search:
  assumes s: "s = t @ ''NOLINT'' @ v" and first: "find_at s ''NOLINT'' = Some (length t)"
    and bound: "t = [] \<or> \<not> re_word (last t)"
    and tail: "run False s nolint_tail (length t + 6, Some (CHR ''T''), v) [] = (b, g) # rest"
  shows "Search re_nolint s = Some (Some \<lparr>m_string = s, m_start = length t, m_end = pos_of b, m_groups = g\<rparr>)"
proof -
  let ?f = "run False s (RSeq (RBoundary True) (lits ''NOLINT'' nolint_tail))"
  let ?c = "skip (length t) (start_cursor s)"
  have c: "?c = (length t, if t = [] then None else Some (last t), ''NOLINT'' @ v)"
    unfolding start_cursor_def s by (simp only: skip_append add_0)
  have "at_boundary ?c"
    using bound unfolding c at_boundary_def by (auto simp: re_word_def code_def)
  moreover have "skip 6 ?c = (length t + 6, Some (CHR ''T''), v)"
    unfolding c by (simp add: eval_nat_numeral)
  ultimately have here: "match_here ?f ?c = Some (b, g)"
    using tail by (simp add: match_here_def run_lits c startswith_iff eval_nat_numeral)
  have "?f d [] = []" if "advances (start_cursor s) d" "pos_of d < pos_of ?c" for d
  proof -
    have "rest_of d = drop (pos_of d) s" using advances_start [OF that(1)] by simp
    moreover have "pos_of d < length t" using that(2) c by simp
    ultimately show ?thesis using find_at_least [OF first] by (simp add: run_lits)
  qed
  then have "search_from ?f (start_cursor s) = Some (?c, b, g)"
    using here by (intro backtrack.search_from_eqI) (auto simp: skip_advances)
  then show ?thesis
    by (simp add: Search_compiled [OF re_nolint_compiled] re_search_def engine_of_def mk_match_def c)
qed

lemma nolint_absent: "\<not> contains s ''NOLINT'' \<Longrightarrow> Search re_nolint s = Some None"
proof -
  assume no: "\<not> contains s ''NOLINT''"
  have "\<not> startswith (rest_of c) ''NOLINT''" if at: "advances (start_cursor s) c" for c
  proof
    assume "startswith (rest_of c) ''NOLINT''"
    then obtain u where "drop (pos_of c) s = ''NOLINT'' @ u"
      using advances_start [OF at] by (auto simp: startswith_iff)
    then have "s = take (pos_of c) s @ ''NOLINT'' @ u" by (metis append_take_drop_id)
    with no show False by (auto simp: contains_iff)
  qed
  then show ?thesis
    by (simp add: Search_compiled [OF re_nolint_compiled] re_search_None engine_of_def run_lits)
qed

text \<open>The optional word NEXTLINE and the argument in parentheses.\<close>

definition nolint_arg :: re where
  "nolint_arg = RSeq (RBoundary True)
        (RRepeat 0 (Some 1) True (RGroup 2
          (RSeq (RChar (CHR ''(''))
            (RSeq (RRepeat 1 None True (RSet True [ItemChar (CHR '')'')])) (RChar (CHR '')''))))))"

lemma run_nolint_tail:
  "run False s nolint_tail c g =
     (if startswith (rest_of c) ''NEXTLINE''
      then run False s nolint_arg (skip 8 c) ((1, pos_of c, pos_of (skip 8 c)) # g) else [])
     @ run False s nolint_arg c g"
  unfolding nolint_tail_def nolint_arg_def [symmetric] run_seq_option run_group
  by (simp add: run_word eval_nat_numeral)

lemma run_nolint_arg_category:
  assumes "re_word w" and "category \<noteq> []" and "CHR '')'' \<notin> set category"
  shows "\<exists>c' rest. run False s nolint_arg (i, Some w, ''('' @ category @ '')'' @ u) g =
    (c', (2, i, i + length category + 2) # g) # rest \<and> pos_of c' = i + length category + 2"
proof -
  let ?c = "(i, Some w, ''('' @ category @ '')'' @ u)"
  let ?d = "(Suc i, Some (CHR ''(''), category @ CHR '')'' # u)"
  have inner: "run False s (RSeq (RRepeat 1 None True (RSet True [ItemChar (CHR '')'')])) (RChar (CHR '')''))) ?d g =
      [(skip (Suc (length category)) ?d, g)]"
    using assms(2,3)
    by (intro run_plus_until [OF char_class.simps(3)]) (auto simp: set_match_def list_all_iff)
  have "at_boundary ?c" using assms(1) by (auto simp: at_boundary_def re_word_def code_def)
  then show ?thesis
    unfolding nolint_arg_def run.simps(8) [of _ _ "RBoundary True"] run_option run_group
      run.simps(8) [of _ _ "RChar (CHR ''('')"]
    using inner by (simp add: pos_skip del: run.simps(8) run.simps(10) skip.simps)
qed

lemma run_nolint_arg_bare:
  assumes "re_word w" and "u = [] \<or> \<not> re_word (hd u) \<and> hd u \<noteq> CHR ''(''"
  shows "run False s nolint_arg (i, Some w, u) g = [((i, Some w, u), g)]"
proof -
  have "at_boundary (i, Some w, u)"
    using assms by (cases u) (auto simp: at_boundary_def)
  with assms show ?thesis
    unfolding nolint_arg_def run.simps(8) [of _ _ "RBoundary True"] run_option run_group
    by (cases u) auto
qed

text \<open>The shape of a NOLINT comment: its first occurrence in the line, at a word boundary.\<close>

definition nolint_at :: "string \<Rightarrow> string \<Rightarrow> bool \<Rightarrow> string \<Rightarrow> bool" where
  "nolint_at raw_line t nextline v \<longleftrightarrow>
     raw_line = t @ ''NOLINT'' @ (if nextline then ''NEXTLINE'' else []) @ v \<and>
     find_at raw_line ''NOLINT'' = Some (length t) \<and> (t = [] \<or> \<not> re_word (last t))"

text \<open>The match of such a line, from what follows.\<close>

lemma nolint_search_at:
  assumes at: "nolint_at s t nextline v" and v: "v = [] \<or> \<not> re_word (hd v)"
    and arg: "\<And>i w g. re_word w \<Longrightarrow> \<exists>c' rest. run False s nolint_arg (i, Some w, v) g = (c', h i @ g) # rest"
  shows "\<exists>e i. Search re_nolint s = Some (Some \<lparr>m_string = s, m_start = length t, m_end = e, m_groups =
    h i @ (if nextline then [(1, length t + 6, length t + 14)] else [])\<rparr>) \<and>
    i = length t + (if nextline then 14 else 6)"
proof -
  let ?v = "(if nextline then ''NEXTLINE'' else []) @ v"
  let ?c = "(length t + 6, Some (CHR ''T''), ?v)"
  let ?g = "if nextline then [(1, length t + 6, length t + 14)] else []"
  let ?i = "length t + (if nextline then 14 else 6)"
  have s: "s = t @ ''NOLINT'' @ ?v" and first: "find_at s ''NOLINT'' = Some (length t)"
    and b: "t = [] \<or> \<not> re_word (last t)" using at by (auto simp: nolint_at_def)
  have E: "re_word (CHR ''E'')" "re_word (CHR ''T'')" "re_word (CHR ''N'')"
    by (simp_all add: re_word_def code_def)
  obtain c' rest where tail: "run False s nolint_tail ?c [] = (c', h ?i @ ?g) # rest"
  proof (cases nextline)
    case True
    obtain d more where "run False s nolint_arg (length t + 14, Some (CHR ''E''), v) [(1, length t + 6, length t + 14)] =
        (d, h (length t + 14) @ [(1, length t + 6, length t + 14)]) # more"
      using arg [OF E(1)] by blast
    then show thesis
      using True by (intro that [of d]) (simp add: run_nolint_tail startswith_iff eval_nat_numeral)
  next
    case False
    obtain d more where "run False s nolint_arg (length t + 6, Some (CHR ''T''), v) [] = (d, h (length t + 6) @ []) # more"
      using arg [OF E(2)] by blast
    moreover have "\<not> startswith v ''NEXTLINE''" using v E(3) by (cases v) auto
    ultimately show thesis
      using False by (intro that [of d]) (simp add: run_nolint_tail)
  qed
  show ?thesis using nolint_search [OF s first b tail] by blast
qed

text \<open>
  C15. A NOLINT comment that names a category is read as such: the category in parentheses is the one
  suppressed, on the comment's line or, for NOLINTNEXTLINE, on the next one; a star stands for every
  category, a retired category is ignored and an unknown one is reported.
\<close>

theorem ParseNolint_category:
  assumes "nolint_at raw_line t nextline (''('' @ category @ '')'' @ u)"
    and "category \<noteq> []" and "CHR '')'' \<notin> set category"
  shows "ParseNolintSuppressions filename raw_line linenum =
    Some (let line = (if nextline then linenum + 1 else linenum) in
      if category = ''*'' then [Suppress None line]
      else if category \<in> set ERROR_CATEGORIES then [Suppress (Some category) line]
      else if category \<in> set LEGACY_ERROR_CATEGORIES then []
      else [Report filename linenum ''readability/nolint'' 5
              (''Unknown NOLINT error category: '' @ category)])"
proof -
  let ?v = "''('' @ category @ '')'' @ u"
  have v: "?v = [] \<or> \<not> re_word (hd ?v)" by (simp add: re_word_def code_def)
  obtain e i where m: "Search re_nolint raw_line = Some (Some \<lparr>m_string = raw_line, m_start = length t, m_end = e,
      m_groups = [(2, i, i + length category + 2)] @ (if nextline then [(1, length t + 6, length t + 14)] else [])\<rparr>)"
    and i: "i = length t + (if nextline then 14 else 6)"
    using nolint_search_at [OF assms(1) v, of "\<lambda>i. [(2, i, i + length category + 2)]"]
      run_nolint_arg_category [OF _ assms(2,3)] by fastforce
  have line: "raw_line = t @ ''NOLINT'' @ (if nextline then ''NEXTLINE'' else []) @ ?v"
    using assms(1) by (simp add: nolint_at_def)
  have "text_between raw_line i (i + length category + 2) = ''('' @ category @ '')''"
    unfolding line i by (auto simp: text_between_def)
  moreover have "py_slice (''('' @ category @ '')'') 1 (- 1) = category"
    by (simp add: py_slice_def clip_def nat_add_distrib)
  moreover have "nextline \<Longrightarrow> text_between raw_line (length t + 6) (length t + 14) = ''NEXTLINE''"
    unfolding line by (auto simp: text_between_def)
  moreover have "''('' @ category @ '')'' = ''(*)'' \<longleftrightarrow> category = ''*''" by simp
  ultimately show ?thesis
    unfolding ParseNolintSuppressions_def m
    by (simp add: group_def group_text_def endswith_iff)
qed

theorem ParseNolint_category_witness:
  "nolint_at ''x  // NOLINTNEXTLINE(runtime/int) y'' ''x  // '' True (''('' @ ''runtime/int'' @ '')'' @ '' y'') \<and>
   ParseNolintSuppressions ''a.cc'' ''x  // NOLINTNEXTLINE(runtime/int) y'' 7 = Some [Suppress (Some ''runtime/int'') 8]"
proof -
  have at: "nolint_at ''x  // NOLINTNEXTLINE(runtime/int) y'' ''x  // '' True (''('' @ ''runtime/int'' @ '')'' @ '' y'')"
    by code_simp
  show ?thesis
    using at ParseNolint_category [OF at, of "''a.cc''" 7] by (simp add: ERROR_CATEGORIES_def)
qed

text \<open>
  A NOLINT comment without an argument suppresses every category on its line (or the next), and a
  line in which the word NOLINT does not occur suppresses and reports nothing.
\<close>

theorem ParseNolint_bare:
  "(nolint_at raw_line t nextline v \<and> (v = [] \<or> \<not> re_word (hd v) \<and> hd v \<noteq> CHR ''('') \<longrightarrow>
     ParseNolintSuppressions filename raw_line linenum =
       Some [Suppress None (if nextline then linenum + 1 else linenum)]) \<and>
   (\<not> contains raw_line ''NOLINT'' \<longrightarrow> ParseNolintSuppressions filename raw_line linenum = Some [])"
proof (intro conjI impI; (elim conjE)?)
  assume at: "nolint_at raw_line t nextline v" and v: "v = [] \<or> \<not> re_word (hd v) \<and> hd v \<noteq> CHR ''(''"
  then have v': "v = [] \<or> \<not> re_word (hd v)" by blast
  obtain e where m: "Search re_nolint raw_line = Some (Some \<lparr>m_string = raw_line, m_start = length t, m_end = e,
      m_groups = (if nextline then [(1, length t + 6, length t + 14)] else [])\<rparr>)"
    using nolint_search_at [OF at v', of "\<lambda>_. []"] run_nolint_arg_bare [OF _ v] by fastforce
  have "nextline \<Longrightarrow> text_between raw_line (length t + 6) (length t + 14) = ''NEXTLINE''"
    using at by (auto simp: text_between_def nolint_at_def)
  then show "ParseNolintSuppressions filename raw_line linenum =
      Some [Suppress None (if nextline then linenum + 1 else linenum)]"
    unfolding ParseNolintSuppressions_def m by (simp add: group_def group_text_def)
next
  assume "\<not> contains raw_line ''NOLINT''"
  then show "ParseNolintSuppressions filename raw_line linenum = Some []"
    by (simp add: ParseNolintSuppressions_def nolint_absent)
qed

theorem ParseNolint_bare_witness:
  "nolint_at ''x  // NOLINT'' ''x  // '' False [] \<and>
   ParseNolintSuppressions ''a.cc'' ''x  // NOLINT'' 7 = Some [Suppress None 7] \<and>
   ParseNolintSuppressions ''a.cc'' ''x = 1;'' 7 = Some []"
proof -
  have "nolint_at ''x  // NOLINT'' ''x  // '' False []" by code_simp
  moreover have "\<not> contains ''x = 1;'' ''NOLINT''" by code_simp
  ultimately show ?thesis
    using ParseNolint_bare [of "''x  // NOLINT''" "''x  // ''" False "[]" "''a.cc''" 7]
      ParseNolint_bare [of "''x = 1;''" "[]" False "[]" "''a.cc''" 7] by simp
qed

section \<open>Filters\<close>

definition filters_ok :: "globals \<Rightarrow> bool" where
  "filters_ok gl \<longleftrightarrow> list_all signed_filter (filters (cpplint_state gl)) \<and>
     list_all signed_filter (filters_backup (cpplint_state gl))"

lemma py_from_1 [simp]: "py_from xs 1 = drop 1 xs"
  by (cases xs) (auto simp: py_from_def clip_def min_def)

lemma startswith_single [simp]: "startswith s [c] \<longleftrightarrow> s \<noteq> [] \<and> hd s = c"
  by (cases s) auto

text \<open>The filter that decides: the last one whose text is a prefix of the category.\<close>

definition deciding_filter :: "string list \<Rightarrow> string \<Rightarrow> string option" where
  "deciding_filter fs category = find (\<lambda>f. startswith category (drop 1 f)) (rev fs)"

lemma find_append: "find P (xs @ ys) = (case find P xs of None \<Rightarrow> find P ys | Some x \<Rightarrow> Some x)"
  by (induction xs) auto

lemma deciding_filter_Cons:
  "deciding_filter (f # fs) category =
     (case deciding_filter fs category of
        Some h \<Rightarrow> Some h
      | None \<Rightarrow> if startswith category (drop 1 f) then Some f else None)"
  by (simp add: deciding_filter_def find_append split: option.splits)

lemma filter_loop_decides:
  "list_all signed_filter fs \<Longrightarrow> filter_loop category b fs =
     Some (case deciding_filter fs category of None \<Rightarrow> b | Some f \<Rightarrow> hd f = CHR ''-'')"
proof (induction fs arbitrary: b)
  case Nil
  then show ?case by (simp add: deciding_filter_def)
next
  case (Cons f fs)
  then have "hd f = CHR ''+'' \<or> hd f = CHR ''-''" "f \<noteq> []" by (auto simp: signed_filter_def)
  with Cons show ?case
    by (auto simp: deciding_filter_Cons split: option.splits)
qed

lemma find_Some_mem: "find P xs = Some x \<Longrightarrow> x \<in> set xs \<and> P x"
  by (auto simp: find_Some_iff)

lemma find_None_all: "find (\<lambda>x. \<not> P x) xs = None \<longleftrightarrow> list_all P xs"
  by (auto simp: find_None_iff list_all_iff)

lemma AddFilters_Inr:
  "AddFilters fs st = Inr st' \<longleftrightarrow>
     list_all signed_filter (filters st @ split_filters fs) \<and>
     st' = st\<lparr>filters := filters st @ split_filters fs\<rparr>"
proof (cases "find (\<lambda>f. \<not> signed_filter f) (filters st @ split_filters fs)")
  case None
  then have "list_all signed_filter (filters st @ split_filters fs)"
    by (simp only: find_None_all)
  with None show ?thesis by (auto simp: AddFilters_def)
next
  case (Some f)
  then have "\<not> list_all signed_filter (filters st @ split_filters fs)"
    by (metis find_None_all option.distinct(1))
  with Some show ?thesis by (auto simp: AddFilters_def)
qed

lemma init_filters_ok: "filters_ok init_globals"
  by code_simp

lemma ShouldPrintError_returns: "filters_ok gl \<Longrightarrow> returns (ShouldPrintError gl c k n)"
  by (auto simp: ShouldPrintError_def filters_ok_def filter_loop_decides)

text \<open>
  C14. The filters decide as documented: among the filters whose text is a prefix of the category
  the last one wins, a minus sign hiding the message and a plus sign showing it, and a category
  no filter mentions is shown. The assertion in the loop is never violated.
\<close>

theorem ShouldPrintError_decides:
  assumes "filters_ok gl"
  shows "ShouldPrintError gl category confidence linenum =
    Some (\<not> IsErrorSuppressedByNolint (error_suppressions gl) category linenum \<and>
          verbose_level (cpplint_state gl) \<le> confidence \<and>
          (case deciding_filter (filters (cpplint_state gl)) category of
             None \<Rightarrow> True | Some f \<Rightarrow> hd f = CHR ''+''))"
proof -
  have signed: "list_all signed_filter (filters (cpplint_state gl))"
    using assms by (simp add: filters_ok_def)
  have "hd f = CHR ''+'' \<longleftrightarrow> hd f \<noteq> CHR ''-''"
    if "deciding_filter (filters (cpplint_state gl)) category = Some f" for f
  proof -
    from that have "f \<in> set (filters (cpplint_state gl))"
      unfolding deciding_filter_def by (auto dest: find_Some_mem)
    with signed show ?thesis by (auto simp: list_all_iff signed_filter_def)
  qed
  then show ?thesis
    by (auto simp: ShouldPrintError_def filter_loop_decides [OF signed] split: option.splits)
qed

theorem ShouldPrintError_decides_witness:
  "filters_ok (map_state (\<lambda>st. st\<lparr>filters := [''-whitespace'', ''+whitespace/tab'']\<rparr>) init_globals) \<and>
   ShouldPrintError (map_state (\<lambda>st. st\<lparr>filters := [''-whitespace'', ''+whitespace/tab'']\<rparr>) init_globals)
     ''whitespace/tab'' 3 7 = Some True"
proof -
  let ?gl = "map_state (\<lambda>st. st\<lparr>filters := [''-whitespace'', ''+whitespace/tab'']\<rparr>) init_globals"
  have ok: "filters_ok ?gl" by code_simp
  have "deciding_filter (filters (cpplint_state ?gl)) ''whitespace/tab'' = Some ''+whitespace/tab''"
    by code_simp
  with ok ShouldPrintError_decides [OF ok, of "''whitespace/tab''" 3 7] show ?thesis
    by (simp add: map_state_def init_globals_def init_CppLintState_def IsErrorSuppressedByNolint_def)
qed

text \<open>
  \<^verbatim>\<open>AddFilters\<close> and \<^verbatim>\<open>SetFilters\<close> either raise or establish what the sink relies on: all
  filters carry a sign. They raise exactly when some filter does not.
\<close>

theorem AddFilters_signed:
  assumes "list_all signed_filter (filters st)"
  shows "case AddFilters fs st of
      Inr st' \<Rightarrow> list_all signed_filter (filters st') \<and> filters st' = filters st @ split_filters fs \<and>
        st' = st\<lparr>filters := filters st'\<rparr>
    | Inl msg \<Rightarrow> (\<exists>f \<in> set (split_filters fs). \<not> signed_filter f \<and>
        msg = ''Every filter in --filters must start with + or - ('' @ f @ '' does not)'')"
proof (cases "AddFilters fs st")
  case (Inr st')
  then have "list_all signed_filter (filters st @ split_filters fs)"
    and "st' = st\<lparr>filters := filters st @ split_filters fs\<rparr>" by (simp_all only: AddFilters_Inr)
  with Inr show ?thesis by simp
next
  case (Inl msg)
  then obtain f where f: "find (\<lambda>f. \<not> signed_filter f) (filters st @ split_filters fs) = Some f"
    and msg: "msg = ''Every filter in --filters must start with + or - ('' @ f @ '' does not)''"
    by (auto simp: AddFilters_def Let_def split: option.splits)
  from f have "f \<in> set (filters st @ split_filters fs)" "\<not> signed_filter f"
    by (auto dest: find_Some_mem)
  with assms have "f \<in> set (split_filters fs)" by (auto simp: list_all_iff)
  with Inl msg \<open>\<not> signed_filter f\<close> show ?thesis by auto
qed

theorem AddFilters_signed_witness:
  "list_all signed_filter (filters init_CppLintState) \<and>
   (case AddFilters ''+whitespace, -build'' init_CppLintState of
      Inr st' \<Rightarrow> list_all signed_filter (filters st') | Inl msg \<Rightarrow> False)"
proof -
  have ok: "list_all signed_filter (filters init_CppLintState)" by code_simp
  have "\<forall>f \<in> set (split_filters ''+whitespace, -build''). signed_filter f" by code_simp
  with ok AddFilters_signed [OF ok, of "''+whitespace, -build''"] show ?thesis
    by (auto split: sum.splits)
qed

section \<open>The sink\<close>

lemma IncrementErrorCount_frame [simp]:
  "filters (IncrementErrorCount c st) = filters st"
  "filters_backup (IncrementErrorCount c st) = filters_backup st"
  "verbose_level (IncrementErrorCount c st) = verbose_level st"
  "counting (IncrementErrorCount c st) = counting st"
  "output_format (IncrementErrorCount c st) = output_format st"
  "error_count (IncrementErrorCount c st) = error_count st + 1"
  by (simp_all add: IncrementErrorCount_def Let_def)

text \<open>What a report leaves alone.\<close>

lemma Error_frame:
  assumes "Error f n c k m gl = Some gl'"
  shows "filters (cpplint_state gl') = filters (cpplint_state gl)"
    and "filters_backup (cpplint_state gl') = filters_backup (cpplint_state gl)"
    and "counting (cpplint_state gl') = counting (cpplint_state gl)"
    and "error_suppressions gl' = error_suppressions gl"
    and "verbose_level (cpplint_state gl') = verbose_level (cpplint_state gl)"
    and "line_length gl' = line_length gl"
    and "root gl' = root gl"
  using assms
  by (auto simp: Error_def map_state_def write_stderr_def split: if_splits bind_splits)

lemma perform_filters:
  assumes "perform e gl = Some gl'"
  shows "filters (cpplint_state gl') = filters (cpplint_state gl)"
    and "filters_backup (cpplint_state gl') = filters_backup (cpplint_state gl)"
    and "counting (cpplint_state gl') = counting (cpplint_state gl)"
    and "verbose_level (cpplint_state gl') = verbose_level (cpplint_state gl)"
    and "line_length gl' = line_length gl"
  using assms by (cases e; auto dest: Error_frame)+

lemma perform_all_filters:
  assumes "perform_all es gl = Some gl'"
  shows "filters (cpplint_state gl') = filters (cpplint_state gl) \<and>
    filters_backup (cpplint_state gl') = filters_backup (cpplint_state gl) \<and>
    counting (cpplint_state gl') = counting (cpplint_state gl) \<and>
    verbose_level (cpplint_state gl') = verbose_level (cpplint_state gl) \<and>
    line_length gl' = line_length gl"
  using assms
  by (induction es arbitrary: gl) (auto split: bind_splits dest: perform_filters)

lemma perform_returns: "filters_ok gl \<Longrightarrow> returns (perform e gl)"
  using ShouldPrintError_returns [of gl "r_category e" "r_confidence e" "r_line e"]
  by (cases e) (auto simp: Error_def)

lemma perform_filters_ok: "filters_ok gl \<Longrightarrow> perform e gl = Some gl' \<Longrightarrow> filters_ok gl'"
  by (simp add: filters_ok_def perform_filters)

lemma perform_all_returns:
  assumes "filters_ok gl"
  shows "\<exists>gl'. perform_all es gl = Some gl' \<and> filters_ok gl'"
  using assms
proof (induction es arbitrary: gl)
  case Nil
  then show ?case by simp
next
  case (Cons e es)
  from perform_returns [OF Cons.prems] obtain gl1 where gl1: "perform e gl = Some gl1" by blast
  with Cons.prems have "filters_ok gl1" by (blast intro: perform_filters_ok)
  then obtain gl2 where "perform_all es gl1 = Some gl2" "filters_ok gl2" using Cons.IH by blast
  with gl1 show ?case by simp
qed

text \<open>
  With signed filters the sink never raises: every sequence of reports and suppressions is
  carried out to its end, and the filters stay signed.
\<close>

theorem perform_all_total:
  assumes "filters_ok gl"
  shows "\<exists>gl'. perform_all es gl = Some gl' \<and> filters_ok gl'"
  using assms by (rule perform_all_returns)

theorem perform_all_total_witness:
  "filters_ok init_globals \<and>
   (\<exists>gl'. perform_all [Report ''a.cc'' 3 ''whitespace/tab'' 1 ''Tab''] init_globals = Some gl' \<and> filters_ok gl')"
  using perform_all_total [OF init_filters_ok] init_filters_ok by blast

text \<open>The number of errors counted by category.\<close>

definition counted :: "('k \<rightharpoonup> int) \<Rightarrow> int" where
  "counted m = (\<Sum>k \<in> dom m. the (m k))"

definition counts_agree :: "CppLintState \<Rightarrow> bool" where
  "counts_agree st \<longleftrightarrow> finite (dom (errors_by_category st)) \<and>
     (counting st \<in> {''toplevel'', ''detailed''} \<longrightarrow> counted (errors_by_category st) = error_count st)"

lemma counted_remove:
  assumes "finite (dom m)"
  shows "counted m = (case m k of None \<Rightarrow> 0 | Some n \<Rightarrow> n) + (\<Sum>c \<in> dom m - {k}. the (m c))"
proof (cases "m k")
  case None
  then have "dom m - {k} = dom m" by auto
  with None show ?thesis by (simp add: counted_def)
next
  case (Some n)
  then have "k \<in> dom m" by blast
  with Some assms show ?thesis by (simp add: counted_def sum.remove)
qed

lemma dom_bump [simp]: "dom (bump k m) = insert k (dom m)"
  by (simp add: bump_def)

lemma counted_bump:
  assumes "finite (dom m)"
  shows "counted (bump k m) = counted m + 1"
proof -
  have "(\<Sum>c \<in> dom (bump k m) - {k}. the (bump k m c)) = (\<Sum>c \<in> dom m - {k}. the (m c))"
    by (intro sum.cong) (auto simp: bump_def)
  then show ?thesis
    using assms counted_remove [of "bump k m" k] counted_remove [of m k]
    by (simp add: bump_def [of k m])
qed

lemma IncrementErrorCount_agree:
  assumes "counts_agree st"
  shows "counts_agree (IncrementErrorCount c st)"
  using assms unfolding counts_agree_def IncrementErrorCount_def Let_def
  by (simp add: counted_bump)

text \<open>
  C13. The counters are right: after any sequence of events the count has grown by the number of
  messages written to standard error, and when errors are counted by category the counts of the
  categories add up to the total.
\<close>

theorem error_count_is_messages_written:
  assumes "perform_all es gl = Some gl'" and "counts_agree (cpplint_state gl)"
  shows "error_count (cpplint_state gl') - error_count (cpplint_state gl) =
      int (length (stderr gl')) - int (length (stderr gl)) \<and>
    (\<exists>ms. stderr gl' = stderr gl @ ms) \<and> counts_agree (cpplint_state gl')"
  using assms
proof (induction es arbitrary: gl)
  case Nil
  then show ?case by simp
next
  case (Cons e es)
  from Cons.prems(1) obtain gl1 where e: "perform e gl = Some gl1" and es: "perform_all es gl1 = Some gl'"
    by (auto split: bind_splits)
  have "error_count (cpplint_state gl1) - error_count (cpplint_state gl) =
      int (length (stderr gl1)) - int (length (stderr gl)) \<and>
      (\<exists>ms. stderr gl1 = stderr gl @ ms) \<and> counts_agree (cpplint_state gl1)"
    using e Cons.prems(2)
    by (cases e) (auto simp: Error_def write_stderr_def map_state_def IncrementErrorCount_agree
        split: bind_splits if_splits)
  with Cons.IH [OF es] show ?case by auto
qed

theorem error_count_is_messages_written_witness:
  "\<exists>gl'. perform_all [Report ''a.cc'' 3 ''whitespace/tab'' 1 ''Tab''] init_globals = Some gl' \<and>
     counts_agree (cpplint_state init_globals) \<and>
     error_count (cpplint_state gl') - error_count (cpplint_state init_globals) =
       int (length (stderr gl')) - int (length (stderr init_globals)) \<and> error_count (cpplint_state gl') = 1"
proof -
  have agree: "counts_agree (cpplint_state init_globals)"
    by (simp add: counts_agree_def counted_def init_globals_def init_CppLintState_def)
  obtain gl' where gl': "perform_all [Report ''a.cc'' 3 ''whitespace/tab'' 1 ''Tab''] init_globals = Some gl'"
    using perform_all_returns [OF init_filters_ok] by blast
  have "map_option (\<lambda>gl. error_count (cpplint_state gl))
      (perform_all [Report ''a.cc'' 3 ''whitespace/tab'' 1 ''Tab''] init_globals) = Some 1"
    by code_simp
  with gl' have "error_count (cpplint_state gl') = 1" by simp
  with gl' agree error_count_is_messages_written [OF gl' agree] show ?thesis by blast
qed

lemma perform_keeps_suppressed:
  assumes "perform e gl = Some gl'" and "IsErrorSuppressedByNolint (error_suppressions gl) c n"
  shows "IsErrorSuppressedByNolint (error_suppressions gl') c n"
proof (cases e)
  case (Report f l d k m)
  with assms(1) have "error_suppressions gl' = error_suppressions gl" by (auto dest: Error_frame(4))
  with assms(2) show ?thesis by simp
next
  case (Suppress k l)
  with assms show ?thesis by (auto simp: nolint.suppress)
qed

lemma perform_all_keeps_suppressed:
  "perform_all es gl = Some gl' \<Longrightarrow> IsErrorSuppressedByNolint (error_suppressions gl) c n \<Longrightarrow>
    IsErrorSuppressedByNolint (error_suppressions gl') c n"
  by (induction es arbitrary: gl) (auto split: bind_splits dest: perform_keeps_suppressed)

text \<open>
  C12. A NOLINT comment silences its line: once a category is suppressed on a line, no later report
  of that category for that line has any effect, whatever else happens in between.
\<close>

theorem nolint_silences_line:
  assumes "perform_all (Suppress k n # es) gl = Some gl'" and "k = None \<or> k = Some category"
  shows "Error filename n category confidence message gl' = Some gl'"
proof -
  have "IsErrorSuppressedByNolint (error_suppressions gl') category n"
    using assms by (auto elim!: perform_all_keeps_suppressed simp: nolint.suppress)
  then show ?thesis by (simp add: Error_def ShouldPrintError_def)
qed

theorem nolint_silences_line_witness:
  "\<exists>gl'. perform_all [Suppress None 4, Report ''a.cc'' 3 ''whitespace/tab'' 1 ''Tab''] init_globals = Some gl' \<and>
     Error ''a.cc'' 4 ''whitespace/tab'' 5 ''Tab'' gl' = Some gl'"
proof -
  obtain gl' where "perform_all [Suppress None 4, Report ''a.cc'' 3 ''whitespace/tab'' 1 ''Tab''] init_globals = Some gl'"
    using perform_all_returns [OF init_filters_ok] by blast
  then show ?thesis using nolint_silences_line [of None 4] by blast
qed

end
