(* ===== verification/FileInfo.thy ===== *)
theory FileInfo
  imports LintState
begin

text \<open>
  The class \<^verbatim>\<open>FileInfo\<close> of \<^verbatim>\<open>script/cpplint.py\<close> and the functions of \<^verbatim>\<open>os.path\<close>
  (\<^verbatim>\<open>posixpath\<close>) it is built on. The working directory and the set of existing paths are the
  environment \<open>os\<close>, a parameter of every operation that asks the system.
\<close>

section \<open>Paths\<close>

record os =
  cwd :: string
  path_exists :: "string \<Rightarrow> bool"

definition only_slashes :: "string \<Rightarrow> bool" where
  "only_slashes p \<longleftrightarrow> list_all (\<lambda>c. c = CHR ''/'') p"

definition head_part :: "string \<Rightarrow> string" where
  "head_part p = rev (dropWhile (\<lambda>c. c \<noteq> CHR ''/'') (rev p))"

definition tail_part :: "string \<Rightarrow> string" where
  "tail_part p = rev (takeWhile (\<lambda>c. c \<noteq> CHR ''/'') (rev p))"

definition dirname :: "string \<Rightarrow> string" where
  "dirname p = (let head = head_part p in if only_slashes head then head else rstrip_chars ''/'' head)"

definition path_split :: "string \<Rightarrow> string \<times> string" where
  "path_split p = (dirname p, tail_part p)"

text \<open>The last dot starts the extension, unless only dots come before it in the last component.\<close>

definition splitext :: "string \<Rightarrow> string \<times> string" where
  "splitext p =
     (let i = py_rfind p ''.''; sep = py_rfind p ''/'' in
      if i > sep \<and> list_ex (\<lambda>c. c \<noteq> CHR ''.'') (take (nat (i - sep - 1)) (drop (nat (sep + 1)) p))
      then (take (nat i) p, drop (nat i) p) else (p, []))"

definition path_join :: "string \<Rightarrow> string \<Rightarrow> string" where
  "path_join a b =
     (if startswith b ''/'' then b
      else if a = [] \<or> endswith a ''/'' then a @ b else a @ ''/'' @ b)"

fun norm_comps :: "bool \<Rightarrow> string list \<Rightarrow> string list \<Rightarrow> string list" where
  "norm_comps absolute new_comps [] = rev new_comps"
| "norm_comps absolute new_comps (part # comps) =
     (if part = [] \<or> part = ''.'' then norm_comps absolute new_comps comps
      else if part \<noteq> ''..'' \<or> \<not> absolute \<and> new_comps = [] \<or> new_comps \<noteq> [] \<and> hd new_comps = ''..''
      then norm_comps absolute (part # new_comps) comps
      else norm_comps absolute (tl new_comps) comps)"

definition normpath :: "string \<Rightarrow> string" where
  "normpath p =
     (if p = [] then ''.''
      else (let slashes = (if \<not> startswith p ''/'' then []
                           else if startswith p ''//'' \<and> \<not> startswith p ''///'' then ''//'' else ''/'');
                q = slashes @ py_join ''/'' (norm_comps (slashes \<noteq> []) [] (split_on (CHR ''/'') p))
            in if q = [] then ''.'' else q))"

definition abspath :: "os \<Rightarrow> string \<Rightarrow> string" where
  "abspath env p = normpath (if startswith p ''/'' then p else path_join (cwd env) p)"

fun common_part :: "string \<Rightarrow> string \<Rightarrow> string" where
  "common_part (x # xs) (y # ys) = (if x = y then x # common_part xs ys else [])"
| "common_part _ _ = []"

text \<open>\<^verbatim>\<open>os.path.commonprefix\<close> of two paths: of the smaller and the larger string.\<close>

definition commonprefix :: "string \<Rightarrow> string \<Rightarrow> string" where
  "commonprefix a b = common_part (min a b) (max a b)"

section \<open>File names\<close>

definition FullName :: "os \<Rightarrow> string \<Rightarrow> string" where
  "FullName env filename = py_replace (abspath env filename) [backslash] ''/''"

text \<open>The loop that climbs an old Subversion checkout.\<close>

partial_function (option) svn_loop :: "os \<Rightarrow> string \<Rightarrow> string \<Rightarrow> string py" where
  "svn_loop env root_dir one_up_dir =
     (if path_exists env (path_join one_up_dir ''.svn'')
      then svn_loop env (dirname root_dir) (dirname one_up_dir)
      else Some root_dir)"

declare svn_loop.simps [code]

definition is_checkout :: "os \<Rightarrow> string \<Rightarrow> bool" where
  "is_checkout env dir \<longleftrightarrow>
     path_exists env (path_join dir ''.git'') \<or> path_exists env (path_join dir ''.hg'') \<or>
     path_exists env (path_join dir ''.svn'')"

lemma rstrip_chars_split: "s = rstrip_chars cs s @ rev (takeWhile (\<lambda>c. c \<in> set cs) (rev s))"
  unfolding rstrip_chars_def by (metis rev_append rev_rev_ident takeWhile_dropWhile_id)

lemma dirname_prefix: "\<exists>t. p = dirname p @ t"
proof -
  have h: "p = head_part p @ tail_part p"
    unfolding head_part_def tail_part_def by (metis rev_append rev_rev_ident takeWhile_dropWhile_id)
  have "\<exists>t. head_part p = dirname p @ t" by (metis append_Nil2 dirname_def rstrip_chars_split)
  with h show ?thesis by (metis append.assoc)
qed

lemma dirname_shorter: "dirname p \<noteq> p \<Longrightarrow> length (dirname p) < length p"
  using dirname_prefix [of p] by (metis append_Nil2 length_append length_greater_0_conv less_add_same_cancel1)

function climb :: "os \<Rightarrow> string \<Rightarrow> string" where
  "climb env root_dir =
     (if root_dir \<noteq> dirname root_dir \<and> \<not> is_checkout env root_dir then climb env (dirname root_dir)
      else root_dir)"
  by pat_completeness auto
termination
  by (relation "measure (\<lambda>(env, root_dir). length root_dir)") (auto simp: dirname_shorter [OF not_sym])

declare climb.simps [simp del]

definition RepositoryName :: "os \<Rightarrow> string \<Rightarrow> string py" where
  "RepositoryName env filename =
     (let fullname = FullName env filename in
      if path_exists env fullname
      then (let project_dir = dirname fullname in
            if path_exists env (path_join project_dir ''.svn'')
            then do {
              root_dir \<leftarrow> svn_loop env project_dir (dirname project_dir);
              Some (drop (length (commonprefix root_dir project_dir) + 1) fullname)
            }
            else (let root_dir = climb env (dirname fullname) in
                  if is_checkout env root_dir
                  then Some (drop (length (commonprefix root_dir project_dir) + 1) fullname)
                  else Some fullname))
      else Some fullname)"

definition FileInfo_Split :: "os \<Rightarrow> string \<Rightarrow> (string \<times> string \<times> string) py" where
  "FileInfo_Split env filename = do {
     googlename \<leftarrow> RepositoryName env filename;
     let (project, rest) = path_split googlename;
     Some (project, splitext rest)
   }"

definition BaseName :: "os \<Rightarrow> string \<Rightarrow> string py" where
  "BaseName env filename = map_option (\<lambda>(d, b, e). b) (FileInfo_Split env filename)"

definition Extension :: "os \<Rightarrow> string \<Rightarrow> string py" where
  "Extension env filename = map_option (\<lambda>(d, b, e). e) (FileInfo_Split env filename)"

definition NoExtension :: "os \<Rightarrow> string \<Rightarrow> string py" where
  "NoExtension env filename = map_option (\<lambda>(d, b, e). d @ ''/'' @ b) (FileInfo_Split env filename)"

definition IsSource :: "os \<Rightarrow> string \<Rightarrow> bool py" where
  "IsSource env filename =
     map_option (\<lambda>e. drop 1 e \<in> {''c'', ''cc'', ''cpp'', ''cxx''}) (Extension env filename)"

section \<open>The guard of a header\<close>

definition re_flymake_suffix :: string where
  "re_flymake_suffix = raw ''_flymake`.h$''"

definition re_flymake_dir :: string where
  "re_flymake_dir = raw ''/`.flymake/([^/]*)$''"

definition re_not_alnum :: string where
  "re_not_alnum = ''[^a-zA-Z0-9]''"

text \<open>\<^verbatim>\<open>re.sub(pattern, rep, text)\<close> where the replacement may use the groups of the match.\<close>

definition re_sub_with :: "string \<Rightarrow> (rmatch \<Rightarrow> string) \<Rightarrow> string \<Rightarrow> string py" where
  "re_sub_with pattern rep s = do { r \<leftarrow> re_compile pattern; Some (re_sub r rep s) }"

definition GetHeaderGuardCPPVariable :: "os \<Rightarrow> string option \<Rightarrow> string \<Rightarrow> string py" where
  "GetHeaderGuardCPPVariable env root_flag filename = do {
     filename \<leftarrow> re_sub_with re_flymake_suffix (\<lambda>_. ''.h'') filename;
     filename \<leftarrow> re_sub_with re_flymake_dir (\<lambda>m. ''/'' @ group_text m 1) filename;
     let filename = py_replace (py_replace filename ''C++'' ''cpp'') ''c++'' ''cpp'';
     file_path_from_root \<leftarrow> RepositoryName env filename;
     file_path_from_root \<leftarrow> (case root_flag of
        Some r \<Rightarrow> if r \<noteq> [] then re_sub_with (''^'' @ r @ ''/'') (\<lambda>_. []) file_path_from_root
                  else Some file_path_from_root
      | None \<Rightarrow> Some file_path_from_root);
     guard \<leftarrow> re_sub_with re_not_alnum (\<lambda>_. ''_'') file_path_from_root;
     Some (py_upper guard @ ''_'')
   }"

section \<open>Climbing the directories\<close>

lemma dirname_parent:
  assumes "\<not> only_slashes (dirname p)"
  shows "\<exists>t. p = dirname p @ ''/'' @ t"
proof -
  let ?h = "head_part p" and ?slashes = "\<lambda>c. c \<in> set ''/''"
  have p: "p = ?h @ tail_part p"
    unfolding head_part_def tail_part_def by (metis rev_append rev_rev_ident takeWhile_dropWhile_id)
  have h: "\<not> only_slashes ?h" using assms by (auto simp: dirname_def Let_def)
  then have d: "dirname p = rstrip_chars ''/'' ?h" by (simp add: dirname_def Let_def)
  have "?h \<noteq> []" using h by (auto simp: only_slashes_def)
  then have "dropWhile (\<lambda>c. c \<noteq> CHR ''/'') (rev p) \<noteq> []" by (simp add: head_part_def)
  from hd_dropWhile [OF this] have "hd (dropWhile (\<lambda>c. c \<noteq> CHR ''/'') (rev p)) = CHR ''/''" by (rule notnotD)
  then have last: "last ?h = CHR ''/''" unfolding head_part_def by (simp add: last_rev)
  let ?t = "rev (takeWhile ?slashes (rev ?h))"
  have split: "?h = dirname p @ ?t" unfolding d by (rule rstrip_chars_split)
  have "rev ?h = CHR ''/'' # tl (rev ?h)" using last \<open>?h \<noteq> []\<close> by (cases "rev ?h") (auto simp: last_rev hd_rev [symmetric])
  then have "?t \<noteq> []" by (metis list.set_intros(1) rev_is_Nil_conv takeWhile.simps(2) list.distinct(1))
  then have "hd ?t \<in> set ?t" by (rule hd_in_set)
  then have "hd ?t = CHR ''/''" by (metis set_takeWhileD set_rev set_ConsD empty_iff empty_set)
  then have "?t = ''/'' @ tl ?t" using \<open>?t \<noteq> []\<close> by (cases ?t) simp_all
  with split obtain t where "?h = dirname p @ ''/'' @ t" by metis
  with p show ?thesis by (metis append.assoc)
qed

lemma only_slashes_prefix: "only_slashes (u @ v) \<Longrightarrow> only_slashes u"
  by (simp add: only_slashes_def)

lemma climb_parent:
  assumes "\<not> only_slashes (climb env d)"
  shows "d = climb env d \<or> (\<exists>t. d = climb env d @ ''/'' @ t)"
  using assms
proof (induction env d rule: climb.induct)
  case (1 env d)
  show ?case
  proof (cases "d \<noteq> dirname d \<and> \<not> is_checkout env d")
    case False
    then have "climb env d = d" by (subst climb.simps) auto
    then show ?thesis by simp
  next
    case True
    then have c: "climb env d = climb env (dirname d)" by (subst climb.simps) simp
    let ?r = "climb env (dirname d)"
    have r: "dirname d = ?r \<or> (\<exists>t. dirname d = ?r @ ''/'' @ t)" using 1 True c by simp
    then have "\<not> only_slashes (dirname d)" using 1(2) c only_slashes_prefix by metis
    then obtain t where t: "d = dirname d @ ''/'' @ t" using dirname_parent by blast
    from r have "\<exists>t. d = ?r @ ''/'' @ t"
    proof
      assume "dirname d = ?r"
      with t show ?thesis by metis
    next
      assume "\<exists>t. dirname d = ?r @ ''/'' @ t"
      then obtain t' where "dirname d = ?r @ ''/'' @ t'" by blast
      with t have "d = ?r @ ''/'' @ (t' @ ''/'' @ t)" by (metis append.assoc)
      then show ?thesis by blast
    qed
    then show ?thesis unfolding c by blast
  qed
qed

lemma common_part_Nil [simp]: "common_part t [] = []"
  by (cases t) simp_all

lemma common_part_prefix: "common_part p (p @ t) = p" "common_part (p @ t) p = p"
  by (induction p) simp_all

lemma commonprefix_prefix: "commonprefix p (p @ t) = p"
  by (auto simp: commonprefix_def common_part_prefix min_def max_def)

text \<open>
  C20. A file in a checkout is named relative to it: when the nearest enclosing checkout (git,
  Mercurial or a modern Subversion) is not the root of the file system, the full name is the
  checkout's directory, a slash and the repository name.
\<close>

theorem RepositoryName_relative:
  assumes "path_exists env (FullName env filename)"
    and "\<not> path_exists env (path_join (dirname (FullName env filename)) ''.svn'')"
    and "is_checkout env (climb env (dirname (FullName env filename)))"
    and "\<not> only_slashes (climb env (dirname (FullName env filename)))"
  shows "\<exists>name. RepositoryName env filename = Some name \<and>
    FullName env filename = climb env (dirname (FullName env filename)) @ ''/'' @ name"
proof -
  let ?f = "FullName env filename"
  let ?p = "dirname ?f"
  let ?r = "climb env ?p"
  obtain u where u: "?p = ?r @ u" using climb_parent [OF assms(4)] by (metis append_Nil2)
  then have "\<not> only_slashes ?p" using assms(4) only_slashes_prefix by metis
  then obtain t where t: "?f = ?p @ ''/'' @ t" using dirname_parent by blast
  have "\<exists>name. ?f = ?r @ ''/'' @ name"
    using climb_parent [OF assms(4)] t by (metis append.assoc)
  then obtain name where name: "?f = ?r @ ''/'' @ name" by blast
  have "commonprefix ?r ?p = ?r" using u commonprefix_prefix by metis
  then have "RepositoryName env filename = Some (drop (length ?r + 1) ?f)"
    using assms(1-3) by (simp add: RepositoryName_def Let_def)
  also have "drop (length ?r + 1) ?f = name" by (subst name) simp
  finally show ?thesis using name by blast
qed

text \<open>A file of a git checkout, and one of a checkout at the root of the file system.\<close>

definition sample_os :: "string \<Rightarrow> os" where
  "sample_os git = \<lparr>cwd = ''/home/u/DN/src'', path_exists = (\<lambda>p. p \<in> set [git, ''/home/u/DN/src/a.h''])\<rparr>"

theorem RepositoryName_relative_witness:
  "\<exists>name. RepositoryName (sample_os ''/home/u/DN/.git'') ''a.h'' = Some name \<and>
     FullName (sample_os ''/home/u/DN/.git'') ''a.h'' = ''/home/u/DN/'' @ name"
proof -
  let ?env = "sample_os ''/home/u/DN/.git''"
  have f: "FullName ?env ''a.h'' = ''/home/u/DN/src/a.h''" by code_simp
  have c: "climb ?env (dirname (FullName ?env ''a.h'')) = ''/home/u/DN''" by code_simp
  have "path_exists ?env (FullName ?env ''a.h'')"
    "\<not> path_exists ?env (path_join (dirname (FullName ?env ''a.h'')) ''.svn'')"
    "is_checkout ?env (climb ?env (dirname (FullName ?env ''a.h'')))"
    "\<not> only_slashes (climb ?env (dirname (FullName ?env ''a.h'')))" by code_simp+
  from RepositoryName_relative [OF this] show ?thesis unfolding c by simp
qed

lemma climb_prefix: "\<exists>t. d = climb env d @ t"
proof (induction env d rule: climb.induct)
  case (1 env d)
  then show ?case using dirname_prefix [of d] by (metis append.assoc append_Nil2 climb.simps)
qed

text \<open>
  C31. The name of a file in a checkout at the root of the file system loses its first character:
  the code drops the length of the checkout's directory plus one for a slash, and there is no
  slash after the directory \<open>/\<close>.
\<close>

theorem RepositoryName_root_checkout:
  assumes "path_exists env (FullName env filename)"
    and "\<not> path_exists env (path_join (dirname (FullName env filename)) ''.svn'')"
    and "climb env (dirname (FullName env filename)) = ''/''" and "is_checkout env ''/''"
  shows "RepositoryName env filename = Some (drop 2 (FullName env filename))"
proof -
  let ?p = "dirname (FullName env filename)"
  obtain t where "?p = ''/'' @ t" using climb_prefix [of ?p env] assms(3) by metis
  then have "commonprefix ''/'' ?p = ''/''" using commonprefix_prefix by metis
  then show ?thesis using assms by (simp add: RepositoryName_def Let_def numeral_2_eq_2)
qed

theorem RepositoryName_root_checkout_witness:
  "RepositoryName (sample_os ''/.git'') ''a.h'' = Some ''ome/u/DN/src/a.h''"
proof -
  let ?env = "sample_os ''/.git''"
  have f: "FullName ?env ''a.h'' = ''/home/u/DN/src/a.h''" by code_simp
  have "path_exists ?env (FullName ?env ''a.h'')"
    "\<not> path_exists ?env (path_join (dirname (FullName ?env ''a.h'')) ''.svn'')"
    "climb ?env (dirname (FullName ?env ''a.h'')) = ''/''" "is_checkout ?env ''/''" by code_simp+
  from RepositoryName_root_checkout [OF this] show ?thesis unfolding f by simp
qed

text \<open>
  The loop over a Subversion checkout climbs the two directories together; at the root of the file
  system both stay where they are.
\<close>

lemma dirname_root: "dirname ''/'' = ''/''"
  by code_simp

lemma svn_loop_root:
  assumes "svn_loop env root_dir one_up_dir = Some r"
  shows "one_up_dir = ''/'' \<longrightarrow> \<not> path_exists env ''/.svn''"
proof (rule svn_loop.raw_induct
    [where P = "\<lambda>env _ one_up_dir _. one_up_dir = ''/'' \<longrightarrow> \<not> path_exists env ''/.svn''", OF _ assms])
  fix loop :: "os \<Rightarrow> string \<Rightarrow> string \<Rightarrow> string py" and env root_dir one_up_dir r
  assume IH: "\<And>env root_dir one_up_dir r. loop env root_dir one_up_dir = Some r \<Longrightarrow>
      one_up_dir = ''/'' \<longrightarrow> \<not> path_exists env ''/.svn''"
    and r: "(if path_exists env (path_join one_up_dir ''.svn'')
      then loop env (dirname root_dir) (dirname one_up_dir) else Some root_dir) = Some r"
  have "path_join ''/'' ''.svn'' = ''/.svn''" by code_simp
  then show "one_up_dir = ''/'' \<longrightarrow> \<not> path_exists env ''/.svn''"
    using IH r dirname_root by (metis (full_types))
qed

text \<open>
  C30. For a file in the root directory of a file system that is itself an old Subversion checkout the
  search for the checkout's top directory never ends: the directory above \<open>/\<close> is \<open>/\<close>.
\<close>

theorem RepositoryName_svn_diverges:
  assumes "path_exists env (FullName env filename)" and "dirname (FullName env filename) = ''/''"
    and "path_exists env ''/.svn''"
  shows "RepositoryName env filename = None"
proof -
  have "path_join ''/'' ''.svn'' = ''/.svn''" by code_simp
  moreover have "svn_loop env ''/'' ''/'' = None"
    using svn_loop_root assms(3) by (metis not_None_eq)
  ultimately show ?thesis using assms by (simp add: RepositoryName_def Let_def dirname_root)
qed

theorem RepositoryName_svn_diverges_witness:
  "RepositoryName \<lparr>cwd = ''/'', path_exists = (\<lambda>p. p \<in> {''/.svn'', ''/a.h''})\<rparr> ''a.h'' = None"
proof -
  let ?env = "\<lparr>cwd = ''/'', path_exists = (\<lambda>p. p \<in> {''/.svn'', ''/a.h''})\<rparr>"
  have "path_exists ?env (FullName ?env ''a.h'')" "dirname (FullName ?env ''a.h'') = ''/''"
    "path_exists ?env ''/.svn''" by code_simp+
  then show ?thesis by (rule RepositoryName_svn_diverges)
qed

section \<open>The guard's name\<close>

definition ascii_alnum :: "char \<Rightarrow> bool" where
  "ascii_alnum c \<longleftrightarrow> (let n = code c in (97 \<le> n \<and> n \<le> 122) \<or> (65 \<le> n \<and> n \<le> 90) \<or> (48 \<le> n \<and> n \<le> 57))"

definition guard_char :: "char \<Rightarrow> char" where
  "guard_char c = (if ascii_alnum c then upper_char c else CHR ''_'')"

lemma concat_one_char:
  "concat (map (\<lambda>c. if \<not> P c then [b] else [c]) s) = map (\<lambda>c. if P c then c else b) s"
  by (induction s) auto

lemma re_not_alnum_sub:
  "re_sub_with re_not_alnum (\<lambda>_. ''_'') s = Some (map (\<lambda>c. if ascii_alnum c then c else CHR ''_'') s)"
proof -
  let ?its = "[ItemRange (CHR ''a'') (CHR ''z''), ItemRange (CHR ''A'') (CHR ''Z''), ItemRange (CHR ''0'') (CHR ''9'')]"
  have "re_compile re_not_alnum = Some (False, RSet True ?its)" by code_simp
  moreover have "set_match False True ?its c \<longleftrightarrow> \<not> ascii_alnum c" for c
    by (auto simp: set_match_def ascii_alnum_def Let_def code_def)
  ultimately show ?thesis
    by (simp add: re_sub_with_def re_sub_char_class [OF char_class.simps(3)] concat_one_char)
qed

lemma guard_char_range: "guard_char c = CHR ''_'' \<or> code (guard_char c) \<in> {48..57} \<union> {65..90}"
  by (auto simp: guard_char_def ascii_alnum_def upper_char_def Let_def code_def)

lemma py_upper_guard: "py_upper (map (\<lambda>c. if ascii_alnum c then c else CHR ''_'') s) = map guard_char s"
proof -
  have "upper_char (CHR ''_'') = CHR ''_''" by code_simp
  then show ?thesis by (simp add: py_upper_def guard_char_def)
qed

lemma re_flymake_returns: "\<exists>t. re_sub_with re_flymake_suffix rep s = Some t" "\<exists>t. re_sub_with re_flymake_dir rep' s = Some t"
proof -
  have "re_compile re_flymake_suffix \<noteq> None" "re_compile re_flymake_dir \<noteq> None" by code_simp+
  then show "\<exists>t. re_sub_with re_flymake_suffix rep s = Some t" "\<exists>t. re_sub_with re_flymake_dir rep' s = Some t"
    by (auto simp: re_sub_with_def)
qed

text \<open>The name under which a header is looked up: flymake's decorations undone, \<open>c++\<close> spelt \<open>cpp\<close>.\<close>

definition restored_name :: "string \<Rightarrow> string" where
  "restored_name filename =
     (let filename = the (re_sub_with re_flymake_suffix (\<lambda>_. ''.h'') filename);
          filename = the (re_sub_with re_flymake_dir (\<lambda>m. ''/'' @ group_text m 1) filename)
      in py_replace (py_replace filename ''C++'' ''cpp'') ''c++'' ''cpp'')"

lemma GetHeaderGuardCPPVariable_eq:
  "GetHeaderGuardCPPVariable env root_flag filename = do {
     n \<leftarrow> RepositoryName env (restored_name filename);
     n \<leftarrow> (case root_flag of
        Some r \<Rightarrow> if r \<noteq> [] then re_sub_with (''^'' @ r @ ''/'') (\<lambda>_. []) n else Some n
      | None \<Rightarrow> Some n);
     Some (map guard_char n @ ''_'')
   }"
proof -
  obtain f where f: "re_sub_with re_flymake_suffix (\<lambda>_. ''.h'') filename = Some f"
    using re_flymake_returns(1) by blast
  obtain h where h: "re_sub_with re_flymake_dir (\<lambda>m. ''/'' @ group_text m 1) f = Some h"
    using re_flymake_returns(2) by blast
  show ?thesis
    unfolding GetHeaderGuardCPPVariable_def restored_name_def f h Let_def option.sel
    by (simp add: f h [simplified] re_not_alnum_sub py_upper_guard)
qed

lemma GetHeaderGuardCPPVariable_form:
  "GetHeaderGuardCPPVariable env root_flag filename = Some guard \<Longrightarrow> \<exists>n. guard = map guard_char n @ ''_''"
  by (auto simp: GetHeaderGuardCPPVariable_eq split: bind_splits)

text \<open>
  C21. Without the flag \<^verbatim>\<open>--root\<close> the guard is the repository name with every letter in upper case,
  digits kept, every other character an underscore, and one underscore appended: the path of the
  header, as the style guide asks. It exists whenever the repository name does.
\<close>

theorem GetHeaderGuardCPPVariable_spelling:
  "GetHeaderGuardCPPVariable env None filename =
     map_option (\<lambda>n. map guard_char n @ ''_'') (RepositoryName env (restored_name filename))"
  by (simp add: GetHeaderGuardCPPVariable_eq map_option_case split: option.split)

text \<open>
  Whatever the flag \<^verbatim>\<open>--root\<close>, the guard is made of capitals, digits and underscores only
  and ends in an underscore.
\<close>

theorem GetHeaderGuardCPPVariable_characters:
  assumes "GetHeaderGuardCPPVariable env root_flag filename = Some guard"
  shows "list_all (\<lambda>c. c = CHR ''_'' \<or> code c \<in> {48..57} \<union> {65..90}) guard \<and> last guard = CHR ''_''"
proof -
  obtain n where "guard = map guard_char n @ ''_''" using GetHeaderGuardCPPVariable_form [OF assms] by blast
  then show ?thesis using guard_char_range by (auto simp: list_all_iff)
qed

theorem GetHeaderGuardCPPVariable_characters_witness:
  "GetHeaderGuardCPPVariable (sample_os ''/home/u/DN/.git'') (Some ''src'') ''c++/a-b_flymake.h'' =
     Some ''_HOME_U_DN_SRC_CPP_A_B_H_'' \<and>
   list_all (\<lambda>c. c = CHR ''_'' \<or> code c \<in> {48..57} \<union> {65..90}) ''_HOME_U_DN_SRC_CPP_A_B_H_'' \<and>
     last ''_HOME_U_DN_SRC_CPP_A_B_H_'' = CHR ''_''"
proof -
  have g: "GetHeaderGuardCPPVariable (sample_os ''/home/u/DN/.git'') (Some ''src'') ''c++/a-b_flymake.h'' =
      Some ''_HOME_U_DN_SRC_CPP_A_B_H_''" by code_simp
  show ?thesis using g GetHeaderGuardCPPVariable_characters [OF g] by (rule conjI)
qed

end
