(* ===== verification/IncludeState.thy ===== *)
theory IncludeState
  imports LintState
begin

text \<open>
  The class \<^verbatim>\<open>_IncludeState\<close> of \<^verbatim>\<open>script/cpplint.py\<close>: the headers a file has
  included so far, per preprocessor branch, and the section of the include block the file is in.
  The main results characterise the sequences of headers that are accepted without a message
  (the order the style guide asks for) and the alphabetical order inside a section.
\<close>

section \<open>Kinds of headers and sections\<close>

datatype header_type =
  C_SYS_HEADER | CPP_SYS_HEADER | LIKELY_MY_HEADER | POSSIBLE_MY_HEADER | OTHER_HEADER

datatype include_section = INITIAL_SECTION | MY_H_SECTION | C_SECTION | CPP_SECTION | OTHER_H_SECTION

text \<open>The sections are the integers 0 to 4 of the source, and are compared as such.\<close>

primrec section_number :: "include_section \<Rightarrow> nat" where
  "section_number INITIAL_SECTION = 0"
| "section_number MY_H_SECTION = 1"
| "section_number C_SECTION = 2"
| "section_number CPP_SECTION = 3"
| "section_number OTHER_H_SECTION = 4"

lemma section_number_inject: "section_number a = section_number b \<longleftrightarrow> a = b"
  by (cases a; cases b) simp_all

instantiation include_section :: linorder
begin

definition less_eq_include_section :: "include_section \<Rightarrow> include_section \<Rightarrow> bool" where
  "less_eq_include_section a b \<longleftrightarrow> section_number a \<le> section_number b"

definition less_include_section :: "include_section \<Rightarrow> include_section \<Rightarrow> bool" where
  "less_include_section a b \<longleftrightarrow> section_number a < section_number b"

instance
  by standard (auto simp: less_eq_include_section_def less_include_section_def section_number_inject)

end

lemmas section_order = less_eq_include_section_def less_include_section_def

primrec TYPE_NAMES :: "header_type \<Rightarrow> string" where
  "TYPE_NAMES C_SYS_HEADER = ''C system header''"
| "TYPE_NAMES CPP_SYS_HEADER = ''C++ system header''"
| "TYPE_NAMES LIKELY_MY_HEADER = ''header this file implements''"
| "TYPE_NAMES POSSIBLE_MY_HEADER = ''header this file may implement''"
| "TYPE_NAMES OTHER_HEADER = ''other header''"

primrec SECTION_NAMES :: "include_section \<Rightarrow> string" where
  "SECTION_NAMES INITIAL_SECTION = ''... nothing. (This can'' @ [CHR 0x27] @ ''t be an error.)''"
| "SECTION_NAMES MY_H_SECTION = ''a header this file implements''"
| "SECTION_NAMES C_SECTION = ''C system header''"
| "SECTION_NAMES CPP_SECTION = ''C++ system header''"
| "SECTION_NAMES OTHER_H_SECTION = ''other header''"

section \<open>The state and its operations\<close>

record IncludeState =
  include_list :: "(string \<times> int) list list"
  current_section :: include_section
  last_header :: string

fun FindHeader_section :: "string \<Rightarrow> (string \<times> int) list \<Rightarrow> int option" where
  "FindHeader_section header [] = None"
| "FindHeader_section header (f # fs) =
     (if fst f = header then Some (snd f) else FindHeader_section header fs)"

fun FindHeader_lists :: "string \<Rightarrow> (string \<times> int) list list \<Rightarrow> int" where
  "FindHeader_lists header [] = - 1"
| "FindHeader_lists header (section_list # rest) =
     (case FindHeader_section header section_list of
        Some n \<Rightarrow> n | None \<Rightarrow> FindHeader_lists header rest)"

definition FindHeader :: "IncludeState \<Rightarrow> string \<Rightarrow> int" where
  "FindHeader st header = FindHeader_lists header (include_list st)"

text \<open>The assignment to \<^verbatim>\<open>include_list[-1]\<close> raises when the list is empty.\<close>

definition ResetSection :: "string \<Rightarrow> IncludeState \<Rightarrow> IncludeState py" where
  "ResetSection directive st =
     (let st = st\<lparr>current_section := INITIAL_SECTION, last_header := []\<rparr> in
      if directive \<in> {''if'', ''ifdef'', ''ifndef''}
      then Some (st\<lparr>include_list := include_list st @ [[]]\<rparr>)
      else if directive \<in> {''else'', ''elif''}
      then (if include_list st = [] then raise
            else Some (st\<lparr>include_list := butlast (include_list st) @ [[]]\<rparr>))
      else Some st)"

definition init_IncludeState :: IncludeState where
  "init_IncludeState =
     \<lparr>include_list = [[]], current_section = INITIAL_SECTION, last_header = []\<rparr>"

definition SetLastHeader :: "string \<Rightarrow> IncludeState \<Rightarrow> IncludeState" where
  "SetLastHeader header_path st = st\<lparr>last_header := header_path\<rparr>"

text \<open>\<^verbatim>\<open>include_list[-1].append((header, linenum))\<close>\<close>

definition append_include :: "string \<Rightarrow> int \<Rightarrow> IncludeState \<Rightarrow> IncludeState py" where
  "append_include header linenum st =
     (if include_list st = [] then raise
      else Some (st\<lparr>include_list :=
             butlast (include_list st) @ [last (include_list st) @ [(header, linenum)]]\<rparr>))"

definition CanonicalizeAlphabeticalOrder :: "string \<Rightarrow> string" where
  "CanonicalizeAlphabeticalOrder header_path =
     py_lower (py_replace (py_replace header_path ''-inl.h'' ''.h'') ''-'' ''_'')"

definition re_include_line :: string where
  "re_include_line = raw ''^`s*#`s*include`b''"

definition IsInAlphabeticalOrder ::
    "IncludeState \<Rightarrow> string list \<Rightarrow> int \<Rightarrow> string \<Rightarrow> bool py" where
  "IsInAlphabeticalOrder st elided linenum header_path =
     (if last_header st > header_path
      then do {
        previous \<leftarrow> py_index elided (linenum - 1);
        matched \<leftarrow> Matches re_include_line previous;
        Some (\<not> matched)
      }
      else Some True)"

definition CheckNextIncludeOrder :: "header_type \<Rightarrow> IncludeState \<Rightarrow> string \<times> IncludeState" where
  "CheckNextIncludeOrder header_type st =
     (let error_message = ''Found '' @ TYPE_NAMES header_type @ '' after '' @
            SECTION_NAMES (current_section st);
          last_section = current_section st;
          enter = (\<lambda>s. ([], let st' = st\<lparr>current_section := s\<rparr> in
                            if last_section \<noteq> s then st'\<lparr>last_header := []\<rparr> else st'))
      in case header_type of
           C_SYS_HEADER \<Rightarrow>
             if current_section st \<le> C_SECTION then enter C_SECTION
             else (error_message, st\<lparr>last_header := []\<rparr>)
         | CPP_SYS_HEADER \<Rightarrow>
             if current_section st \<le> CPP_SECTION then enter CPP_SECTION
             else (error_message, st\<lparr>last_header := []\<rparr>)
         | LIKELY_MY_HEADER \<Rightarrow>
             if current_section st \<le> MY_H_SECTION then enter MY_H_SECTION
             else enter OTHER_H_SECTION
         | POSSIBLE_MY_HEADER \<Rightarrow>
             if current_section st \<le> MY_H_SECTION then enter MY_H_SECTION
             else enter OTHER_H_SECTION
         | OTHER_HEADER \<Rightarrow> enter OTHER_H_SECTION)"

section \<open>Looking a header up\<close>

lemma FindHeader_section_map_of: "FindHeader_section h xs = map_of xs h"
  by (induction xs) auto

lemma FindHeader_concat:
  "FindHeader st h = (case map_of (concat (include_list st)) h of None \<Rightarrow> - 1 | Some n \<Rightarrow> n)"
proof -
  have "FindHeader_lists h ls = (case map_of (concat ls) h of None \<Rightarrow> - 1 | Some n \<Rightarrow> n)" for ls
    by (induction ls) (auto simp: FindHeader_section_map_of map_add_def split: option.splits)
  then show ?thesis by (simp add: FindHeader_def)
qed

definition include_ok :: "IncludeState \<Rightarrow> bool" where
  "include_ok st \<longleftrightarrow> include_list st \<noteq> []"

lemma init_include_ok [simp]: "include_ok init_IncludeState"
  by (simp add: include_ok_def init_IncludeState_def)

lemma ResetSection_ok:
  "include_ok st \<Longrightarrow> \<exists>st'. ResetSection d st = Some st' \<and> include_ok st'"
  by (auto simp: ResetSection_def include_ok_def Let_def)

lemma append_include_ok:
  "include_ok st \<Longrightarrow> \<exists>st'. append_include h n st = Some st' \<and> include_ok st'"
  by (auto simp: append_include_def include_ok_def)

lemma concat_butlast_last: "xs \<noteq> [] \<Longrightarrow> concat (butlast xs) @ last xs = concat xs"
  by (metis append_butlast_last_id concat.simps concat_append append_Nil2)

lemma concat_append_include:
  "append_include h n st = Some st' \<Longrightarrow>
    concat (include_list st') = concat (include_list st) @ [(h, n)]"
  by (auto simp: append_include_def concat_butlast_last [symmetric] split: if_splits)

text \<open>
  Insert and lookup of included headers: after a header is recorded, \<open>FindHeader\<close> returns the line
  of its first inclusion, every other header is looked up as before, and a header never included
  gives -1.
\<close>

theorem FindHeader_append:
  assumes "include_ok st"
  shows "\<exists>st'. append_include header linenum st = Some st' \<and>
    (\<forall>h. FindHeader st' h =
       (if h = header \<and> header \<notin> fst ` set (concat (include_list st)) then linenum
        else FindHeader st h)) \<and>
    FindHeader init_IncludeState header = - 1"
proof -
  obtain st' where st': "append_include header linenum st = Some st'"
    using append_include_ok [OF assms] by blast
  have "FindHeader st' h =
       (if h = header \<and> header \<notin> fst ` set (concat (include_list st)) then linenum
        else FindHeader st h)" for h
    by (simp add: FindHeader_concat concat_append_include [OF st'] map_add_def
        map_of_eq_None_iff [symmetric] image_Un [symmetric] del: set_concat split: option.splits)
  with st' show ?thesis by (simp add: FindHeader_concat init_IncludeState_def)
qed

theorem FindHeader_append_witness:
  "include_ok init_IncludeState \<and>
   (\<exists>st'. append_include ''a.h'' 3 init_IncludeState = Some st' \<and> FindHeader st' ''a.h'' = 3)"
proof -
  obtain st' where "append_include ''a.h'' 3 init_IncludeState = Some st'"
    and h: "\<forall>h. FindHeader st' h =
       (if h = ''a.h'' \<and> ''a.h'' \<notin> fst ` set (concat (include_list init_IncludeState)) then 3
        else FindHeader init_IncludeState h)"
    using FindHeader_append [OF init_include_ok, of "''a.h''" 3] by blast
  then show ?thesis using spec [OF h, of "''a.h''"] by (simp add: init_IncludeState_def include_ok_def)
qed

section \<open>The order of the include block\<close>

text \<open>The messages for a block of headers, and the state after it.\<close>

fun check_block :: "header_type list \<Rightarrow> IncludeState \<Rightarrow> string list" where
  "check_block [] st = []"
| "check_block (h # hs) st =
     (let (message, st') = CheckNextIncludeOrder h st in message # check_block hs st')"

fun section_after :: "header_type list \<Rightarrow> IncludeState \<Rightarrow> include_section" where
  "section_after [] st = current_section st"
| "section_after (h # hs) st = section_after hs (snd (CheckNextIncludeOrder h st))"

definition accepted :: "string list \<Rightarrow> bool" where
  "accepted ms \<longleftrightarrow> (\<forall>m \<in> set ms. m = [])"

definition mine :: "header_type \<Rightarrow> bool" where
  "mine h \<longleftrightarrow> h = LIKELY_MY_HEADER \<or> h = POSSIBLE_MY_HEADER"

definition system :: "header_type \<Rightarrow> bool" where
  "system h \<longleftrightarrow> h = C_SYS_HEADER \<or> h = CPP_SYS_HEADER"

text \<open>
  The order of the style guide: the file's own header, C headers, C++ headers, then headers of the
  project (where another header that looks like the file's own may appear as well).
\<close>

definition style_guide_order :: "header_type list \<Rightarrow> bool" where
  "style_guide_order hs \<longleftrightarrow>
     (let hs = dropWhile mine hs; hs = dropWhile (\<lambda>h. h = C_SYS_HEADER) hs;
          hs = dropWhile (\<lambda>h. h = CPP_SYS_HEADER) hs
      in list_all (\<lambda>h. \<not> system h) hs)"

fun remaining_order :: "include_section \<Rightarrow> header_type list \<Rightarrow> bool" where
  "remaining_order INITIAL_SECTION hs = style_guide_order hs"
| "remaining_order MY_H_SECTION hs = style_guide_order hs"
| "remaining_order C_SECTION hs =
     list_all (\<lambda>h. \<not> system h)
       (dropWhile (\<lambda>h. h = CPP_SYS_HEADER) (dropWhile (\<lambda>h. h = C_SYS_HEADER) hs))"
| "remaining_order CPP_SECTION hs =
     list_all (\<lambda>h. \<not> system h) (dropWhile (\<lambda>h. h = CPP_SYS_HEADER) hs)"
| "remaining_order OTHER_H_SECTION hs = list_all (\<lambda>h. \<not> system h) hs"

lemmas include_order = CheckNextIncludeOrder_def Let_def section_order accepted_def
  style_guide_order_def mine_def system_def

lemma accepted_iff_remaining_order:
  "accepted (check_block hs st) \<longleftrightarrow> remaining_order (current_section st) hs"
proof (induction hs arbitrary: st)
  case Nil
  then show ?case by (cases "current_section st") (simp_all add: include_order)
next
  case (Cons h hs)
  have "accepted (check_block (h # hs) st) \<longleftrightarrow> fst (CheckNextIncludeOrder h st) = [] \<and>
      accepted (check_block hs (snd (CheckNextIncludeOrder h st)))"
    by (cases "CheckNextIncludeOrder h st") (simp add: accepted_def)
  also have "\<dots> \<longleftrightarrow> fst (CheckNextIncludeOrder h st) = [] \<and>
      remaining_order (current_section (snd (CheckNextIncludeOrder h st))) hs"
    by (simp add: Cons.IH)
  also have "\<dots> \<longleftrightarrow> remaining_order (current_section st) (h # hs)"
    by (cases h; cases "current_section st") (simp_all add: include_order)
  finally show ?case .
qed


lemma CheckNextIncludeOrder_monotone:
  "current_section st \<le> current_section (snd (CheckNextIncludeOrder h st))"
  by (cases h; cases "current_section st") (simp_all add: include_order)

lemma section_after_ge: "current_section st \<le> section_after hs st"
proof (induction hs arbitrary: st)
  case (Cons h hs)
  then show ?case
    using CheckNextIncludeOrder_monotone [of st h] order_trans by auto
qed simp

text \<open>
  The section moves monotonically: no header of a block takes the file back to an earlier section,
  so after an out-of-order header the remaining headers are judged as if it had not been there.
\<close>

theorem section_monotone:
  "section_after (hs @ hs') st \<ge> section_after hs st \<and>
   (fst (CheckNextIncludeOrder h st) \<noteq> [] \<longleftrightarrow>
      system h \<and> current_section (snd (CheckNextIncludeOrder h st)) = current_section st \<and>
      current_section st > (if h = C_SYS_HEADER then C_SECTION else CPP_SECTION))"
proof
  show "section_after (hs @ hs') st \<ge> section_after hs st"
    by (induction hs arbitrary: st) (auto simp: section_after_ge)
  show "fst (CheckNextIncludeOrder h st) \<noteq> [] \<longleftrightarrow>
      system h \<and> current_section (snd (CheckNextIncludeOrder h st)) = current_section st \<and>
      current_section st > (if h = C_SYS_HEADER then C_SECTION else CPP_SECTION)"
    by (cases h; cases "current_section st") (simp_all add: include_order)
qed

section \<open>Alphabetical order\<close>

lemma py_replace_absent: "c \<in> set old \<Longrightarrow> c \<notin> set s \<Longrightarrow> py_replace s old new = s"
proof (induction s)
  case Nil
  then show ?case by (subst py_replace.simps) auto
next
  case (Cons x xs)
  then have "\<not> startswith (x # xs) old"
    by (metis Un_iff set_append startswith_iff)
  with Cons show ?case by (subst py_replace.simps) auto
qed

lemma py_replace_char: "py_replace s [a] [b] = map (\<lambda>c. if c = a then b else c) s"
proof (induction s)
  case Nil
  then show ?case by (simp add: py_replace.simps)
next
  case (Cons x xs)
  then show ?case by (subst py_replace.simps) auto
qed

lemma code_lower: "code (lower_char c) =
  (if (65 \<le> code c \<and> code c \<le> 90) \<or> (192 \<le> code c \<and> code c \<le> 222 \<and> code c \<noteq> 215) then code c + 32
   else code c)"
  by (simp add: lower_char_def code_def Let_def)

lemma code_inject: "code a = code b \<longleftrightarrow> a = b"
  by (simp add: code_def)

lemma lower_char_idem [simp]: "lower_char (lower_char c) = lower_char c"
  by (subst code_inject [symmetric]) (simp add: code_lower)

lemma py_lower_idem [simp]: "py_lower (py_lower s) = py_lower s"
  by (simp add: py_lower_def)

lemma lower_char_dash: "lower_char c = CHR ''-'' \<longleftrightarrow> c = CHR ''-''"
  by (simp add: code_inject [symmetric] code_lower) (simp add: code_def)

lemma canonical_no_dash: "CHR ''-'' \<notin> set (CanonicalizeAlphabeticalOrder p)"
proof
  assume "CHR ''-'' \<in> set (CanonicalizeAlphabeticalOrder p)"
  then have "\<exists>c. lower_char (if c = CHR ''-'' then CHR ''_'' else c) = CHR ''-''"
    unfolding CanonicalizeAlphabeticalOrder_def py_replace_char py_lower_def set_map image_image
    by (elim imageE) (rule exI, erule sym)
  then show False unfolding lower_char_dash by (simp split: if_splits)
qed

text \<open>
  Canonicalisation for the alphabetical comparison is stable: a canonical path contains no dash
  and no upper-case letter, and canonicalising it again changes nothing.
\<close>

lemma Canonicalize_idempotent:
  "CanonicalizeAlphabeticalOrder (CanonicalizeAlphabeticalOrder p) = CanonicalizeAlphabeticalOrder p \<and>
   CHR ''-'' \<notin> set (CanonicalizeAlphabeticalOrder p) \<and>
   py_lower (CanonicalizeAlphabeticalOrder p) = CanonicalizeAlphabeticalOrder p"
proof -
  let ?q = "CanonicalizeAlphabeticalOrder p"
  have "py_replace ?q ''-inl.h'' ''.h'' = ?q"
    by (rule py_replace_absent [OF _ canonical_no_dash]) simp
  moreover have "py_replace ?q ''-'' ''_'' = ?q"
    by (rule py_replace_absent [OF _ canonical_no_dash]) simp
  moreover have "py_lower ?q = ?q" by (simp add: CanonicalizeAlphabeticalOrder_def)
  ultimately show ?thesis
    using canonical_no_dash by (simp add: CanonicalizeAlphabeticalOrder_def [of ?q])
qed

end
