(* ===== verification/Cleanse.thy ===== *)
theory Cleanse
  imports LintState
begin

text \<open>
  The cleansing of the lines of a file before they are checked (\<^verbatim>\<open>script/cpplint.py\<close>, from
  \<^verbatim>\<open>IsCppString\<close> to the class \<^verbatim>\<open>CleansedLines\<close>): multi-line comments, C++11 raw strings,
  comments and the contents of strings are removed.

  The loops of \<^verbatim>\<open>CleanseRawStrings\<close> and \<^verbatim>\<open>_CollapseStrings\<close> are \<open>partial_function\<close>s
  into \<open>py\<close>: \<open>None\<close> would be a loop that does not end or an exception, and the main theorem
  of this theory is that neither happens on lines without newline characters, which are the lines a
  file is split into.
\<close>

section \<open>Patterns\<close>

definition RE_PATTERN_CLEANSE_LINE_ESCAPES :: string where
  \<open>RE_PATTERN_CLEANSE_LINE_ESCAPES = raw ''``([abfnrtv?"```']|`d+|x[0-9a-fA-F]+)''\<close>

definition RE_PATTERN_C_COMMENTS :: string where
  "RE_PATTERN_C_COMMENTS = raw ''/`*(?:[^*]|`*(?!/))*`*/''"

definition RE_PATTERN_CLEANSE_LINE_C_COMMENTS :: string where
  "RE_PATTERN_CLEANSE_LINE_C_COMMENTS =
     raw ''(`s*'' @ RE_PATTERN_C_COMMENTS @ raw ''`s*$|'' @
     RE_PATTERN_C_COMMENTS @ raw ''`s+|'' @
     raw ''`s+'' @ RE_PATTERN_C_COMMENTS @ raw ''(?=`W)|'' @
     RE_PATTERN_C_COMMENTS @ raw '')''"

definition RE_PATTERN_INCLUDE :: string where
  \<open>RE_PATTERN_INCLUDE = raw ''^`s*#`s*include`s*([<"])([^>"]*)[>"].*$''\<close>

definition re_leading_space :: string where
  "re_leading_space = raw ''^(`s*)`S''"

definition re_raw_string :: string where
  \<open>re_raw_string = raw ''^(.*)`b(?:R|u8R|uR|UR|LR)"([^`s``()]*)`((.*)$''\<close>

definition re_first_quote :: string where
  \<open>re_first_quote = raw ''^([^`'"]*)([`'"])(.*)$''\<close>

definition re_number_head :: string where
  "re_number_head = raw ''`b(?:0[bBxX]?|[1-9])[0-9a-fA-F]*$''"

definition re_number_tail :: string where
  "re_number_tail = raw ''^((?:`'?[0-9a-zA-Z_])*)(.*)$''"

definition two_quotes :: string where
  "two_quotes = [CHR 0x22, CHR 0x22]"

section \<open>Strings\<close>

text \<open>
  Whether the text ends inside a string constant: the double quotes that are neither escaped nor a
  character constant are counted.
\<close>

definition IsCppString :: "string \<Rightarrow> bool" where
  "IsCppString line =
     (let line = py_replace line (raw ''``'') ''XX'' in
      odd (int (py_count line [CHR 0x22]) - int (py_count line [backslash, CHR 0x22])
           - int (py_count line [CHR 0x27, CHR 0x22, CHR 0x27])))"

section \<open>Raw strings\<close>

text \<open>The inner loop: removes the raw strings that start on a line, until none is left or one is open.\<close>

partial_function (option) raw_string_loop :: "string \<Rightarrow> (string option \<times> string) py" where
  "raw_string_loop line =
     Option.bind (Match re_raw_string line) (\<lambda>matched. case matched of
         None \<Rightarrow> Some (None, line)
       | Some m \<Rightarrow>
           (let delimiter = '')'' @ group_text m 2 @ [CHR 0x22];
                end = py_find (group_text m 3) delimiter
            in if end \<ge> 0
               then raw_string_loop (group_text m 1 @ two_quotes @
                      py_from (group_text m 3) (end + int (length delimiter)))
               else Some (Some delimiter, group_text m 1 @ two_quotes)))"

declare raw_string_loop.simps [code]

text \<open>The part of the loop body for a line that starts inside a raw string.\<close>

definition close_raw_string :: "string \<Rightarrow> string \<Rightarrow> (string option \<times> string) py" where
  "close_raw_string delimiter line =
     (let end = py_find line delimiter in
      if end \<ge> 0
      then do {
        leading_space \<leftarrow> Match re_leading_space line;
        m \<leftarrow> leading_space;
        Some (None, group_text m 1 @ two_quotes @ py_from line (end + int (length delimiter)))
      }
      else Some (Some delimiter, two_quotes))"

fun CleanseRawStrings_from :: "string option \<Rightarrow> string list \<Rightarrow> string list py" where
  "CleanseRawStrings_from delimiter [] = Some []"
| "CleanseRawStrings_from delimiter (line # raw_lines) = do {
     (delimiter, line) \<leftarrow> (case delimiter of
        Some d \<Rightarrow> close_raw_string d line | None \<Rightarrow> Some (None, line));
     (delimiter, line) \<leftarrow> (case delimiter of
        None \<Rightarrow> raw_string_loop line | Some d \<Rightarrow> Some (Some d, line));
     rest \<leftarrow> CleanseRawStrings_from delimiter raw_lines;
     Some (line # rest)
   }"

definition CleanseRawStrings :: "string list \<Rightarrow> string list py" where
  "CleanseRawStrings raw_lines = CleanseRawStrings_from None raw_lines"

section \<open>Multi-line comments\<close>

definition opens_comment :: "string \<Rightarrow> bool" where
  "opens_comment line \<longleftrightarrow>
     startswith (py_strip line) ''/*'' \<and> py_find_from (py_strip line) ''*/'' 2 < 0"

function FindNextMultiLineCommentStart :: "string list \<Rightarrow> nat \<Rightarrow> nat" where
  "FindNextMultiLineCommentStart lines lineix =
     (if lineix < length lines
      then if opens_comment (lines ! lineix) then lineix
           else FindNextMultiLineCommentStart lines (lineix + 1)
      else length lines)"
  by pat_completeness auto
termination
  by (relation "measure (\<lambda>(lines, lineix). length lines - lineix)") auto

function FindNextMultiLineCommentEnd :: "string list \<Rightarrow> nat \<Rightarrow> nat" where
  "FindNextMultiLineCommentEnd lines lineix =
     (if lineix < length lines
      then if endswith (py_strip (lines ! lineix)) ''*/'' then lineix
           else FindNextMultiLineCommentEnd lines (lineix + 1)
      else length lines)"
  by pat_completeness auto
termination
  by (relation "measure (\<lambda>(lines, lineix). length lines - lineix)") auto

declare FindNextMultiLineCommentStart.simps [simp del] FindNextMultiLineCommentEnd.simps [simp del]

definition RemoveMultiLineCommentsFromRange :: "string list \<Rightarrow> nat \<Rightarrow> nat \<Rightarrow> string list" where
  "RemoveMultiLineCommentsFromRange lines begin end =
     fold (\<lambda>i ls. ls[i := ''/**/'']) [begin..<end] lines"

lemma start_ge: "lineix \<le> length lines \<Longrightarrow> lineix \<le> FindNextMultiLineCommentStart lines lineix"
proof (induction lines lineix rule: FindNextMultiLineCommentStart.induct)
  case (1 lines lineix)
  then show ?case by (subst FindNextMultiLineCommentStart.simps) auto
qed

lemma end_ge: "lineix \<le> length lines \<Longrightarrow> lineix \<le> FindNextMultiLineCommentEnd lines lineix"
proof (induction lines lineix rule: FindNextMultiLineCommentEnd.induct)
  case (1 lines lineix)
  then show ?case by (subst FindNextMultiLineCommentEnd.simps) auto
qed

lemma length_fold_update [simp]: "length (fold (\<lambda>i ls. ls[i := x]) is lines) = length lines"
  by (induction "is" arbitrary: lines) auto

lemma length_range_removed [simp]: "length (RemoveMultiLineCommentsFromRange lines b e) = length lines"
  by (simp add: RemoveMultiLineCommentsFromRange_def)

text \<open>The loop returns the lines and the reports.\<close>

function RemoveMultiLineComments_from :: "string \<Rightarrow> string list \<Rightarrow> nat \<Rightarrow> string list \<times> event list" where
  "RemoveMultiLineComments_from filename lines lineix =
     (if lineix < length lines
      then (let lineix_begin = FindNextMultiLineCommentStart lines lineix in
            if lineix_begin \<ge> length lines then (lines, [])
            else (let lineix_end = FindNextMultiLineCommentEnd lines lineix_begin in
                  if lineix_end \<ge> length lines
                  then (lines, [Report filename (int lineix_begin + 1) ''readability/multiline_comment'' 5
                                  ''Could not find end of multi-line comment''])
                  else RemoveMultiLineComments_from filename
                         (RemoveMultiLineCommentsFromRange lines lineix_begin (lineix_end + 1))
                         (lineix_end + 1)))
      else (lines, []))"
  by pat_completeness auto
termination
proof (relation "measure (\<lambda>(filename, lines, lineix). length lines - lineix)")
  fix filename and lines :: "string list" and lineix b e
  assume "lineix < length lines" and b: "b = FindNextMultiLineCommentStart lines lineix"
    and "\<not> length lines \<le> b" and e: "e = FindNextMultiLineCommentEnd lines b" and "\<not> length lines \<le> e"
  then have "lineix \<le> e" using start_ge [of lineix lines] end_ge [of b lines] by simp
  then show "((filename, RemoveMultiLineCommentsFromRange lines b (e + 1), e + 1), filename, lines, lineix)
      \<in> measure (\<lambda>(filename, lines, lineix). length lines - lineix)"
    using \<open>\<not> length lines \<le> e\<close> by auto
qed simp

declare RemoveMultiLineComments_from.simps [simp del]

definition RemoveMultiLineComments :: "string \<Rightarrow> string list \<Rightarrow> string list \<times> event list" where
  "RemoveMultiLineComments filename lines = RemoveMultiLineComments_from filename lines 0"

section \<open>Comments and strings on a line\<close>

definition CleanseComments :: "string \<Rightarrow> string py" where
  "CleanseComments line =
     (let commentpos = py_find line ''//'';
          line = (if commentpos \<noteq> - 1 \<and> \<not> IsCppString (py_upto line commentpos)
                  then py_rstrip (py_upto line commentpos) else line)
      in ReplaceAll RE_PATTERN_CLEANSE_LINE_C_COMMENTS [] line)"

text \<open>The loop of \<^verbatim>\<open>_CollapseStrings\<close>: what is collapsed so far, and what is left.\<close>

partial_function (option) collapse_loop :: "string \<Rightarrow> string \<Rightarrow> string py" where
  "collapse_loop collapsed elided =
     Option.bind (Match re_first_quote elided) (\<lambda>matched. case matched of
       None \<Rightarrow> Some (collapsed @ elided)
     | Some m \<Rightarrow>
         (let head = group_text m 1; quote = group_text m 2; tail = group_text m 3 in
          if quote = [CHR 0x22]
          then (let second_quote = py_find tail [CHR 0x22] in
                if second_quote \<ge> 0
                then collapse_loop (collapsed @ head @ two_quotes) (py_from tail (second_quote + 1))
                else Some (collapsed @ elided))
          else Option.bind (Search re_number_head head) (\<lambda>number.
            if number \<noteq> None
            then Option.bind (Match re_number_tail (CHR 0x27 # tail)) (\<lambda>literal.
                   Option.bind literal (\<lambda>l.
                     collapse_loop (collapsed @ head @ py_replace (group_text l 1) [CHR 0x27] [])
                       (group_text l 2)))
            else (let second_quote = py_find tail [CHR 0x27] in
                  if second_quote \<ge> 0
                  then collapse_loop (collapsed @ head @ [CHR 0x27, CHR 0x27])
                         (py_from tail (second_quote + 1))
                  else Some (collapsed @ elided)))))"

declare collapse_loop.simps [code]

definition CollapseStrings :: "string \<Rightarrow> string py" where
  "CollapseStrings elided = do {
     is_include \<leftarrow> Matches RE_PATTERN_INCLUDE elided;
     if is_include then Some elided
     else do {
       elided \<leftarrow> ReplaceAll RE_PATTERN_CLEANSE_LINE_ESCAPES [] elided;
       collapse_loop [] elided
     }
   }"

record CleansedLines =
  elided_lines :: "string list"
  cleansed_lines :: "string list"
  raw_lines :: "string list"
  num_lines :: int
  lines_without_raw_strings :: "string list"

fun those_map :: "('a \<Rightarrow> 'b py) \<Rightarrow> 'a list \<Rightarrow> 'b list py" where
  "those_map f [] = Some []"
| "those_map f (x # xs) = do { y \<leftarrow> f x; ys \<leftarrow> those_map f xs; Some (y # ys) }"

definition init_CleansedLines :: "string list \<Rightarrow> CleansedLines py" where
  "init_CleansedLines lines = do {
     without_raw_strings \<leftarrow> CleanseRawStrings lines;
     both \<leftarrow> those_map (\<lambda>line. do {
        cleansed \<leftarrow> CleanseComments line;
        collapsed \<leftarrow> CollapseStrings line;
        elided \<leftarrow> CleanseComments collapsed;
        Some (cleansed, elided)
      }) without_raw_strings;
     Some \<lparr>elided_lines = map snd both, cleansed_lines = map fst both, raw_lines = lines,
           num_lines = int (length lines), lines_without_raw_strings = without_raw_strings\<rparr>
   }"

definition NumLines :: "CleansedLines \<Rightarrow> int" where
  "NumLines clean_lines = num_lines clean_lines"

section \<open>What the patterns match\<close>

text \<open>A line of a file, as the file is split at its newlines.\<close>

definition one_line :: "string \<Rightarrow> bool" where
  "one_line s \<longleftrightarrow> newline \<notin> set s"

lemma one_line_append [simp]: "one_line (u @ v) \<longleftrightarrow> one_line u \<and> one_line v"
  by (auto simp: one_line_def)

lemma one_line_not_newline: "one_line s \<longleftrightarrow> list_all (\<lambda>c. c \<noteq> newline) s"
  by (auto simp: one_line_def list_all_iff)

definition is_quote :: "char \<Rightarrow> bool" where
  "is_quote c \<longleftrightarrow> c = CHR 0x27 \<or> c = CHR 0x22"

definition first_quote_re :: re where
  "first_quote_re = RSeq RBegin
    (RSeq (RGroup 1 (RRepeat 0 None True (RSet True [ItemChar (CHR 0x27), ItemChar (CHR 0x22)])))
      (RSeq (RGroup 2 (RSet False [ItemChar (CHR 0x27), ItemChar (CHR 0x22)]))
        (RSeq (RGroup 3 (RRepeat 0 None True RAny)) REnd)))"

lemma re_first_quote_compiled [re_compiled]: "re_compile re_first_quote = Some (False, first_quote_re)"
  by code_simp

lemma set_match_quotes:
  "set_match False neg [ItemChar (CHR 0x27), ItemChar (CHR 0x22)] = (\<lambda>c. neg \<noteq> is_quote c)"
  by (auto simp: set_match_def is_quote_def fun_eq_iff)

lemma first_quote_denotes:
  assumes "one_line s"
  shows "denotes False s first_quote_re (start_cursor s, []) (d, g) \<longleftrightarrow>
    (\<exists>u q v. s = u @ q # v \<and> list_all (\<lambda>c. \<not> is_quote c) u \<and> is_quote q \<and>
       goes (start_cursor s) s d \<and>
       g = [(3, Suc (length u), length s), (2, length u, Suc (length u)), (1, 0, length u)])"
    (is "?L = ?R")
proof
  assume ?L
  then obtain u q v e f where
    u: "goes (start_cursor s) u e" "list_all (\<lambda>c. \<not> is_quote c) u" and
    q: "goes e [q] f" "is_quote q" and v: "goes f v d" and
    nl: "rest_of d = [] \<or> rest_of d = [newline]" and
    g: "g = [(3, pos_of f, pos_of d), (2, pos_of e, pos_of f), (1, 0, pos_of e)]"
    by (auto simp: first_quote_re_def reads set_match_quotes start_cursor_def)
  have d: "goes (start_cursor s) (u @ [q] @ v) d" using u(1) q(1) v by (blast intro: goes_trans)
  have "rest_of d = []" using goes_start [OF d] nl assms by (auto simp: one_line_def)
  then have s: "s = u @ q # v" using goes_start [OF d] by simp
  then show ?R
    using d u q g goes_start [OF u(1)] goes_pos [OF q(1)] goes_start [OF d]
    by (intro exI [of _ u] exI [of _ q] exI [of _ v]) simp
next
  assume ?R
  then obtain u q v where s: "s = u @ q # v" "list_all (\<lambda>c. \<not> is_quote c) u" "is_quote q"
    and d: "goes (start_cursor s) s d"
    and g: "g = [(3, Suc (length u), length s), (2, length u, Suc (length u)), (1, 0, length u)]"
    by blast
  obtain e where e: "goes (start_cursor s) u e" "rest_of e = q # v"
    using goes_exists [of "start_cursor s" u "q # v"] s(1) by (auto simp: start_cursor_def)
  obtain f where f: "goes e [q] f" "rest_of f = v" using goes_exists [of e "[q]" v] e(2) by auto
  obtain d' where d': "goes f v d'" "rest_of d' = []" using goes_exists [of f v "[]"] f(2) by auto
  have "goes (start_cursor s) (u @ [q] @ v) d'" using e f d' by (blast intro: goes_trans)
  with d s(1) have "d' = d" by (simp add: goes_iff_skip)
  moreover have "list_all (\<lambda>c. c \<noteq> newline) v"
    using assms s(1) by (simp add: one_line_not_newline)
  ultimately show ?L
    using s e f d' g goes_start [OF e(1)] goes_pos [OF f(1)] goes_pos [OF d'(1)]
    by (simp add: first_quote_re_def reads set_match_quotes start_cursor_def) metis
qed

lemma first_quote_plain: "plain_look first_quote_re"
  by (simp add: first_quote_re_def)

lemma takeWhile_split: "list_all (\<lambda>c. \<not> P c) u \<Longrightarrow> P q \<Longrightarrow> takeWhile (\<lambda>c. \<not> P c) (u @ q # v) = u"
  by (induction u) auto

lemma first_quote_None:
  assumes "one_line s" and "\<not> list_ex is_quote s"
  shows "Match re_first_quote s = Some None"
proof (rule Match_NoneI [OF re_first_quote_compiled first_quote_plain])
  show "\<not> denotes False s first_quote_re (start_cursor s, []) (d, g)" for d g
    using assms(2) by (auto simp: first_quote_denotes [OF assms(1)])
qed

lemma first_quote_Some:
  assumes s: "s = u @ q # v" and "one_line s" and "list_all (\<lambda>c. \<not> is_quote c) u" and "is_quote q"
  shows "\<exists>m. Match re_first_quote s = Some (Some m) \<and>
    group_text m 1 = u \<and> group_text m 2 = [q] \<and> group_text m 3 = v"
proof -
  let ?g = "[(3, Suc (length u), length s), (2, length u, Suc (length u)), (1, 0, length u)]"
  obtain d where d: "goes (start_cursor s) s d"
    using goes_exists [of "start_cursor s" s "[]"] by (auto simp: start_cursor_def)
  have "Match re_first_quote s = Some (Some \<lparr>m_string = s, m_start = 0, m_end = length s, m_groups = ?g\<rparr>)"
  proof (rule Match_eqI [OF re_first_quote_compiled first_quote_plain])
    show "denotes False s first_quote_re (start_cursor s, []) (d, ?g)"
      unfolding first_quote_denotes [OF assms(2)] using assms d by blast
  next
    fix e g assume "denotes False s first_quote_re (start_cursor s, []) (e, g)"
    then obtain u' q' v' where u': "s = u' @ q' # v'" "list_all (\<lambda>c. \<not> is_quote c) u'" "is_quote q'"
      "goes (start_cursor s) s e"
      "g = [(3, Suc (length u'), length s), (2, length u', Suc (length u')), (1, 0, length u')]"
      unfolding first_quote_denotes [OF assms(2)] by blast
    have "u' = u" using takeWhile_split [OF u'(2,3)] takeWhile_split [OF assms(3,4)] u'(1) s by metis
    with u' show "pos_of e = length s \<and> g = ?g" using goes_start [OF u'(4)] by simp
  qed
  moreover have "text_between s (length u) (Suc (length u)) = [q]"
    "text_between s (Suc (length u)) (length s) = v" "text_between s 0 (length u) = u"
    by (simp_all add: s text_between_def)
  ultimately show ?thesis by (auto simp: group_text_def group_def)
qed

subsection \<open>Digit separators\<close>

definition digits_re :: re where
  "digits_re = RRepeat 0 None True (RSeq (RRepeat 0 (Some 1) True (RChar (CHR 0x27)))
     (RSet False [ItemRange (CHR ''0'') (CHR ''9''), ItemRange (CHR ''a'') (CHR ''z''),
       ItemRange (CHR ''A'') (CHR ''Z''), ItemChar (CHR ''_'')]))"

definition number_tail_re :: re where
  "number_tail_re = RSeq RBegin
    (RSeq (RGroup 1 digits_re) (RSeq (RGroup 2 (RRepeat 0 None True RAny)) REnd))"

lemma digits_re_plain: "plain_look digits_re" "no_groups digits_re"
  by (simp_all add: digits_re_def)

lemma digits_re_none: "denotes ci s digits_re (c, g) (c, g)"
  by (simp add: digits_re_def denotes.simps rounds.stop)

lemma re_number_tail_compiled [re_compiled]: "re_compile re_number_tail = Some (False, number_tail_re)"
  by code_simp

lemma number_tail_Some:
  assumes "one_line s"
  shows "\<exists>m u v. Match re_number_tail s = Some (Some m) \<and> s = u @ v \<and> group_text m 1 = u \<and> group_text m 2 = v"
proof -
  have plain: "plain_look number_tail_re" by (simp add: number_tail_re_def digits_re_plain)
  obtain d where d: "goes (start_cursor s) s d" "rest_of d = []"
    using goes_exists [of "start_cursor s" s "[]"] by (auto simp: start_cursor_def)
  then have "denotes False s number_tail_re (start_cursor s, []) (d, [(2, 0, pos_of d), (1, 0, 0)])"
    using digits_re_none [of False s "start_cursor s" "[]"] assms
    unfolding number_tail_re_def reads one_line_not_newline
    by (intro exI [of _ "start_cursor s"]) (auto simp: start_cursor_def)
  then obtain m e where m: "Match re_number_tail s = Some (Some m)" "m_string m = s"
    and den: "denotes False s number_tail_re (start_cursor s, []) (e, m_groups m)"
    using Match_returns [OF re_number_tail_compiled plain, of s]
    by (metis Match_compiled option.inject plain re_match_exists re_number_tail_compiled)
  from den obtain f v h where h: "denotes False s digits_re (start_cursor s, []) (f, h)" and v: "goes f v e"
    and nl: "rest_of e = [] \<or> rest_of e = [newline]"
    and g: "m_groups m = (2, pos_of f, pos_of e) # (1, 0, pos_of f) # h"
    unfolding number_tail_re_def by (auto simp: reads start_cursor_def)
  obtain u where u: "goes (start_cursor s) u f" using denotes_no_groups [OF digits_re_plain h] by blast
  have uv: "goes (start_cursor s) (u @ v) e" using u v by (rule goes_trans)
  then have "rest_of e = []" using goes_start [OF uv] nl assms by (auto simp: one_line_def)
  then have s: "s = u @ v" using goes_start [OF uv] by simp
  have "group_text m 1 = u" "group_text m 2 = v"
    using m(2) g s goes_start [OF u] goes_start [OF uv]
    by (auto simp: group_text_def group_def text_between_def)
  with m s show ?thesis by blast
qed

definition number_head_re :: re where
  "number_head_re = RSeq (RBoundary True)
    (RSeq (RAlt (RSeq (RChar (CHR ''0'')) (RRepeat 0 (Some 1) True
              (RSet False [ItemChar (CHR ''b''), ItemChar (CHR ''B''), ItemChar (CHR ''x''), ItemChar (CHR ''X'')])))
            (RSet False [ItemRange (CHR ''1'') (CHR ''9'')]))
      (RSeq (RRepeat 0 None True (RSet False [ItemRange (CHR ''0'') (CHR ''9''),
          ItemRange (CHR ''a'') (CHR ''f''), ItemRange (CHR ''A'') (CHR ''F'')])) REnd))"

lemma re_number_head_compiled [re_compiled]: "re_compile re_number_head = Some (False, number_head_re)"
  by code_simp

lemma number_head_returns:
  "\<exists>r. Search re_number_head s = Some r \<and> (r \<noteq> None \<longrightarrow> s \<noteq> [])"
proof (cases "re_search (False, number_head_re) s")
  case None
  then show ?thesis by (simp add: Search_compiled [OF re_number_head_compiled])
next
  case (Some m)
  have "plain_look number_head_re" by (simp add: number_head_re_def)
  with Some obtain u c d where u: "goes (start_cursor s) u c"
    and "denotes False s number_head_re (c, []) (d, m_groups m)"
    by (rule re_search_denotes)
  then obtain b e where "goes c [b] e" unfolding number_head_re_def reads by blast
  then have "s \<noteq> []" using goes_start [OF u] goes_rest by fastforce
  with Some show ?thesis by (simp add: Search_compiled [OF re_number_head_compiled])
qed

section \<open>Collapsing strings\<close>

lemma py_find_bounds: "py_find s sub \<ge> 0 \<Longrightarrow> py_find s sub + int (length sub) \<le> int (length s)"
  by (auto simp: py_find_def dest: find_at_Some split: option.splits)

lemma py_from_nat [simp]: "0 \<le> i \<Longrightarrow> py_from xs i = drop (nat i) xs"
  by (cases "nat i \<le> length xs") (auto simp: py_from_def min_def)

lemma one_line_drop: "one_line s \<Longrightarrow> one_line (drop k s)"
  by (auto simp: one_line_def dest: in_set_dropD)

text \<open>The loop ends: every round that continues leaves a shorter text.\<close>

lemma collapse_loop_returns:
  assumes "one_line elided"
  shows "\<exists>r. collapse_loop collapsed elided = Some r"
  using assms
proof (induction "length elided" arbitrary: collapsed elided rule: less_induct)
  case less
  show ?case
  proof (cases "list_ex is_quote elided")
    case False
    then show ?thesis by (subst collapse_loop.simps) (simp add: first_quote_None less.prems)
  next
    case True
    let ?u = "takeWhile (\<lambda>c. \<not> is_quote c) elided"
    obtain q v where s: "elided = ?u @ q # v" "is_quote q"
      using True by (metis (mono_tags, lifting) dropWhile_eq_Cons_conv list_ex_iff takeWhile_dropWhile_id
          dropWhile_eq_Nil_conv list.exhaust)
    have u: "list_all (\<lambda>c. \<not> is_quote c) ?u" by (auto simp: list_all_iff dest: set_takeWhileD)
    obtain m where m: "Match re_first_quote elided = Some (Some m)"
      "group_text m 1 = ?u" "group_text m 2 = [q]" "group_text m 3 = v"
      using first_quote_Some [OF s(1) less.prems u s(2)] by blast
    have v: "one_line v" using less.prems by (subst (asm) s(1)) (simp add: one_line_def)
    have len: "length elided = length ?u + Suc (length v)" by (subst s(1)) simp
    have rest: "\<exists>r. collapse_loop c (drop k v) = Some r" for c k
      using less.hyps [of "drop k v"] one_line_drop [OF v] len by simp
    have rest': "\<exists>r. collapse_loop c w = Some r" if "CHR 0x27 # v = w' @ w" "?u \<noteq> []" for c w w'
    proof (rule less.hyps)
      have "length ?u > 0" using that(2) by simp
      with that(1) len show "length w < length elided"
        by (metis Suc_eq_plus1 add.commute add_less_cancel_right le_add2 length_Cons length_append
            le_less_trans less_add_same_cancel1)
      show "one_line w" using v that(1) by (auto simp: one_line_def Cons_eq_append_conv newline_def)
    qed
    obtain number where n: "Search re_number_head ?u = Some number" "number \<noteq> None \<longrightarrow> ?u \<noteq> []"
      using number_head_returns by blast
    have "one_line (CHR 0x27 # v)" using v by (simp add: one_line_def newline_def)
    then obtain l w w' where l: "Match re_number_tail (CHR 0x27 # v) = Some (Some l)"
      "CHR 0x27 # v = w' @ w" "group_text l 2 = w"
      using number_tail_Some by blast
    show ?thesis
    proof (cases "q = CHR 0x22")
      case True
      with m rest show ?thesis by (subst collapse_loop.simps) (simp add: Let_def)
    next
      case False
      with m n l rest rest' show ?thesis
        by (subst collapse_loop.simps) (auto simp: Let_def)
    qed
  qed
qed

text \<open>Deleting matches only removes characters.\<close>

lemma set_text_between: "set (text_between s a b) \<subseteq> set s"
  unfolding text_between_def by (meson order_trans set_drop_subset set_take_subset)

lemma sub_pieces_subset: "set (sub_pieces (\<lambda>_. []) s i later ms) \<subseteq> set s"
proof (induction ms arbitrary: i later)
  case Nil
  then show ?case by (simp add: set_drop_subset)
next
  case (Cons m ms)
  then show ?case using set_text_between [of s i "m_start m"] by simp
qed

lemma ReplaceAll_deletes:
  assumes "re_compile p = Some r"
  obtains s' where "ReplaceAll p [] s = Some s'" and "set s' \<subseteq> set s"
  using that sub_pieces_subset by (auto simp: ReplaceAll_compiled [OF assms] re_sub_def)

lemma RE_PATTERN_INCLUDE_compiled [re_compiled]: "re_compile RE_PATTERN_INCLUDE \<noteq> None"
  by code_simp

lemma RE_PATTERN_CLEANSE_LINE_ESCAPES_compiled [re_compiled]:
  "re_compile RE_PATTERN_CLEANSE_LINE_ESCAPES \<noteq> None"
  by code_simp

lemma RE_PATTERN_CLEANSE_LINE_C_COMMENTS_compiled [re_compiled]:
  "re_compile RE_PATTERN_CLEANSE_LINE_C_COMMENTS \<noteq> None"
  by code_simp

lemma CollapseStrings_returns:
  assumes "one_line line"
  shows "\<exists>r. CollapseStrings line = Some r"
proof -
  obtain r where r: "re_compile RE_PATTERN_CLEANSE_LINE_ESCAPES = Some r"
    using RE_PATTERN_CLEANSE_LINE_ESCAPES_compiled by blast
  then obtain line' where "ReplaceAll RE_PATTERN_CLEANSE_LINE_ESCAPES [] line = Some line'"
    and sub: "set line' \<subseteq> set line" by (rule ReplaceAll_deletes)
  moreover from sub assms have "one_line line'" by (auto simp: one_line_def)
  moreover obtain b where "Matches RE_PATTERN_INCLUDE line = Some b"
    using Matches_returns [OF RE_PATTERN_INCLUDE_compiled] by blast
  ultimately show ?thesis using collapse_loop_returns by (simp add: CollapseStrings_def)
qed

lemma CleanseComments_returns: "\<exists>r. CleanseComments line = Some r"
proof -
  obtain r where "re_compile RE_PATTERN_CLEANSE_LINE_C_COMMENTS = Some r"
    using RE_PATTERN_CLEANSE_LINE_C_COMMENTS_compiled by blast
  then show ?thesis by (simp add: CleanseComments_def Let_def ReplaceAll_compiled)
qed

section \<open>Removing raw strings\<close>

definition raw_prefix_re :: re where
  "raw_prefix_re = RAlt (RChar (CHR ''R'')) (RAlt (RSeq (RChar (CHR ''u'')) (RSeq (RChar (CHR ''8'')) (RChar (CHR ''R''))))
     (RAlt (RSeq (RChar (CHR ''u'')) (RChar (CHR ''R''))) (RAlt (RSeq (RChar (CHR ''U'')) (RChar (CHR ''R'')))
       (RSeq (RChar (CHR ''L'')) (RChar (CHR ''R''))))))"

definition raw_string_re :: re where
  "raw_string_re = RSeq RBegin (RSeq (RGroup 1 (RRepeat 0 None True RAny)) (RSeq (RBoundary True)
     (RSeq raw_prefix_re (RSeq (RChar (CHR 0x22))
       (RSeq (RGroup 2 (RRepeat 0 None True (RSet True [ItemCat CatSpace, ItemChar (CHR 0x5C),
           ItemChar (CHR ''(''), ItemChar (CHR '')'')])))
         (RSeq (RChar (CHR ''('')) (RSeq (RGroup 3 (RRepeat 0 None True RAny)) REnd)))))))"

lemma re_raw_string_compiled [re_compiled]: "re_compile re_raw_string = Some (False, raw_string_re)"
  by code_simp

lemma raw_prefix_plain: "plain_look raw_prefix_re" "no_groups raw_prefix_re"
  by (simp_all add: raw_prefix_re_def)

text \<open>A raw string that starts on a line: the text before it, its delimiter, and what follows.\<close>

lemma raw_string_shape:
  assumes "one_line s"
  obtains "Match re_raw_string s = Some None"
  | m a p d b where "Match re_raw_string s = Some (Some m)"
    and "s = a @ p @ CHR 0x22 # d @ CHR ''('' # b" and "p \<in> {''R'', ''u8R'', ''uR'', ''UR'', ''LR''}"
    and "group_text m 1 = a" and "group_text m 2 = d" and "group_text m 3 = b"
proof -
  have plain: "plain_look raw_string_re" by (simp add: raw_string_re_def raw_prefix_plain)
  show thesis
  proof (cases rule: Match_returns [OF re_raw_string_compiled plain, of s])
    case 1
    then show thesis by (rule that(1))
  next
    case (2 m e)
    then obtain a d b c1 c2 c3 c4 c5 h where
      a: "goes (start_cursor s) a c1" and p: "denotes False s raw_prefix_re (c1, [(1, 0, pos_of c1)]) (c2, h)"
      and q: "goes c2 [CHR 0x22] c3" and d: "goes c3 d c4" and o: "goes c4 [CHR ''(''] c5" and b: "goes c5 b e"
      and nl: "rest_of e = [] \<or> rest_of e = [newline]"
      and g: "m_groups m = (3, pos_of c5, pos_of e) # (2, pos_of c3, pos_of c4) # h"
      unfolding raw_string_re_def by (auto simp: reads start_cursor_def)
    have h: "h = [(1, 0, pos_of c1)]" using denotes_no_groups [OF raw_prefix_plain p] by blast
    obtain p where p: "goes c1 p c2" "p \<in> {''R'', ''u8R'', ''uR'', ''UR'', ''LR''}"
      using p unfolding raw_prefix_re_def reads by (auto dest: goes_trans)
    let ?w = "a @ p @ [CHR 0x22] @ d @ [CHR ''(''] @ b"
    have w: "goes (start_cursor s) ?w e" using a p(1) q d o b by (blast intro: goes_trans)
    then have "rest_of e = []" using goes_start [OF w] nl assms by (auto simp: one_line_def)
    then have s: "s = ?w" using goes_start [OF w] by simp
    have "pos_of c3 = length (a @ p @ [CHR 0x22])" "pos_of c4 = length (a @ p @ [CHR 0x22] @ d)"
      "pos_of c5 = length (a @ p @ [CHR 0x22] @ d @ [CHR ''(''])" "pos_of e = length s"
      using goes_pos [OF a] goes_pos [OF p(1)] goes_pos [OF q] goes_pos [OF d] goes_pos [OF o] goes_start [OF w] s
      by (simp_all add: start_cursor_def)
    then have "group_text m 1 = a" "group_text m 2 = d" "group_text m 3 = b"
      using g h s 2(3) goes_start [OF a] by (simp_all add: group_text_def group_def text_between_def)
    with s p(2) 2(1) show thesis by (intro that(2) [of m a p d b]) simp_all
  qed
qed

lemma raw_string_loop_returns:
  assumes "one_line line"
  shows "\<exists>d line'. raw_string_loop line = Some (d, line') \<and> one_line line' \<and>
    (\<forall>x. d = Some x \<longrightarrow> (\<exists>y. x = '')'' @ y @ [CHR 0x22]))"
  using assms
proof (induction "length line" arbitrary: line rule: less_induct)
  case less
  have quotes: "one_line two_quotes" by (simp add: one_line_def two_quotes_def newline_def)
  from less.prems show ?case
  proof (cases rule: raw_string_shape)
    case 1
    then show ?thesis using less.prems by (subst raw_string_loop.simps) simp
  next
    case (2 m a p d b)
    let ?delim = "'')'' @ d @ [CHR 0x22]"
    have ab: "one_line a" "one_line b" using less.prems 2(2) by (auto simp: one_line_def)
    have "\<exists>d' line'. raw_string_loop (a @ two_quotes @ drop k b) = Some (d', line') \<and> one_line line' \<and>
        (\<forall>x. d' = Some x \<longrightarrow> (\<exists>y. x = '')'' @ y @ [CHR 0x22]))" if "2 \<le> k" for k
    proof (rule less.hyps)
      show "length (a @ two_quotes @ drop k b) < length line"
        using that 2(2,3) by (auto simp: two_quotes_def)
      show "one_line (a @ two_quotes @ drop k b)" using ab quotes one_line_drop by simp
    qed
    then show ?thesis
      using 2 ab quotes by (subst raw_string_loop.simps) (auto simp: Let_def)
  qed
qed

definition leading_space_re :: re where
  "leading_space_re = RSeq RBegin (RSeq (RGroup 1 (RRepeat 0 None True (RSet False [ItemCat CatSpace])))
     (RSet False [ItemCat CatNotSpace]))"

lemma re_leading_space_compiled [re_compiled]: "re_compile re_leading_space = Some (False, leading_space_re)"
  by code_simp

lemma set_match_space [simp]:
  "set_match False False [ItemCat CatSpace] = re_space"
  "set_match False False [ItemCat CatNotSpace] = (\<lambda>c. \<not> re_space c)"
  by (auto simp: set_match_def cat_match_def)

lemma leading_space_Some:
  assumes "list_ex (\<lambda>c. \<not> re_space c) s"
  shows "\<exists>m. Match re_leading_space s = Some (Some m) \<and> group_text m 1 = takeWhile re_space s"
proof -
  let ?u = "takeWhile re_space s"
  have plain: "plain_look leading_space_re" by (simp add: leading_space_re_def)
  obtain q v where s: "s = ?u @ q # v" "\<not> re_space q"
    using assms by (metis (mono_tags, lifting) dropWhile_eq_Cons_conv list_ex_iff takeWhile_dropWhile_id
        dropWhile_eq_Nil_conv list.exhaust)
  obtain e where e: "goes (start_cursor s) ?u e" "rest_of e = q # v"
    using goes_exists [of "start_cursor s" ?u "q # v"] s(1) by (auto simp: start_cursor_def)
  obtain f where f: "goes e [q] f" using goes_exists [of e "[q]" v] e(2) by auto
  have "Match re_leading_space s = Some (Some \<lparr>m_string = s, m_start = 0, m_end = Suc (length ?u),
      m_groups = [(1, 0, length ?u)]\<rparr>)"
  proof (rule Match_eqI [OF re_leading_space_compiled plain])
    have "list_all re_space ?u" by (auto simp: list_all_iff dest: set_takeWhileD)
    then show "denotes False s leading_space_re (start_cursor s, []) (f, [(1, 0, length ?u)])"
      using e f s goes_start [OF e(1)] unfolding leading_space_re_def reads
      by (simp add: start_cursor_def) metis
  next
    fix d g assume "denotes False s leading_space_re (start_cursor s, []) (d, g)"
    then obtain u' e' q' where u': "goes (start_cursor s) u' e'" "list_all re_space u'"
      "goes e' [q'] d" "\<not> re_space q'" "g = [(1, 0, pos_of e')]"
      unfolding leading_space_re_def by (auto simp: reads start_cursor_def)
    have "s = u' @ q' # rest_of d" using goes_start [OF u'(1)] goes_rest [OF u'(3)] by simp
    then have "?u = u'"
      using takeWhile_split [of "\<lambda>c. \<not> re_space c" u' q' "rest_of d"] u'(2,4) by simp
    then show "pos_of d = Suc (length ?u) \<and> g = [(1, 0, length ?u)]"
      using u' goes_start [OF u'(1)] goes_pos [OF u'(3)] by simp
  qed
  moreover have "text_between s 0 (length ?u) = ?u" by (subst (1) s(1)) simp
  ultimately show ?thesis by (auto simp: group_text_def group_def)
qed

lemma close_raw_string_returns:
  assumes "one_line line" and "d = '')'' @ y @ [CHR 0x22]"
  shows "\<exists>d' line'. close_raw_string d line = Some (d', line') \<and> one_line line' \<and> (d' = None \<or> d' = Some d)"
proof (cases "py_find line d \<ge> 0")
  case False
  then show ?thesis by (simp add: close_raw_string_def one_line_def two_quotes_def newline_def)
next
  case True
  then obtain a b where "line = a @ d @ b" by (auto simp: py_find_nonneg contains_iff)
  then have "CHR '')'' \<in> set line" using assms(2) by simp
  moreover have "\<not> re_space (CHR '')'')" by (simp add: re_space_def code_def)
  ultimately have "list_ex (\<lambda>c. \<not> re_space c) line" by (auto simp: list_ex_iff)
  then obtain m where m: "Match re_leading_space line = Some (Some m)" "group_text m 1 = takeWhile re_space line"
    using leading_space_Some by blast
  have "one_line (takeWhile re_space line)" using assms(1) by (auto simp: one_line_def dest: set_takeWhileD)
  moreover have "one_line two_quotes" by (simp add: one_line_def two_quotes_def newline_def)
  ultimately show ?thesis
    using True m assms(1) one_line_drop by (simp add: close_raw_string_def Let_def)
qed

lemma CleanseRawStrings_from_returns:
  assumes "list_all one_line ls" and "\<forall>x. d = Some x \<longrightarrow> (\<exists>y. x = '')'' @ y @ [CHR 0x22])"
  shows "\<exists>ls'. CleanseRawStrings_from d ls = Some ls' \<and> length ls' = length ls \<and> list_all one_line ls'"
  using assms
proof (induction ls arbitrary: d)
  case Nil
  then show ?case by simp
next
  case (Cons l ls)
  then have l: "one_line l" by simp
  obtain d1 l1 where 1: "(case d of Some x \<Rightarrow> close_raw_string x l | None \<Rightarrow> Some (None, l)) = Some (d1, l1)"
    "one_line l1" "\<forall>x. d1 = Some x \<longrightarrow> (\<exists>y. x = '')'' @ y @ [CHR 0x22])"
  proof (cases d)
    case None
    then show thesis using that [of None l] l by simp
  next
    case (Some x)
    then obtain y where "x = '')'' @ y @ [CHR 0x22]" using Cons.prems(2) by blast
    then show thesis using close_raw_string_returns [OF l, of x y] that Some by auto
  qed
  obtain d2 l2 where 2: "(case d1 of None \<Rightarrow> raw_string_loop l1 | Some x \<Rightarrow> Some (Some x, l1)) = Some (d2, l2)"
    "one_line l2" "\<forall>x. d2 = Some x \<longrightarrow> (\<exists>y. x = '')'' @ y @ [CHR 0x22])"
  proof (cases d1)
    case None
    then show thesis using raw_string_loop_returns [OF 1(2)] that by auto
  next
    case (Some x)
    then show thesis using that 1 by auto
  qed
  obtain ls' where "CleanseRawStrings_from d2 ls = Some ls'" "length ls' = length ls" "list_all one_line ls'"
    using Cons.IH [OF _ 2(3)] Cons.prems(1) by auto
  with 1 2 show ?case by simp
qed

lemma those_map_returns:
  "(\<And>x. x \<in> set xs \<Longrightarrow> \<exists>y. f x = Some y) \<Longrightarrow> \<exists>ys. those_map f xs = Some ys \<and> length ys = length xs"
proof (induction xs)
  case (Cons x xs)
  then obtain y ys where "f x = Some y" "those_map f xs = Some ys" "length ys = length xs" by fastforce
  then show ?case by simp
qed simp

lemma init_CleansedLines_returns:
  assumes "list_all one_line ls"
  shows "\<exists>cl. init_CleansedLines ls = Some cl \<and> raw_lines cl = ls \<and>
    length (elided_lines cl) = length ls \<and> length (cleansed_lines cl) = length ls \<and>
    length (lines_without_raw_strings cl) = length ls \<and> NumLines cl = int (length ls)"
proof -
  obtain w where w: "CleanseRawStrings ls = Some w" "length w = length ls" "list_all one_line w"
    using CleanseRawStrings_from_returns [OF assms, of None] by (auto simp: CleanseRawStrings_def)
  let ?f = "\<lambda>line. do {
        cleansed \<leftarrow> CleanseComments line;
        collapsed \<leftarrow> CollapseStrings line;
        elided \<leftarrow> CleanseComments collapsed;
        Some (cleansed, elided)
      }"
  have "\<exists>y. ?f line = Some y" if "line \<in> set w" for line
  proof -
    have "one_line line" using that w(3) by (simp add: list_all_iff)
    then obtain c where "CollapseStrings line = Some c" using CollapseStrings_returns by blast
    moreover obtain a b where "CleanseComments line = Some a" "CleanseComments c = Some b"
      using CleanseComments_returns by blast
    ultimately show ?thesis by simp
  qed
  then obtain both where "those_map ?f w = Some both" "length both = length w"
    using those_map_returns [of w ?f] by blast
  with w show ?thesis by (simp add: init_CleansedLines_def NumLines_def)
qed

text \<open>
  C1. Cleansing ends and is total: for every file, split into lines, the constructor of
  \<^verbatim>\<open>CleansedLines\<close> returns (no loop runs forever, no \<^verbatim>\<open>None.group\<close> is ever taken), and the
  four copies of the lines have the length of the file, so every check may index any of them with
  the same line number.
\<close>

theorem CleansedLines_total:
  assumes "list_all one_line ls"
  shows "\<exists>cl. init_CleansedLines ls = Some cl \<and> raw_lines cl = ls \<and>
    length (elided_lines cl) = length ls \<and> length (cleansed_lines cl) = length ls \<and>
    length (lines_without_raw_strings cl) = length ls \<and> NumLines cl = int (length ls)"
  using assms by (rule init_CleansedLines_returns)

theorem CleansedLines_total_witness:
  "list_all one_line [''int x;'', ''/* y */''] \<and>
   (\<exists>cl. init_CleansedLines [''int x;'', ''/* y */''] = Some cl \<and> length (elided_lines cl) = 2)"
proof -
  have "list_all one_line [''int x;'', ''/* y */'']" by code_simp
  with CleansedLines_total [OF this] show ?thesis by auto
qed

section \<open>Removing multi-line comments\<close>

text \<open>Both searches return the first line from a given one on that satisfies a predicate.\<close>

definition first_from :: "('a \<Rightarrow> bool) \<Rightarrow> 'a list \<Rightarrow> nat \<Rightarrow> nat" where
  "first_from P ls i = i + length (takeWhile (\<lambda>l. \<not> P l) (drop i ls))"

lemma first_from_step: "i < length ls \<Longrightarrow> first_from P ls i = (if P (ls ! i) then i else first_from P ls (Suc i))"
  by (simp add: first_from_def Cons_nth_drop_Suc [symmetric])

lemma first_from_spec:
  assumes "i \<le> length ls"
  shows "i \<le> first_from P ls i" and "first_from P ls i \<le> length ls"
    and "\<And>j. i \<le> j \<Longrightarrow> j < first_from P ls i \<Longrightarrow> \<not> P (ls ! j)"
    and "first_from P ls i < length ls \<Longrightarrow> P (ls ! first_from P ls i)"
proof -
  let ?t = "takeWhile (\<lambda>l. \<not> P l) (drop i ls)"
  have len: "length ?t \<le> length ls - i"
    using length_takeWhile_le [of "\<lambda>l. \<not> P l" "drop i ls"] by simp
  then show "i \<le> first_from P ls i" "first_from P ls i \<le> length ls"
    using assms by (auto simp: first_from_def)
  show "\<not> P (ls ! j)" if "i \<le> j" "j < first_from P ls i" for j
  proof -
    have k: "j - i < length ?t" using that by (auto simp: first_from_def)
    then have "?t ! (j - i) = ls ! j" using that(1) len assms by (simp add: takeWhile_nth)
    with k show ?thesis by (metis (mono_tags) nth_mem set_takeWhileD)
  qed
  show "P (ls ! first_from P ls i)" if "first_from P ls i < length ls"
    using that nth_length_takeWhile [of "\<lambda>l. \<not> P l" "drop i ls"] by (auto simp: first_from_def)
qed

lemma FindNextMultiLineCommentStart_first:
  "i \<le> length ls \<Longrightarrow> FindNextMultiLineCommentStart ls i = first_from opens_comment ls i"
proof (induction ls i rule: FindNextMultiLineCommentStart.induct)
  case (1 ls i)
  then show ?case
    by (subst FindNextMultiLineCommentStart.simps) (auto simp: first_from_step first_from_def [of _ _ "length ls"])
qed

lemma FindNextMultiLineCommentEnd_first:
  "i \<le> length ls \<Longrightarrow>
    FindNextMultiLineCommentEnd ls i = first_from (\<lambda>l. endswith (py_strip l) ''*/'') ls i"
proof (induction ls i rule: FindNextMultiLineCommentEnd.induct)
  case (1 ls i)
  then show ?case
    by (subst FindNextMultiLineCommentEnd.simps) (auto simp: first_from_step first_from_def [of _ _ "length ls"])
qed

lemma range_removed_nth:
  "i < length ls \<Longrightarrow> RemoveMultiLineCommentsFromRange ls b e ! i =
     (if b \<le> i \<and> i < e then ''/**/'' else ls ! i)"
proof -
  have "i < length ls \<Longrightarrow> fold (\<lambda>i ls. ls[i := ''/**/'']) js ls ! i = (if i \<in> set js then ''/**/'' else ls ! i)"
    for js and ls :: "string list"
    by (induction js arbitrary: ls) (auto simp: nth_list_update)
  then show "i < length ls \<Longrightarrow> ?thesis" by (simp add: RemoveMultiLineCommentsFromRange_def)
qed

lemma cleared_opens_nothing: "\<not> opens_comment ''/**/''"
  by code_simp

text \<open>What the loop does from a line on, when no comment starts before that line.\<close>

definition comments_removed :: "string \<Rightarrow> string list \<Rightarrow> nat \<Rightarrow> string list \<times> event list \<Rightarrow> bool" where
  "comments_removed filename ls lineix r \<longleftrightarrow>
     length (fst r) = length ls \<and>
     (\<forall>i < length ls. fst r ! i = ls ! i \<or> lineix \<le> i \<and> fst r ! i = ''/**/'') \<and>
     (snd r = [] \<and> (\<forall>i < length ls. \<not> opens_comment (fst r ! i)) \<or>
      (\<exists>b < length ls. opens_comment (fst r ! b) \<and> (\<forall>i < b. \<not> opens_comment (fst r ! i)) \<and>
         (\<forall>i. b \<le> i \<and> i < length ls \<longrightarrow> fst r ! i = ls ! i \<and> \<not> endswith (py_strip (ls ! i)) ''*/'') \<and>
         snd r = [Report filename (int b + 1) ''readability/multiline_comment'' 5
                    ''Could not find end of multi-line comment'']))"

lemma comments_removed_range:
  assumes r: "comments_removed filename (RemoveMultiLineCommentsFromRange ls b (e + 1)) (e + 1) (ls', es)"
    and "lineix \<le> b" and "b \<le> e" and "e < length ls"
  shows "comments_removed filename ls lineix (ls', es)"
proof -
  let ?ls = "RemoveMultiLineCommentsFromRange ls b (e + 1)"
  have nth: "\<And>i. i < length ls \<Longrightarrow> ?ls ! i = (if b \<le> i \<and> i < e + 1 then ''/**/'' else ls ! i)"
    by (rule range_removed_nth)
  have "ls' ! i = ls ! i \<or> lineix \<le> i \<and> ls' ! i = ''/**/''" if i: "i < length ls" for i
  proof -
    have "ls' ! i = ?ls ! i \<or> e + 1 \<le> i \<and> ls' ! i = ''/**/''"
      using r i by (auto simp: comments_removed_def)
    with nth [OF i] assms(2,3) show ?thesis by (auto split: if_splits)
  qed
  moreover have "\<forall>i. k \<le> i \<and> i < length ls \<longrightarrow> ls' ! i = ls ! i \<and> \<not> endswith (py_strip (ls ! i)) ''*/''"
    if k: "k < length ls" "opens_comment (ls' ! k)"
      "\<forall>i. k \<le> i \<and> i < length ls \<longrightarrow> ls' ! i = ?ls ! i \<and> \<not> endswith (py_strip (?ls ! i)) ''*/''" for k
  proof -
    have "e < k"
    proof (rule ccontr)
      assume "\<not> e < k"
      then have "\<not> endswith (py_strip (?ls ! e)) ''*/''" using k(3) assms(4) by auto
      then have "\<not> endswith (py_strip ''/**/'') ''*/''" using nth assms(3,4) by simp
      then show False by code_simp
    qed
    then show ?thesis using k nth by auto
  qed
  ultimately show ?thesis using r unfolding comments_removed_def fst_conv snd_conv length_range_removed
    by blast
qed

lemma RemoveMultiLineComments_from_spec:
  assumes "\<forall>i < min lineix (length ls). \<not> opens_comment (ls ! i)"
  shows "comments_removed filename ls lineix (RemoveMultiLineComments_from filename ls lineix)"
  using assms
proof (induction filename ls lineix rule: RemoveMultiLineComments_from.induct)
  case (1 filename ls lineix)
  define b where "b = FindNextMultiLineCommentStart ls lineix"
  define e where "e = FindNextMultiLineCommentEnd ls b"
  consider "\<not> lineix < length ls" | "lineix < length ls" "\<not> b < length ls"
    | "lineix < length ls" "b < length ls" "\<not> e < length ls"
    | "lineix < length ls" "b < length ls" "e < length ls" by blast
  moreover
  have b: "lineix \<le> b" "b < length ls \<Longrightarrow> opens_comment (ls ! b)"
    and clean: "\<And>i. i < min b (length ls) \<Longrightarrow> \<not> opens_comment (ls ! i)" if "lineix < length ls"
    using first_from_spec [where i = lineix and ls = ls and P = opens_comment] that 1(2)
      FindNextMultiLineCommentStart_first [of lineix ls] unfolding b_def [symmetric]
    by (auto simp: min_def) (meson not_le)
  moreover
  have e: "b \<le> e" "\<forall>i. b \<le> i \<and> i < e \<longrightarrow> \<not> endswith (py_strip (ls ! i)) ''*/''" if "b < length ls"
    using first_from_spec [where i = b and ls = ls and P = "\<lambda>l. endswith (py_strip l) ''*/''"] that
      FindNextMultiLineCommentEnd_first [of b ls] unfolding e_def [symmetric] by auto
  note step = RemoveMultiLineComments_from.simps [of filename ls lineix, folded b_def, unfolded Let_def, folded e_def]
  ultimately show ?case
  proof cases
    case 1
    with \<open>\<forall>i < min lineix (length ls). \<not> opens_comment (ls ! i)\<close> show ?thesis
      by (simp add: step comments_removed_def min_def)
  next
    case 2
    with clean show ?thesis by (simp add: step comments_removed_def min_def)
  next
    case 3
    with b e clean show ?thesis by (simp add: step comments_removed_def min_def)
  next
    case 4
    let ?ls = "RemoveMultiLineCommentsFromRange ls b (e + 1)"
    have "\<forall>i < min (e + 1) (length ?ls). \<not> opens_comment (?ls ! i)"
      using clean [OF 4(1)] cleared_opens_nothing by (auto simp: range_removed_nth)
    then have ih: "comments_removed filename ?ls (e + 1) (RemoveMultiLineComments_from filename ?ls (e + 1))"
      using 1(1) [OF 4(1) b_def _ e_def] 4 by simp
    then show ?thesis
      using 4 b e comments_removed_range [of filename ls b e _ _ lineix]
      by (cases "RemoveMultiLineComments_from filename ?ls (e + 1)") (simp add: step)
  qed
qed



section \<open>Removing comments from a line\<close>

text \<open>The body of a C comment after its opening, followed by \<open>k\<close>.\<close>

definition comment_body_re :: re where
  "comment_body_re = RRepeat 0 None True (RAlt (RSet True [ItemChar (CHR ''*'')])
     (RSeq (RChar (CHR ''*'')) (RLook False (RChar (CHR ''/'')))))"

definition comment_opening :: "re \<Rightarrow> re" where
  "comment_opening k = RSeq (RChar (CHR ''/'')) (RSeq (RChar (CHR ''*'')) k)"

definition space_star :: re where
  "space_star = RRepeat 0 None True (RSet False [ItemCat CatSpace])"

definition space_plus :: re where
  "space_plus = RRepeat 1 None True (RSet False [ItemCat CatSpace])"

definition c_comments_re :: re where
  "c_comments_re =
    (let star = RChar (CHR ''*''); slash = RChar (CHR ''/'') in
     RGroup 1 (RAlt
      (RSeq space_star (comment_opening (RSeq comment_body_re (RSeq star (RSeq slash (RSeq space_star REnd))))))
      (RAlt (comment_opening (RSeq comment_body_re (RSeq star (RSeq slash space_plus))))
       (RAlt (RSeq space_plus (comment_opening (RSeq comment_body_re
               (RSeq star (RSeq slash (RLook True (RSet False [ItemCat CatNotWord])))))))
             (comment_opening (RSeq comment_body_re (RSeq star slash)))))))"

lemma c_comments_compiled [re_compiled]:
  "re_compile RE_PATTERN_CLEANSE_LINE_C_COMMENTS = Some (False, c_comments_re)"
  by code_simp

lemma c_comments_plain: "plain_look c_comments_re"
  by (simp add: c_comments_re_def Let_def comment_opening_def comment_body_re_def space_star_def space_plus_def)

lemma opening_denotes:
  assumes "denotes False s (comment_opening k) (c, g) y"
  shows "\<exists>v. rest_of c = ''/*'' @ v"
proof -
  obtain d h where y: "y = (d, h)" by (cases y)
  from assms obtain e f where "goes c ''/'' e" "goes e ''*'' f" unfolding y comment_opening_def reads by auto
  then show ?thesis using goes_rest by fastforce
qed

lemma c_comments_denotes:
  assumes "denotes False s c_comments_re (c, g) y"
  shows "\<exists>u v. rest_of c = u @ ''/*'' @ v"
proof -
  have space: "plain_look space_star" "no_groups space_star" "plain_look space_plus" "no_groups space_plus"
    by (simp_all add: space_star_def space_plus_def)
  obtain d h where y: "y = (d, h)" by (cases y)
  from assms obtain e k h' where "(\<exists>w. goes c w e) \<and> denotes False s (comment_opening k) (e, h') (d, tl h) "
    unfolding y c_comments_re_def Let_def reads
    using denotes_no_groups [OF space(1,2)] denotes_no_groups [OF space(3,4)]
    by (metis goes_Nil list.sel(3))
  then show ?thesis using opening_denotes goes_rest by fastforce
qed

lemma re_sub_no_match:
  assumes "\<And>c. advances (start_cursor s) c \<Longrightarrow> engine_of r s c [] = []"
  shows "re_sub r rep s = s"
proof -
  have "search_from (engine_of r s) (start_cursor s) = None"
    using assms by (simp add: compiled.search_from_None)
  then show ?thesis by (simp add: re_sub_def re_finditer_def all_matches_def)
qed

lemma c_comments_absent:
  assumes "\<not> contains s ''/*''"
  shows "ReplaceAll RE_PATTERN_CLEANSE_LINE_C_COMMENTS [] s = Some s"
proof -
  have "engine_of (False, c_comments_re) s c [] = []" if c: "advances (start_cursor s) c" for c
  proof (rule ccontr)
    assume "engine_of (False, c_comments_re) s c [] \<noteq> []"
    then obtain y where "y \<in> set (run False s c_comments_re c [])"
      by (metis engine_of_def fst_conv snd_conv list.set_intros(1) neq_Nil_conv)
    then have "denotes False s c_comments_re (c, []) y" by (simp only: run_denotes [OF c_comments_plain])
    then obtain u v where "rest_of c = u @ ''/*'' @ v" using c_comments_denotes by blast
    then have "s = (take (pos_of c) s @ u) @ ''/*'' @ v"
      using advances_start [OF c] by (metis append.assoc append_take_drop_id)
    with assms show False unfolding contains_iff by blast
  qed
  then show ?thesis
    by (simp add: ReplaceAll_compiled [OF c_comments_compiled] re_sub_no_match)
qed

lemma contains_append_left: "contains u p \<Longrightarrow> contains (u @ v) p"
  by (auto simp: contains_iff) blast

lemma contains_rstrip: "contains (py_rstrip u) p \<Longrightarrow> contains u p"
proof -
  have "u = py_rstrip u @ rev (takeWhile is_space (rev u))"
    unfolding py_rstrip_def by (metis rev_append rev_rev_ident takeWhile_dropWhile_id)
  then show "contains (py_rstrip u) p \<Longrightarrow> contains u p" by (metis contains_append_left)
qed

text \<open>
  Comments at the end of a line are removed and nothing else is: a line whose first
  \<^verbatim>\<open>//\<close> is not inside a string is cut there (and its trailing space dropped), a line whose first
  \<^verbatim>\<open>//\<close> is inside a string and a line with no comment mark at all come out unchanged.
\<close>

theorem CleanseComments_line:
  assumes "\<not> contains line ''/*''"
  shows "CleanseComments line =
    Some (case find_at line ''//'' of
            None \<Rightarrow> line
          | Some k \<Rightarrow> if IsCppString (take k line) then line else py_rstrip (take k line))"
proof (cases "find_at line ''//''")
  case None
  then show ?thesis using assms by (simp add: CleanseComments_def py_find_def c_comments_absent)
next
  case (Some k)
  have "\<not> contains (py_rstrip (take k line)) ''/*''"
    using assms contains_rstrip contains_append_left by (metis append_take_drop_id)
  moreover have "py_upto line (int k) = take k line"
    using find_at_Some [OF Some] by (simp add: py_upto_def)
  ultimately show ?thesis
    using assms Some by (simp add: CleanseComments_def py_find_def c_comments_absent Let_def)
qed

theorem CleanseComments_line_witness:
  "\<not> contains ''x = 1;  // one'' ''/*'' \<and> CleanseComments ''x = 1;  // one'' = Some ''x = 1;''"
proof -
  have no: "\<not> contains ''x = 1;  // one'' ''/*''" by code_simp
  have "(case find_at ''x = 1;  // one'' ''//'' of
            None \<Rightarrow> ''x = 1;  // one''
          | Some k \<Rightarrow> if IsCppString (take k ''x = 1;  // one'') then ''x = 1;  // one''
                      else py_rstrip (take k ''x = 1;  // one'')) = ''x = 1;''" by code_simp
  with no CleanseComments_line [OF no] show ?thesis by simp
qed

end
