(* ===== verification/Expressions.thy ===== *)
theory Expressions
  imports Cleanse
begin

text \<open>
  Matching brackets over the cleansed lines (\<^verbatim>\<open>script/cpplint.py\<close>, from
  \<^verbatim>\<open>FindEndOfExpressionInLine\<close> to \<^verbatim>\<open>ReverseCloseExpression\<close>, and \<^verbatim>\<open>_GetTextInside\<close>).

  A stack is a list whose head is its top (the last element of the Python list). The pairs the
  scanners return are the values of \<open>scan\<close>: \<open>Found i\<close> is \<^verbatim>\<open>(i, None)\<close>,
  \<open>Unclosed\<close> is \<^verbatim>\<open>(-1, None)\<close> and \<open>Pending stack\<close> is \<^verbatim>\<open>(-1, stack)\<close>.
\<close>

section \<open>Scanning forward\<close>

type_synonym stack = string

datatype scan = Found nat | Unclosed | Pending stack

definition re_operator :: string where
  "re_operator = raw ''`boperator`s*$''"

definition re_shift :: string where
  "re_shift = ''<[<=]''"

definition re_greater_equal :: string where
  "re_greater_equal = raw ''`s>=`s''"

fun closes :: "char \<Rightarrow> char \<Rightarrow> bool" where
  "closes open_char close_char \<longleftrightarrow>
     open_char = CHR ''('' \<and> close_char = CHR '')'' \<or>
     open_char = CHR ''['' \<and> close_char = CHR '']'' \<or>
     open_char = CHR ''{'' \<and> close_char = CHR ''}''"

declare closes.simps [simp del]

text \<open>\<^verbatim>\<open>stack.pop()\<close>, and the value returned when that empties the stack.\<close>

definition pop :: "stack \<Rightarrow> scan \<Rightarrow> scan" where
  "pop stack r = (if tl stack = [] then r else Pending (tl stack))"

text \<open>The loop that pops the given angle bracket.\<close>

definition drop_angles :: "char \<Rightarrow> stack \<Rightarrow> stack" where
  "drop_angles angle stack = dropWhile (\<lambda>c. c = angle) stack"

text \<open>
  One round of the loop: the result, or the stack to go on with (\<open>Pending\<close>).
\<close>

definition end_step :: "string \<Rightarrow> nat \<Rightarrow> stack \<Rightarrow> scan py" where
  "end_step line i stack =
     (let char = line ! i in
      if char \<in> set ''([{'' then Some (Pending (char # stack))
      else if char = CHR ''<'' then
        (if i > 0 \<and> line ! (i - 1) = CHR ''<''
         then Some (if stack \<noteq> [] \<and> hd stack = CHR ''<'' then pop stack Unclosed else Pending stack)
         else do {
           is_operator \<leftarrow> (if i > 0 then Searches re_operator (take i line) else Some False);
           Some (if is_operator then Pending stack else Pending (CHR ''<'' # stack))
         })
      else if char \<in> set '')]}'' then
        Some (let stack = drop_angles (CHR ''<'') stack in
              if stack = [] then Unclosed
              else if closes (hd stack) char then pop stack (Found (i + 1))
              else Unclosed)
      else if char = CHR ''>'' then do {
        ignored \<leftarrow> (if i > 0
                   then if line ! (i - 1) = CHR ''-'' then Some True
                        else Searches re_operator (take (i - 1) line)
                   else Some False);
        Some (if ignored then Pending stack
              else if stack \<noteq> [] \<and> hd stack = CHR ''<'' then pop stack (Found (i + 1))
              else Pending stack)
      }
      else if char = CHR '';'' then
        Some (let stack = drop_angles (CHR ''<'') stack in
              if stack = [] then Unclosed else Pending stack)
      else Some (Pending stack))"

function FindEndOfExpressionInLine :: "string \<Rightarrow> nat \<Rightarrow> stack \<Rightarrow> scan py" where
  "FindEndOfExpressionInLine line i stack =
     (if i < length line
      then do {
        r \<leftarrow> end_step line i stack;
        (case r of
           Pending stack \<Rightarrow> FindEndOfExpressionInLine line (i + 1) stack
         | _ \<Rightarrow> Some r)
      }
      else Some (Pending stack))"
  by pat_completeness auto
termination
  by (relation "measure (\<lambda>(line, i, stack). length line - i)") auto

declare FindEndOfExpressionInLine.simps [simp del]

text \<open>The position a caller sees: a line, its number and a column, -1 where nothing was found.\<close>

type_synonym position = "string \<times> int \<times> int"

function CloseExpression_loop :: "CleansedLines \<Rightarrow> string \<Rightarrow> int \<Rightarrow> stack \<Rightarrow> position py" where
  "CloseExpression_loop clean_lines line linenum stack =
     (if stack \<noteq> [] \<and> linenum < NumLines clean_lines - 1
      then do {
        line \<leftarrow> py_index (elided_lines clean_lines) (linenum + 1);
        r \<leftarrow> FindEndOfExpressionInLine line 0 stack;
        (case r of
           Found end_pos \<Rightarrow> Some (line, linenum + 1, int end_pos)
         | Unclosed \<Rightarrow> Some (line, NumLines clean_lines, - 1)
         | Pending stack \<Rightarrow> CloseExpression_loop clean_lines line (linenum + 1) stack)
      }
      else Some (line, NumLines clean_lines, - 1))"
  by pat_completeness auto
termination
  by (relation "measure (\<lambda>(clean_lines, line, linenum, stack). nat (NumLines clean_lines - linenum))") auto

declare CloseExpression_loop.simps [simp del]

definition CloseExpression :: "CleansedLines \<Rightarrow> int \<Rightarrow> nat \<Rightarrow> position py" where
  "CloseExpression clean_lines linenum pos = do {
     line \<leftarrow> py_index (elided_lines clean_lines) linenum;
     char \<leftarrow> py_index line (int pos);
     rejected \<leftarrow> (if char \<notin> set ''({[<'' then Some True else Matches re_shift (drop pos line));
     if rejected then Some (line, NumLines clean_lines, - 1)
     else do {
       r \<leftarrow> FindEndOfExpressionInLine line pos [];
       (case r of
          Found end_pos \<Rightarrow> Some (line, linenum, int end_pos)
        | Unclosed \<Rightarrow> Some (line, NumLines clean_lines, - 1)
        | Pending stack \<Rightarrow> CloseExpression_loop clean_lines line linenum stack)
     }
   }"

section \<open>Scanning backward\<close>

text \<open>
  One round at index \<open>i\<close>. An ignored \<^verbatim>\<open>>\<close> or \<^verbatim>\<open><\<close> skips the character before it as
  well: the second component is the number of characters left to scan.
\<close>

definition start_step :: "string \<Rightarrow> nat \<Rightarrow> stack \<Rightarrow> (scan \<times> nat) py" where
  "start_step line i stack =
     (let char = line ! i in
      if char \<in> set '')]}'' then Some (Pending (char # stack), i)
      else if char = CHR ''>'' then do {
        ignored \<leftarrow> (if i > 0
                   then if line ! (i - 1) = CHR ''-'' then Some True
                        else do {
                          greater_equal \<leftarrow> Matches re_greater_equal (drop (i - 1) line);
                          if greater_equal then Some True else Searches re_operator (take i line)
                        }
                   else Some False);
        Some (if ignored then (Pending stack, i - 1) else (Pending (CHR ''>'' # stack), i))
      }
      else if char = CHR ''<'' then
        (if i > 0 \<and> line ! (i - 1) = CHR ''<'' then Some (Pending stack, i - 1)
         else if stack \<noteq> [] \<and> hd stack = CHR ''>''
         then Some (pop stack (Found i), i)
         else Some (Pending stack, i))
      else if char \<in> set ''([{'' then
        Some (let stack = drop_angles (CHR ''>'') stack in
              if stack = [] then Unclosed
              else if closes char (hd stack) then pop stack (Found i)
              else Unclosed, i)
      else if char = CHR '';'' then
        Some (let stack = drop_angles (CHR ''>'') stack in
              if stack = [] then Unclosed else Pending stack, i)
      else Some (Pending stack, i))"

lemma start_step_less: "start_step line i stack = Some (r, n) \<Longrightarrow> n \<le> i"
  by (auto simp: start_step_def Let_def split: if_splits bind_splits)

text \<open>\<open>n\<close> is the number of characters still to be scanned: the loop variable is \<open>n - 1\<close>.\<close>

function FindStartOfExpressionInLine :: "string \<Rightarrow> nat \<Rightarrow> stack \<Rightarrow> scan py" where
  "FindStartOfExpressionInLine line n stack =
     (if n = 0 then Some (Pending stack)
      else case start_step line (n - 1) stack of
             None \<Rightarrow> raise
           | Some (r, k) \<Rightarrow>
               (case r of
                  Pending stack \<Rightarrow> FindStartOfExpressionInLine line k stack
                | _ \<Rightarrow> Some r))"
  by pat_completeness auto
termination
  by (relation "measure (\<lambda>(line, n, stack). n)") (auto dest!: start_step_less)

declare FindStartOfExpressionInLine.simps [simp del]

function ReverseCloseExpression_loop :: "CleansedLines \<Rightarrow> string \<Rightarrow> int \<Rightarrow> stack \<Rightarrow> position py" where
  "ReverseCloseExpression_loop clean_lines line linenum stack =
     (if stack \<noteq> [] \<and> linenum > 0
      then do {
        line \<leftarrow> py_index (elided_lines clean_lines) (linenum - 1);
        r \<leftarrow> FindStartOfExpressionInLine line (length line) stack;
        (case r of
           Found start_pos \<Rightarrow> Some (line, linenum - 1, int start_pos)
         | Unclosed \<Rightarrow> Some (line, 0, - 1)
         | Pending stack \<Rightarrow> ReverseCloseExpression_loop clean_lines line (linenum - 1) stack)
      }
      else Some (line, 0, - 1))"
  by pat_completeness auto
termination
  by (relation "measure (\<lambda>(clean_lines, line, linenum, stack). nat linenum)") auto

declare ReverseCloseExpression_loop.simps [simp del]

definition ReverseCloseExpression :: "CleansedLines \<Rightarrow> int \<Rightarrow> nat \<Rightarrow> position py" where
  "ReverseCloseExpression clean_lines linenum pos = do {
     line \<leftarrow> py_index (elided_lines clean_lines) linenum;
     char \<leftarrow> py_index line (int pos);
     if char \<notin> set '')}]>'' then Some (line, 0, - 1)
     else do {
       r \<leftarrow> FindStartOfExpressionInLine line (pos + 1) [];
       (case r of
          Found start_pos \<Rightarrow> Some (line, linenum, int start_pos)
        | Unclosed \<Rightarrow> Some (line, 0, - 1)
        | Pending stack \<Rightarrow> ReverseCloseExpression_loop clean_lines line linenum stack)
     }
   }"

section \<open>The text inside brackets\<close>

definition matching_punctuation :: "char \<rightharpoonup> char" where
  "matching_punctuation =
     [CHR ''('' \<mapsto> CHR '')'', CHR ''{'' \<mapsto> CHR ''}'', CHR ''['' \<mapsto> CHR '']'']"

definition closing_punctuation :: string where
  "closing_punctuation = '')}]''"

text \<open>The loop over the text: \<open>None\<close> for the early return, else the stack and the position left.\<close>

fun inside_loop :: "string \<Rightarrow> stack \<Rightarrow> nat \<Rightarrow> (stack \<times> nat) option" where
  "inside_loop text [] position = Some ([], position)"
| "inside_loop [] stack position = Some (stack, position)"
| "inside_loop (c # text) (expected # stack) position =
     (if c = expected then inside_loop text stack (position + 1)
      else if c \<in> set closing_punctuation then None
      else case matching_punctuation c of
             Some d \<Rightarrow> inside_loop text (d # expected # stack) (position + 1)
           | None \<Rightarrow> inside_loop text (expected # stack) (position + 1))"

text \<open>
  The search itself is made by the caller's pattern with \<^verbatim>\<open>re.M\<close>; the callers pass the text of one
  line and patterns without anchors, for which the flag has no effect. The result is \<open>None\<close> for an
  assertion that fails, \<open>Some None\<close> for the function's own \<^verbatim>\<open>None\<close>.
\<close>

definition GetTextInside :: "string \<Rightarrow> string \<Rightarrow> string option py" where
  "GetTextInside text start_pattern = do {
     matched \<leftarrow> Search start_pattern text;
     (case matched of
        None \<Rightarrow> Some None
      | Some m \<Rightarrow>
          if m_end m > 0
          then (case matching_punctuation (text ! (m_end m - 1)) of
                  None \<Rightarrow> raise
                | Some d \<Rightarrow>
                    Some (case inside_loop (drop (m_end m) text) [d] (m_end m) of
                            Some ([], position) \<Rightarrow> Some (text_between text (m_end m) (position - 1))
                          | _ \<Rightarrow> None))
          else raise)
   }"

section \<open>The closing bracket is of the right kind\<close>

definition bracket_pair :: "char \<Rightarrow> char \<Rightarrow> bool" where
  "bracket_pair a b \<longleftrightarrow> closes a b \<or> a = CHR ''<'' \<and> b = CHR ''>''"

lemma re_operator_compiled [re_compiled]: "re_compile re_operator \<noteq> None"
  by code_simp

lemma re_shift_compiled [re_compiled]: "re_compile re_shift \<noteq> None"
  by code_simp

lemma re_greater_equal_compiled [re_compiled]: "re_compile re_greater_equal \<noteq> None"
  by code_simp

lemma set_elems:
  assumes "x \<in> set [a, b, c]"
  obtains "x = a" | "x = b" | "x = c"
  using assms by auto

text \<open>What a round keeps of the stack: its bottom, the bracket the scan started from.\<close>

definition scan_ok :: "char \<Rightarrow> (nat \<Rightarrow> bool) \<Rightarrow> scan \<Rightarrow> bool" where
  "scan_ok bottom P r = (case r of
     Found e \<Rightarrow> P e
   | Unclosed \<Rightarrow> True
   | Pending stack \<Rightarrow> stack \<noteq> [] \<and> last stack = bottom)"

lemma scan_ok_simps [simp]:
  "scan_ok bottom P (Found e) \<longleftrightarrow> P e"
  "scan_ok bottom P Unclosed"
  "scan_ok bottom P (Pending stack) \<longleftrightarrow> stack \<noteq> [] \<and> last stack = bottom"
  by (simp_all add: scan_ok_def)

lemma scan_ok_mono: "scan_ok bottom P r \<Longrightarrow> (\<And>e. P e \<Longrightarrow> Q e) \<Longrightarrow> scan_ok bottom Q r"
  by (cases r) auto

lemma pop_ok:
  "stack \<noteq> [] \<Longrightarrow> (hd stack = last stack \<Longrightarrow> scan_ok (last stack) P r) \<Longrightarrow> scan_ok (last stack) P (pop stack r)"
  by (cases stack) (auto simp: pop_def)

lemma drop_angles_last: "drop_angles a stack \<noteq> [] \<Longrightarrow> last (drop_angles a stack) = last stack"
  unfolding drop_angles_def by (metis dropWhile_eq_drop last_drop drop_eq_Nil not_le)

text \<open>A closing bracket, and a statement's end: the pending angle brackets go.\<close>

lemma close_bracket_ok:
  assumes "\<And>a. closes a c \<Longrightarrow> P e a"
  shows "scan_ok (last stack) (\<lambda>e. P e (last stack))
    (let stack = drop_angles a stack in
     if stack = [] then Unclosed else if closes (hd stack) c then pop stack (Found e) else Unclosed)"
proof -
  let ?s = "drop_angles a stack"
  have "scan_ok (last stack) (\<lambda>e. P e (last stack)) (pop ?s (Found e))"
    if "?s \<noteq> []" "closes (hd ?s) c"
  proof -
    have "hd ?s = last ?s \<Longrightarrow> scan_ok (last ?s) (\<lambda>e. P e (last stack)) (Found e)"
      using assms [OF that(2)] drop_angles_last [OF that(1)] by simp
    then show ?thesis using pop_ok [OF that(1)] drop_angles_last [OF that(1)] by metis
  qed
  then show ?thesis by (auto simp: Let_def)
qed

lemma semicolon_ok:
  "scan_ok (last stack) P (let stack = drop_angles a stack in if stack = [] then Unclosed else Pending stack)"
  using drop_angles_last [of a stack] by (auto simp: Let_def)

lemma end_step_ok:
  assumes "stack \<noteq> []"
  shows "\<exists>r. end_step line i stack = Some r \<and>
    scan_ok (last stack) (\<lambda>e. e = i + 1 \<and> bracket_pair (last stack) (line ! i)) r"
proof -
  obtain b1 where b1: "(if i > 0 then Searches re_operator (take i line) else Some False) = Some b1"
    using Searches_returns [OF re_operator_compiled] by (cases "i > 0") auto
  obtain b2 where b2: "(if i > 0 then if line ! (i - 1) = CHR ''-'' then Some True
      else Searches re_operator (take (i - 1) line) else Some False) = Some b2"
    using Searches_returns [OF re_operator_compiled, of "take (i - 1) line"] by metis
  let ?P = "\<lambda>e. e = i + 1 \<and> bracket_pair (last stack) (line ! i)"
  consider (opens) "line ! i \<in> set ''([{''" | (less) "line ! i = CHR ''<''"
    | (closing) "line ! i \<in> set '')]}''" | (greater) "line ! i = CHR ''>''"
    | (semicolon) "line ! i = CHR '';''"
    | (other) "line ! i \<notin> set ''([{<)]}>;''" by auto
  then show ?thesis
  proof cases
    case opens
    then show ?thesis using assms by (auto simp: end_step_def)
  next
    case less
    then have "end_step line i stack = Some (if i > 0 \<and> line ! (i - 1) = CHR ''<''
        then if stack \<noteq> [] \<and> hd stack = CHR ''<'' then pop stack Unclosed else Pending stack
        else if b1 then Pending stack else Pending (CHR ''<'' # stack))"
      using b1 by (cases "i > 0") (simp_all add: end_step_def Let_def)
    then show ?thesis using assms pop_ok [OF assms, of ?P Unclosed] by simp
  next
    case closing
    have "end_step line i stack = Some (let stack = drop_angles (CHR ''<'') stack in
        if stack = [] then Unclosed else if closes (hd stack) (line ! i) then pop stack (Found (i + 1)) else Unclosed)"
      using closing by (elim set_elems) (simp_all add: end_step_def Let_def)
    moreover have "scan_ok (last stack) ?P (let stack = drop_angles (CHR ''<'') stack in
        if stack = [] then Unclosed else if closes (hd stack) (line ! i) then pop stack (Found (i + 1)) else Unclosed)"
      by (rule close_bracket_ok) (simp add: bracket_pair_def)
    ultimately show ?thesis by blast
  next
    case greater
    then have "end_step line i stack = Some (if b2 then Pending stack
        else if stack \<noteq> [] \<and> hd stack = CHR ''<'' then pop stack (Found (i + 1)) else Pending stack)"
      using b2 by (simp add: end_step_def)
    then show ?thesis using assms pop_ok [OF assms, of ?P "Found (i + 1)"] greater
      by (auto simp: bracket_pair_def)
  next
    case semicolon
    then show ?thesis using semicolon_ok [of stack ?P "CHR ''<''"] by (simp add: end_step_def)
  next
    case other
    then show ?thesis using assms by (auto simp: end_step_def)
  qed
qed

lemma FindEnd_ok:
  assumes "stack \<noteq> []"
  shows "\<exists>r. FindEndOfExpressionInLine line i stack = Some r \<and>
    scan_ok (last stack) (\<lambda>e. i < e \<and> e \<le> length line \<and> bracket_pair (last stack) (line ! (e - 1))) r"
  using assms
proof (induction line i stack rule: FindEndOfExpressionInLine.induct)
  case (1 line i stack)
  show ?case
  proof (cases "i < length line")
    case False
    with 1(2) show ?thesis by (subst FindEndOfExpressionInLine.simps) (simp add: scan_ok_def)
  next
    case True
    obtain r where r: "end_step line i stack = Some r"
      and ok: "scan_ok (last stack) (\<lambda>e. e = i + 1 \<and> bracket_pair (last stack) (line ! i)) r"
      using end_step_ok [OF 1(2)] by blast
    show ?thesis
    proof (cases r)
      case (Pending stack')
      with ok have s': "stack' \<noteq> []" "last stack' = last stack" by auto
      obtain r' where r': "FindEndOfExpressionInLine line (i + 1) stack' = Some r'"
        "scan_ok (last stack) (\<lambda>e. i + 1 < e \<and> e \<le> length line \<and> bracket_pair (last stack) (line ! (e - 1))) r'"
        using 1(1) [OF True r Pending s'(1)] s'(2) by auto
      with Pending r True show ?thesis
        by (subst FindEndOfExpressionInLine.simps) (auto elim: scan_ok_mono)
    qed (use True r ok in \<open>subst FindEndOfExpressionInLine.simps, auto\<close>)+
  qed
qed

text \<open>The part of the constructor's guarantee the scanners rely on.\<close>

definition lines_ok :: "CleansedLines \<Rightarrow> bool" where
  "lines_ok cl \<longleftrightarrow> NumLines cl = int (length (elided_lines cl))"

definition closed_by :: "CleansedLines \<Rightarrow> char \<Rightarrow> int \<Rightarrow> position \<Rightarrow> bool" where
  "closed_by cl a linenum p = (case p of (line, ln, e) \<Rightarrow>
     e = - 1 \<and> ln = NumLines cl \<or>
     linenum \<le> ln \<and> ln < NumLines cl \<and> line = elided_lines cl ! nat ln \<and>
       0 < e \<and> e \<le> int (length line) \<and> bracket_pair a (line ! nat (e - 1)))"

lemma CloseExpression_loop_ok:
  assumes "lines_ok cl" and "0 \<le> linenum" and "stack \<noteq> []"
  shows "\<exists>p. CloseExpression_loop cl line linenum stack = Some p \<and> closed_by cl (last stack) linenum p"
  using assms
proof (induction cl line linenum stack rule: CloseExpression_loop.induct)
  case (1 cl line linenum stack)
  show ?case
  proof (cases "linenum < NumLines cl - 1")
    case False
    then show ?thesis by (subst CloseExpression_loop.simps) (simp add: closed_by_def)
  next
    case True
    let ?l = "elided_lines cl ! nat (linenum + 1)"
    have l: "py_index (elided_lines cl) (linenum + 1) = Some ?l"
      using True 1(2,3) by (intro py_index_in_range) (auto simp: lines_ok_def)
    obtain r where r: "FindEndOfExpressionInLine ?l 0 stack = Some r"
      and ok: "scan_ok (last stack) (\<lambda>e. 0 < e \<and> e \<le> length ?l \<and> bracket_pair (last stack) (?l ! (e - 1))) r"
      using FindEnd_ok [OF 1(4), of ?l 0] by blast
    show ?thesis
    proof (cases r)
      case (Found e)
      then have "closed_by cl (last stack) linenum (?l, linenum + 1, int e)"
        using ok True by (simp add: closed_by_def nat_diff_distrib)
      with Found r l True 1(4) show ?thesis
        by (subst CloseExpression_loop.simps) simp
    next
      case Unclosed
      with r l True 1(4) show ?thesis
        by (subst CloseExpression_loop.simps) (simp add: closed_by_def)
    next
      case (Pending stack')
      with ok have s': "stack' \<noteq> []" "last stack' = last stack" by auto
      obtain p where "CloseExpression_loop cl ?l (linenum + 1) stack' = Some p"
        "closed_by cl (last stack') (linenum + 1) p"
        using 1(1) [OF conjI [OF 1(4) True] l r Pending] 1(2,3) s'(1) by auto
      with s'(2) Pending r l True 1(4) show ?thesis
        by (subst CloseExpression_loop.simps) (auto simp: closed_by_def)
    qed
  qed
qed

text \<open>
  An opening angle bracket the scan pushes: it is not the second of a shift and does not belong to
  the name of an operator.
\<close>

definition pushes_angle :: "string \<Rightarrow> nat \<Rightarrow> bool" where
  "pushes_angle line pos \<longleftrightarrow>
     pos = 0 \<or> line ! (pos - 1) \<noteq> CHR ''<'' \<and> Searches re_operator (take pos line) = Some False"

lemma end_step_first:
  assumes "line ! pos \<in> set ''([{'' \<or> line ! pos = CHR ''<'' \<and> pushes_angle line pos"
  shows "end_step line pos [] = Some (Pending [line ! pos])"
proof (cases "line ! pos \<in> set ''([{''")
  case True
  then show ?thesis by (simp add: end_step_def)
next
  case False
  with assms have "line ! pos = CHR ''<''" "pushes_angle line pos" by blast+
  then show ?thesis by (cases "pos > 0") (simp_all add: end_step_def Let_def pushes_angle_def)
qed


definition sample_lines :: CleansedLines where
  "sample_lines = \<lparr>elided_lines = [''f(a, {b[1]},'', ''  c);''], cleansed_lines = [''f(a, {b[1]},'', ''  c);''],
     raw_lines = [''f(a, {b[1]},'', ''  c);''], num_lines = 2,
     lines_without_raw_strings = [''f(a, {b[1]},'', ''  c);'']\<rparr>"


section \<open>Balanced text\<close>

text \<open>
  The reference for text without angle brackets: a stack machine that reads one character after the
  other, in the direction \<open>rtl\<close> (\<open>True\<close>: from right to left, so that closing brackets open).
  \<open>Found k\<close> is the number of characters read when the stack is empty.
\<close>

definition openers :: "bool \<Rightarrow> string" where
  "openers rtl = (if rtl then '')]}'' else ''([{'')"

definition pairs :: "bool \<Rightarrow> char \<Rightarrow> char \<Rightarrow> bool" where
  "pairs rtl a b = (if rtl then closes b a else closes a b)"

fun bracket_run :: "bool \<Rightarrow> stack \<Rightarrow> string \<Rightarrow> nat \<Rightarrow> scan" where
  "bracket_run rtl stack [] k = Pending stack"
| "bracket_run rtl stack (c # w) k =
     (if c \<in> set (openers rtl) then bracket_run rtl (c # stack) w (k + 1)
      else if c \<in> set (openers (\<not> rtl))
      then if pairs rtl (hd stack) c
           then if tl stack = [] then Found (k + 1) else bracket_run rtl (tl stack) w (k + 1)
           else Unclosed
      else bracket_run rtl stack w (k + 1))"

definition angle_free :: "string \<Rightarrow> bool" where
  "angle_free w \<longleftrightarrow> CHR ''<'' \<notin> set w \<and> CHR ''>'' \<notin> set w"

definition stack_ok :: "bool \<Rightarrow> stack \<Rightarrow> bool" where
  "stack_ok rtl stack \<longleftrightarrow> stack \<noteq> [] \<and> set stack \<subseteq> set (openers rtl)"

text \<open>Text in which every bracket is closed by one of its kind, properly nested.\<close>

inductive balanced :: "bool \<Rightarrow> string \<Rightarrow> bool" for rtl where
  empty: "balanced rtl []"
| plain: "c \<notin> set ''()[]{}<>'' \<Longrightarrow> balanced rtl w \<Longrightarrow> balanced rtl (c # w)"
| nested: "pairs rtl a b \<Longrightarrow> balanced rtl u \<Longrightarrow> balanced rtl w \<Longrightarrow> balanced rtl (a # u @ b # w)"

lemma pairs_openers: "pairs rtl a b \<Longrightarrow> a \<in> set (openers rtl) \<and> b \<in> set (openers (\<not> rtl))"
  by (auto simp: pairs_def openers_def closes.simps split: if_splits)

lemma openers_disjoint: "c \<in> set (openers (\<not> rtl)) \<Longrightarrow> c \<notin> set (openers rtl)"
  by (auto simp: openers_def split: if_splits)

lemma openers_not_angle:
  "c \<in> set (openers rtl) \<Longrightarrow> c \<noteq> CHR ''<''"
  "c \<in> set (openers rtl) \<Longrightarrow> c \<noteq> CHR ''>''"
  by (auto simp: openers_def split: if_splits)

lemma plain_not_opener: "c \<notin> set ''()[]{}<>'' \<Longrightarrow> c \<notin> set (openers rtl)"
  by (auto simp: openers_def split: if_splits)

lemma balanced_angle_free: "balanced rtl w \<Longrightarrow> angle_free w"
proof (induction rule: balanced.induct)
  case (nested a b u w)
  then show ?case using pairs_openers [OF nested(1)] openers_not_angle by (auto simp: angle_free_def)
qed (auto simp: angle_free_def)

lemma balanced_append: "balanced rtl u \<Longrightarrow> balanced rtl w \<Longrightarrow> balanced rtl (u @ w)"
  by (induction rule: balanced.induct) (auto intro: balanced.intros)

lemma balanced_rev: "balanced rtl w \<Longrightarrow> balanced (\<not> rtl) (rev w)"
proof (induction rule: balanced.induct)
  case (nested a b u w)
  have "pairs (\<not> rtl) b a" using nested(1) by (simp add: pairs_def split: if_splits)
  then have "balanced (\<not> rtl) (b # rev u @ a # [])"
    using nested by (intro balanced.nested balanced.empty) auto
  then show ?case using balanced_append nested by fastforce
next
  case (plain c w)
  then have "balanced (\<not> rtl) [c]" by (intro balanced.plain balanced.empty)
  with plain show ?case by (simp add: balanced_append)
qed (auto intro: balanced.intros)

lemma bracket_run_balanced:
  "balanced rtl w \<Longrightarrow> stack_ok rtl stack \<Longrightarrow>
    bracket_run rtl stack (w @ v) k = bracket_run rtl stack v (k + length w)"
proof (induction arbitrary: stack v k rule: balanced.induct)
  case empty
  then show ?case by simp
next
  case (plain c w)
  then show ?case using plain_not_opener [of c] by simp
next
  case (nested a b u w)
  have ab: "a \<in> set (openers rtl)" "b \<in> set (openers (\<not> rtl))" "b \<notin> set (openers rtl)"
    using pairs_openers [OF nested(1)] openers_disjoint by auto
  then have "stack_ok rtl (a # stack)" using nested.prems by (simp add: stack_ok_def)
  then have "bracket_run rtl stack ((a # u @ b # w) @ v) k =
      bracket_run rtl (a # stack) (b # w @ v) (k + 1 + length u)"
    using ab(1) nested.IH(1) [of "a # stack" "b # w @ v" "k + 1"] by simp
  also have "\<dots> = bracket_run rtl stack (w @ v) (k + 1 + length u + 1)"
    using ab nested.prems nested(1) by (simp add: stack_ok_def)
  also have "\<dots> = bracket_run rtl stack v (k + length (a # u @ b # w))"
    using nested.IH(2) [OF nested.prems] by (simp add: add.assoc add.commute add.left_commute)
  finally show ?case .
qed

lemma bracket_run_shift:
  "bracket_run rtl stack w (k + j) =
     (case bracket_run rtl stack w k of Found n \<Rightarrow> Found (n + j) | r \<Rightarrow> r)"
proof (induction w arbitrary: stack k)
  case (Cons c w)
  from Cons [of _ "Suc k"] show ?case by simp
qed simp

lemma bracket_run_append:
  "bracket_run rtl stack (u @ w) k =
     (case bracket_run rtl stack u k of
        Pending stack' \<Rightarrow> bracket_run rtl stack' w (k + length u) | r \<Rightarrow> r)"
proof (induction u arbitrary: stack k)
  case (Cons c u)
  have eq: "k + length (c # u) = Suc k + length u" by simp
  from Cons [of _ "Suc k"] show ?case unfolding eq by simp
qed simp

lemma bracket_run_Found: "bracket_run rtl stack w k = Found n \<Longrightarrow> n \<le> k + length w"
proof (induction w arbitrary: stack k)
  case (Cons c w)
  from Cons.prems show ?case by (auto dest!: Cons.IH split: if_splits)
qed simp

lemma bracket_run_stack_ok:
  "bracket_run rtl stack w k = Pending stack' \<Longrightarrow> stack_ok rtl stack \<Longrightarrow> stack_ok rtl stack'"
proof (induction w arbitrary: stack k)
  case Nil
  then show ?case by simp
next
  case (Cons c w)
  have "stack_ok rtl (c # stack)" if "c \<in> set (openers rtl)"
    using Cons.prems(2) that by (auto simp: stack_ok_def)
  moreover have "stack_ok rtl (tl stack)" if "tl stack \<noteq> []"
    using Cons.prems(2) that by (auto simp: stack_ok_def dest: list.set_sel(2))
  ultimately show ?case using Cons by (auto split: if_splits)
qed

text \<open>A balanced text closed by the bracket on the stack.\<close>

lemma bracket_run_closed:
  assumes "pairs rtl a b" and "balanced rtl w"
  shows "bracket_run rtl [a] (w @ [b]) 0 = Found (length w + 1)"
proof -
  have ab: "a \<in> set (openers rtl)" "b \<in> set (openers (\<not> rtl))" "b \<notin> set (openers rtl)"
    using pairs_openers [OF assms(1)] openers_disjoint by auto
  then have "bracket_run rtl [a] (w @ [b]) 0 = bracket_run rtl [a] [b] (length w)"
    using bracket_run_balanced [OF assms(2), of "[a]" "[b]" 0] by (simp add: stack_ok_def)
  with ab assms(1) show ?thesis by simp
qed

section \<open>The scanners follow the reference\<close>

lemma drop_angles_id:
  "stack_ok rtl stack \<Longrightarrow> a = CHR ''<'' \<or> a = CHR ''>'' \<Longrightarrow> drop_angles a stack = stack"
  by (cases stack) (auto simp: drop_angles_def stack_ok_def dest: openers_not_angle)

lemma char_kinds:
  obtains "c \<in> set ''([{''" | "c \<in> set '')]}''" | "c = CHR ''<''" | "c = CHR ''>''" | "c = CHR '';''"
  | "c \<notin> set ''([{'' \<and> c \<notin> set '')]}'' \<and> c \<noteq> CHR ''<'' \<and> c \<noteq> CHR ''>'' \<and> c \<noteq> CHR '';''"
  by blast

lemma end_step_run:
  assumes "stack_ok False stack" and "line ! i \<noteq> CHR ''<''" and "line ! i \<noteq> CHR ''>''"
  shows "end_step line i stack = Some
    (if line ! i \<in> set ''([{'' then Pending (line ! i # stack)
     else if line ! i \<in> set '')]}''
     then if closes (hd stack) (line ! i) then pop stack (Found (i + 1)) else Unclosed
     else Pending stack)"
proof -
  have s: "stack \<noteq> []" "drop_angles (CHR ''<'') stack = stack"
    using assms(1) drop_angles_id by (auto simp: stack_ok_def)
  from assms(2,3) show ?thesis
    by (cases rule: char_kinds [of "line ! i"]) (simp_all add: end_step_def Let_def s del: list.set)
qed

lemma FindEnd_run:
  assumes "drop i line = u @ v" and "angle_free u" and "stack_ok False stack"
  shows "FindEndOfExpressionInLine line i stack =
    (case bracket_run False stack u i of
       Pending stack' \<Rightarrow> FindEndOfExpressionInLine line (i + length u) stack'
     | r \<Rightarrow> Some r)"
  using assms
proof (induction u arbitrary: i stack)
  case Nil
  then show ?case by simp
next
  case (Cons c u)
  have i: "i < length line" using Cons.prems(1) by (metis append_Cons drop_eq_Nil list.distinct(1) not_le)
  then have c: "line ! i = c" "drop (Suc i) line = u @ v"
    using Cons.prems(1) by (auto simp: Cons_nth_drop_Suc [symmetric])
  have u: "angle_free u" "c \<noteq> CHR ''<''" "c \<noteq> CHR ''>''" using Cons.prems(2) by (auto simp: angle_free_def)
  note step = end_step_run [OF Cons.prems(3), of line i, unfolded c(1), OF u(2,3)]
  note ih = Cons.IH [OF c(2) u(1)]
  have "stack_ok False (c # stack)" if "c \<in> set ''([{''"
    using Cons.prems(3) that by (auto simp: stack_ok_def openers_def)
  moreover have "stack_ok False (tl stack)" if "tl stack \<noteq> []"
    using Cons.prems(3) that by (auto simp: stack_ok_def dest: list.set_sel(2))
  moreover have eq: "i + length (c # u) = Suc i + length u" by simp
  ultimately show ?case
    unfolding eq using i ih Cons.prems(3)
    by (subst FindEndOfExpressionInLine.simps)
      (simp add: step pop_def openers_def pairs_def del: list.set set_simps)
qed

lemma start_step_run:
  assumes "stack_ok True stack" and "line ! i \<noteq> CHR ''<''" and "line ! i \<noteq> CHR ''>''"
  shows "start_step line i stack = Some
    (if line ! i \<in> set '')]}'' then Pending (line ! i # stack)
     else if line ! i \<in> set ''([{''
     then if closes (line ! i) (hd stack) then pop stack (Found i) else Unclosed
     else Pending stack, i)"
proof -
  have s: "stack \<noteq> []" "drop_angles (CHR ''>'') stack = stack"
    using assms(1) drop_angles_id by (auto simp: stack_ok_def)
  have "set ''([{'' \<inter> set '')]}'' = {}" by simp
  with assms(2,3) show ?thesis
    by (cases rule: char_kinds [of "line ! i"]) (auto simp: start_step_def Let_def s simp del: list.set)
qed

lemma FindStart_run:
  assumes "take n line = v @ rev u" and "n \<le> length line" and "angle_free u" and "stack_ok True stack"
  shows "FindStartOfExpressionInLine line n stack =
    (case bracket_run True stack u k of
       Pending stack' \<Rightarrow> FindStartOfExpressionInLine line (n - length u) stack'
     | Found j \<Rightarrow> Some (Found (n + k - j))
     | Unclosed \<Rightarrow> Some Unclosed)"
  using assms
proof (induction u arbitrary: n stack k)
  case Nil
  then show ?case by simp
next
  case (Cons c u)
  obtain i where i: "n = Suc i" using Cons.prems(1) by (cases n) auto
  then have c: "line ! i = c" "take i line = v @ rev u"
    using Cons.prems(1,2) by (auto simp: take_Suc_conv_app_nth)
  have u: "angle_free u" "c \<noteq> CHR ''<''" "c \<noteq> CHR ''>''" using Cons.prems(3) by (auto simp: angle_free_def)
  note step = start_step_run [OF Cons.prems(4), of line i, unfolded c(1), OF u(2,3)]
  have il: "i \<le> length line" using Cons.prems(2) i by simp
  note ih = Cons.IH [OF c(2) il u(1), of _ "Suc k"]
  have "stack_ok True (c # stack)" if "c \<in> set '')]}''"
    using Cons.prems(4) that by (auto simp: stack_ok_def openers_def)
  moreover have "stack_ok True (tl stack)" if "tl stack \<noteq> []"
    using Cons.prems(4) that by (auto simp: stack_ok_def dest: list.set_sel(2))
  moreover have eq: "n - length (c # u) = i - length u" "\<And>j. n + k - j = i + Suc k - j" using i by simp_all
  ultimately show ?case
    unfolding eq using i ih Cons.prems(4)
    by (subst FindStartOfExpressionInLine.simps)
      (simp add: step pop_def openers_def pairs_def del: list.set set_simps)
qed

section \<open>Expressions over several lines\<close>

text \<open>The text of the elided lines from a column of one line up to a column of another.\<close>

definition text_from_to :: "CleansedLines \<Rightarrow> nat \<Rightarrow> nat \<Rightarrow> nat \<Rightarrow> nat \<Rightarrow> string" where
  "text_from_to cl n pos m e =
     (if n = m then text_between (elided_lines cl ! n) pos e
      else drop pos (elided_lines cl ! n) @ concat (map ((!) (elided_lines cl)) [Suc n..<m]) @
           take e (elided_lines cl ! m))"

lemma FindEnd_at_end: "FindEndOfExpressionInLine line (length line) stack = Some (Pending stack)"
  by (simp add: FindEndOfExpressionInLine.simps)

lemma FindStart_at_start: "FindStartOfExpressionInLine line 0 stack = Some (Pending stack)"
  by (simp add: FindStartOfExpressionInLine.simps)

text \<open>A run that succeeds only at the end of the text goes over the first part of it.\<close>

lemma bracket_run_first_part:
  assumes "bracket_run rtl stack (u @ w) 0 = Found (length (u @ w))" and "w \<noteq> []"
    and "stack_ok rtl stack"
  obtains stack' where "bracket_run rtl stack u 0 = Pending stack'"
    and "bracket_run rtl stack' w 0 = Found (length w)" and "stack_ok rtl stack'"
proof (cases "bracket_run rtl stack u 0")
  case (Found j)
  then show thesis using assms(1,2) bracket_run_Found [OF Found] by (simp add: bracket_run_append)
next
  case Unclosed
  then show thesis using assms(1) by (simp add: bracket_run_append)
next
  case (Pending stack')
  then have "bracket_run rtl stack' w (0 + length u) = Found (length (u @ w))"
    using assms(1) by (simp add: bracket_run_append)
  then have "bracket_run rtl stack' w 0 = Found (length w)"
    unfolding bracket_run_shift [of rtl stack' w 0 "length u"] by (auto split: scan.splits)
  with Pending show thesis using that bracket_run_stack_ok [OF Pending assms(3)] by blast
qed

lemma CloseExpression_loop_run:
  assumes "lines_ok cl" and "n < m" and "m < length (elided_lines cl)"
    and "0 < e" and "e \<le> length (elided_lines cl ! m)" and "stack_ok False stack"
    and "u = concat (map ((!) (elided_lines cl)) [Suc n..<m]) @ take e (elided_lines cl ! m)"
    and "angle_free u" and "bracket_run False stack u 0 = Found (length u)"
  shows "CloseExpression_loop cl line (int n) stack = Some (elided_lines cl ! m, int m, int e)"
  using assms
proof (induction "m - n" arbitrary: n line stack u)
  case 0
  then show ?case by simp
next
  case (Suc d)
  let ?L = "elided_lines cl"
  let ?l = "?L ! Suc n"
  have l: "py_index ?L (int n + 1) = Some ?l"
    using py_index_nat [of "Suc n" ?L] Suc.prems(2,3) by (simp add: add.commute)
  have go: "stack \<noteq> [] \<and> int n < NumLines cl - 1"
    using Suc.prems(1,2,3,6) by (simp add: lines_ok_def stack_ok_def)
  show ?case
  proof (cases "Suc n = m")
    case True
    then have u: "u = take e ?l" using Suc.prems(7) by simp
    then have "FindEndOfExpressionInLine ?l 0 stack = Some (Found e)"
      using FindEnd_run [of 0 ?l u "drop e ?l" stack] Suc.prems True by simp
    with l go True show ?thesis by (subst CloseExpression_loop.simps) (simp add: add.commute)
  next
    case False
    with Suc.prems(2) have m: "Suc n < m" by simp
    let ?w = "concat (map ((!) ?L) [Suc (Suc n)..<m]) @ take e (?L ! m)"
    have u: "u = ?l @ ?w" using Suc.prems(7) m by (simp add: upt_conv_Cons)
    have w: "?w \<noteq> []" "angle_free ?l" "angle_free ?w"
      using Suc.prems(4,5,8) u by (auto simp: angle_free_def)
    obtain stack' where s': "bracket_run False stack ?l 0 = Pending stack'"
      "bracket_run False stack' ?w 0 = Found (length ?w)" "stack_ok False stack'"
      using bracket_run_first_part [of False stack ?l ?w] Suc.prems(6,9) w(1) u by metis
    have "FindEndOfExpressionInLine ?l 0 stack = Some (Pending stack')"
      using FindEnd_run [of 0 ?l ?l "[]" stack] w(2) Suc.prems(6) s'(1) by (simp add: FindEnd_at_end)
    moreover have "CloseExpression_loop cl ?l (int (Suc n)) stack' = Some (?L ! m, int m, int e)"
      using Suc.hyps(2) m Suc.prems(1,3,4,5) s' w(3)
      by (intro Suc.hyps(1) [OF _ _ m, where u = ?w]) auto
    ultimately show ?thesis using l go by (subst CloseExpression_loop.simps) (simp add: add.commute)
  qed
qed

lemma ReverseCloseExpression_loop_run:
  assumes "n < m" and "m \<le> length (elided_lines cl)"
    and "pos < length (elided_lines cl ! n)" and "stack_ok True stack"
    and "u = drop pos (elided_lines cl ! n) @ concat (map ((!) (elided_lines cl)) [Suc n..<m])"
    and "angle_free u" and "bracket_run True stack (rev u) 0 = Found (length u)"
  shows "ReverseCloseExpression_loop cl line (int m) stack = Some (elided_lines cl ! n, int n, int pos)"
  using assms
proof (induction "m - n" arbitrary: m line stack u)
  case 0
  then show ?case by simp
next
  case (Suc d)
  let ?L = "elided_lines cl"
  obtain k where k: "m = Suc k" using Suc.prems(1) by (cases m) auto
  let ?l = "?L ! k"
  have l: "py_index ?L (int m - 1) = Some ?l" using Suc.prems(2) k by simp
  have go: "stack \<noteq> [] \<and> int m > 0" using Suc.prems(1,4) by (simp add: stack_ok_def)
  show ?case
  proof (cases "n = k")
    case True
    then have u: "u = drop pos ?l" using Suc.prems(5) k by simp
    have "FindStartOfExpressionInLine ?l (length ?l) stack = Some (Found pos)"
      using FindStart_run [of "length ?l" ?l "take pos ?l" "rev u" stack 0] Suc.prems(1-4,6,7) True u
      by (simp add: angle_free_def)
    with l go True k show ?thesis by (subst ReverseCloseExpression_loop.simps) simp
  next
    case False
    with Suc.prems(1) k have n: "n < k" by simp
    let ?w = "drop pos (?L ! n) @ concat (map ((!) ?L) [Suc n..<k])"
    have u: "rev u = rev ?l @ rev ?w" using Suc.prems(5) n k by simp
    have w: "rev ?w \<noteq> []" "angle_free (rev ?l)" "angle_free ?w"
      using Suc.prems(3,5,6) n k by (auto simp: angle_free_def)
    obtain stack' where s': "bracket_run True stack (rev ?l) 0 = Pending stack'"
      "bracket_run True stack' (rev ?w) 0 = Found (length (rev ?w))" "stack_ok True stack'"
      using bracket_run_first_part [of True stack "rev ?l" "rev ?w"] Suc.prems(4,7) w(1) u length_rev by metis
    have "FindStartOfExpressionInLine ?l (length ?l) stack = Some (Pending stack')"
      using FindStart_run [of "length ?l" ?l "[]" "rev ?l" stack 0] w(2) Suc.prems(4) s'(1)
      by (simp add: FindStart_at_start)
    moreover have "ReverseCloseExpression_loop cl ?l (int k) stack' = Some (?L ! n, int n, int pos)"
      using Suc.hyps(2) k Suc.prems(2,3) s' w(3)
      by (intro Suc.hyps(1) [OF _ n, where u = ?w]) auto
    ultimately show ?thesis using l go k by (subst ReverseCloseExpression_loop.simps) simp
  qed
qed

section \<open>Matching brackets\<close>

lemma re_shift_first:
  assumes "s \<noteq> []" and "hd s \<noteq> CHR ''<''"
  shows "Matches re_shift s = Some False"
proof -
  have r: "re_compile re_shift = Some (False, RSeq (RChar (CHR ''<''))
      (RSet False [ItemChar (CHR ''<''), ItemChar (CHR ''='')]))" (is "_ = Some (False, ?r)")
    by code_simp
  have "\<not> denotes False s ?r (start_cursor s, []) (d, g)" for d g
  proof
    assume "denotes False s ?r (start_cursor s, []) (d, g)"
    then obtain e where "goes (start_cursor s) ''<'' e" by (auto simp: reads)
    then have "s = ''<'' @ rest_of e" using goes_start by blast
    with assms(2) show False by simp
  qed
  then show ?thesis by (subst Matches_iff [OF r]) (auto simp: split_paired_Ex)
qed

lemma closes_brackets:
  assumes "closes a b"
  shows "a \<in> set ''([{''" and "b \<in> set '')]}''" and "a \<noteq> CHR ''<''" and "b \<noteq> CHR ''>''"
  using assms by (auto simp: closes.simps)

text \<open>An expression in brackets: its place in the file, its brackets and the text between them.\<close>

definition bracketed :: "CleansedLines \<Rightarrow> nat \<Rightarrow> nat \<Rightarrow> nat \<Rightarrow> nat \<Rightarrow> char \<Rightarrow> string \<Rightarrow> char \<Rightarrow> bool" where
  "bracketed cl n pos m e a w b \<longleftrightarrow>
     lines_ok cl \<and> n \<le> m \<and> m < length (elided_lines cl) \<and>
     pos < length (elided_lines cl ! n) \<and> e < length (elided_lines cl ! m) \<and>
     text_from_to cl n pos m (e + 1) = a # w @ [b] \<and> closes a b \<and> balanced False w"

lemma bracketed_length:
  assumes "bracketed cl n pos n e a w b"
  shows "e = pos + length (a # w)"
proof -
  have "length (text_between (elided_lines cl ! n) pos (e + 1)) = length (a # w @ [b])"
    and "e < length (elided_lines cl ! n)"
    using assms by (simp_all add: bracketed_def text_from_to_def)
  then show ?thesis by (auto simp: text_between_def min_def split: if_splits)
qed

lemma bracketed_ends:
  assumes "bracketed cl n pos m e a w b"
  shows "elided_lines cl ! n ! pos = a" and "elided_lines cl ! m ! e = b"
proof -
  let ?t = "text_from_to cl n pos m (e + 1)"
  have t: "?t = a # w @ [b]" and p: "pos < length (elided_lines cl ! n)" "e < length (elided_lines cl ! m)"
    using assms by (auto simp: bracketed_def)
  have ne: "n = m \<Longrightarrow> pos < e + 1" using bracketed_length assms by fastforce
  have "hd ?t = elided_lines cl ! n ! pos"
    using p ne by (cases "n = m") (simp_all add: text_from_to_def text_between_def hd_drop_conv_nth)
  with t show "elided_lines cl ! n ! pos = a" by simp
  have "last ?t = elided_lines cl ! m ! e"
  proof (cases "n = m")
    case True
    then have "?t = drop pos (take (e + 1) (elided_lines cl ! m))"
      by (simp add: text_from_to_def text_between_def drop_take)
    with p ne True show ?thesis by (simp add: last_conv_nth)
  qed (use p in \<open>simp add: text_from_to_def last_append take_Suc_conv_app_nth\<close>)
  with t show "elided_lines cl ! m ! e = b" by simp
qed

text \<open>What the two scans start from, and what they have to read.\<close>

lemma bracketed_forward:
  assumes "bracketed cl n pos m e a w b"
  shows "stack_ok False [a]" and "angle_free (w @ [b])"
    and "bracket_run False [a] (w @ [b]) 0 = Found (length (w @ [b]))"
proof -
  have ab: "closes a b" "balanced False w" using assms by (simp_all add: bracketed_def)
  show "stack_ok False [a]" using closes_brackets(1) [OF ab(1)] by (simp add: stack_ok_def openers_def)
  show "angle_free (w @ [b])"
    using balanced_angle_free [OF ab(2)] closes_brackets [OF ab(1)] by (auto simp: angle_free_def)
  show "bracket_run False [a] (w @ [b]) 0 = Found (length (w @ [b]))"
    using bracket_run_closed [of False a b w] ab by (simp add: pairs_def)
qed

lemma bracketed_backward:
  assumes "bracketed cl n pos m e a w b"
  shows "stack_ok True [b]" and "angle_free (rev (a # w))"
    and "bracket_run True [b] (rev (a # w)) 0 = Found (length (rev (a # w)))"
proof -
  have ab: "closes a b" "balanced False w" using assms by (simp_all add: bracketed_def)
  show "stack_ok True [b]" using closes_brackets(2) [OF ab(1)] by (simp add: stack_ok_def openers_def)
  show "angle_free (rev (a # w))"
    using balanced_angle_free [OF ab(2)] closes_brackets [OF ab(1)] by (auto simp: angle_free_def)
  show "bracket_run True [b] (rev (a # w)) 0 = Found (length (rev (a # w)))"
    using bracket_run_closed [of True b a "rev w"] ab balanced_rev [OF ab(2)] by (simp add: pairs_def)
qed

lemma CloseExpression_start:
  assumes br: "bracketed cl n pos m e a w b"
    and r: "FindEndOfExpressionInLine (elided_lines cl ! n) (Suc pos) [a] = Some r"
  shows "CloseExpression cl (int n) pos = (case r of
      Found e \<Rightarrow> Some (elided_lines cl ! n, int n, int e)
    | Unclosed \<Rightarrow> Some (elided_lines cl ! n, NumLines cl, - 1)
    | Pending stack \<Rightarrow> CloseExpression_loop cl (elided_lines cl ! n) (int n) stack)"
proof -
  let ?l = "elided_lines cl ! n"
  note defs = br [unfolded bracketed_def]
  have a: "?l ! pos = a" by (rule bracketed_ends(1) [OF br])
  have "closes a b" using defs by simp
  note ab = closes_brackets [OF this]
  have "end_step ?l pos [] = Some (Pending [a])"
    using end_step_first [of ?l pos, unfolded a, OF disjI1 [OF ab(1)]] .
  then have "FindEndOfExpressionInLine ?l pos [] = Some r"
    using defs r by (subst FindEndOfExpressionInLine.simps) simp
  moreover have "Matches re_shift (drop pos ?l) = Some False"
    using defs a ab(3) by (intro re_shift_first) (auto simp: hd_drop_conv_nth)
  moreover have "a \<in> set ''({[<''" using ab(1) by auto
  ultimately show ?thesis using defs a by (simp add: CloseExpression_def del: list.set)
qed

lemma CloseExpression_bracketed:
  assumes br: "bracketed cl n pos m e a w b"
  shows "CloseExpression cl (int n) pos = Some (elided_lines cl ! m, int m, int (e + 1))"
proof (cases "n = m")
  let ?l = "elided_lines cl ! n"
  note defs = br [unfolded bracketed_def] and scan = bracketed_forward [OF br]
  case True
  have "text_between ?l pos (e + 1) = a # w @ [b]" using defs True by (simp add: text_from_to_def)
  then have t: "drop pos ?l = (a # w @ [b]) @ drop (e + 1 - pos) (drop pos ?l)"
    unfolding text_between_def by (metis append_take_drop_id)
  then have "drop (Suc pos) ?l = (w @ [b]) @ drop (e + 1 - pos) (drop pos ?l)"
    by (metis append_Cons drop_Suc list.sel(3) tl_drop)
  then have "FindEndOfExpressionInLine ?l (Suc pos) [a] = Some (Found (Suc pos + length (w @ [b])))"
    using FindEnd_run [OF _ scan(2,1)] scan(3) bracket_run_shift [of False "[a]" "w @ [b]" 0 "Suc pos"] by simp
  moreover have "Suc pos + length (w @ [b]) = e + 1"
    using bracketed_length br True by fastforce
  ultimately show ?thesis using CloseExpression_start [OF br] True by simp
next
  let ?l = "elided_lines cl ! n" and ?u = "drop (Suc pos) (elided_lines cl ! n)"
  let ?w = "concat (map ((!) (elided_lines cl)) [Suc n..<m]) @ take (e + 1) (elided_lines cl ! m)"
  note defs = br [unfolded bracketed_def] and scan = bracketed_forward [OF br]
  case False
  then have nm: "n < m" using defs by simp
  have "drop pos ?l @ ?w = a # w @ [b]" using defs False by (simp add: text_from_to_def)
  then have u: "w @ [b] = ?u @ ?w" using defs by (metis Cons_nth_drop_Suc append_Cons list.inject)
  have parts: "?w \<noteq> []" "angle_free ?u" "angle_free ?w"
    using scan(2) defs unfolding u by (auto simp: angle_free_def)
  obtain stack where s: "bracket_run False [a] ?u 0 = Pending stack"
    "bracket_run False stack ?w 0 = Found (length ?w)" "stack_ok False stack"
    using bracket_run_first_part [OF scan(3) [unfolded u] parts(1) scan(1)] by blast
  have "bracket_run False [a] ?u (Suc pos) = Pending stack"
    using s(1) bracket_run_shift [of False "[a]" ?u 0 "Suc pos"] by simp
  moreover have "Suc pos + length ?u = length ?l" using defs by (auto simp: Suc_diff_Suc)
  ultimately have "FindEndOfExpressionInLine ?l (Suc pos) [a] = Some (Pending stack)"
    using FindEnd_run [of "Suc pos" ?l ?u "[]" "[a]"] parts(2) scan(1) FindEnd_at_end [of ?l stack]
    by (simp del: length_drop)
  moreover have "CloseExpression_loop cl ?l (int n) stack = Some (elided_lines cl ! m, int m, int (e + 1))"
    using defs s parts by (intro CloseExpression_loop_run [OF _ nm, where u = ?w]) auto
  ultimately show ?thesis using CloseExpression_start [OF br] by simp
qed

lemma ReverseCloseExpression_start:
  assumes br: "bracketed cl n pos m e a w b"
    and r: "FindStartOfExpressionInLine (elided_lines cl ! m) e [b] = Some r"
  shows "ReverseCloseExpression cl (int m) e = (case r of
      Found i \<Rightarrow> Some (elided_lines cl ! m, int m, int i)
    | Unclosed \<Rightarrow> Some (elided_lines cl ! m, 0, - 1)
    | Pending stack \<Rightarrow> ReverseCloseExpression_loop cl (elided_lines cl ! m) (int m) stack)"
proof -
  let ?l = "elided_lines cl ! m"
  note defs = br [unfolded bracketed_def]
  have b: "?l ! e = b" by (rule bracketed_ends(2) [OF br])
  have "closes a b" using defs by simp
  note ab = closes_brackets [OF this]
  have "start_step ?l e [] = Some (Pending [b], e)" using ab(2) by (simp add: start_step_def Let_def b)
  then have "FindStartOfExpressionInLine ?l (e + 1) [] = Some r"
    using defs r by (subst FindStartOfExpressionInLine.simps) simp
  moreover have "b \<in> set '')}]>''" using ab(2) by auto
  ultimately show ?thesis using defs b by (simp add: ReverseCloseExpression_def del: list.set)
qed

lemma ReverseCloseExpression_bracketed:
  assumes br: "bracketed cl n pos m e a w b"
  shows "ReverseCloseExpression cl (int m) e = Some (elided_lines cl ! n, int n, int pos)"
proof (cases "n = m")
  let ?l = "elided_lines cl ! m"
  note defs = br [unfolded bracketed_def] and scan = bracketed_backward [OF br]
  case True
  have t: "text_between ?l pos (e + 1) = a # w @ [b]" using defs True by (simp add: text_from_to_def)
  have len: "e = pos + length (a # w)" using bracketed_length br True by blast
  have "take e ?l = take pos ?l @ (a # w)"
  proof -
    have "take (e + 1) ?l = take pos ?l @ (a # w @ [b])"
      using t len unfolding text_between_def by (metis Suc_eq_plus1 add.assoc add_diff_cancel_left' take_add)
    then have "take e ?l = take e (take pos ?l @ (a # w @ [b]))" by (metis le_add1 min.absorb1 take_take)
    then show ?thesis using len defs True by simp
  qed
  then have "FindStartOfExpressionInLine ?l e [b] = Some (Found (e + 0 - length (rev (a # w))))"
    using FindStart_run [of e ?l "take pos ?l" "rev (a # w)" "[b]" 0] scan defs by simp
  then show ?thesis using ReverseCloseExpression_start [OF br] True len by simp
next
  let ?l = "elided_lines cl ! m"
  let ?w = "drop pos (elided_lines cl ! n) @ concat (map ((!) (elided_lines cl)) [Suc n..<m])"
  note defs = br [unfolded bracketed_def] and scan = bracketed_backward [OF br]
  case False
  then have nm: "n < m" using defs by simp
  have "?w @ take (e + 1) ?l = (a # w) @ [b]" using defs False by (simp add: text_from_to_def)
  then have "?w @ take e ?l = a # w" using defs by (simp add: take_Suc_conv_app_nth flip: append_assoc)
  then have u: "rev (a # w) = rev (take e ?l) @ rev ?w" by (metis rev_append)
  have parts: "rev ?w \<noteq> []" "angle_free (rev (take e ?l))" "angle_free ?w"
    using scan(2) defs unfolding u by (auto simp: angle_free_def)
  obtain stack where s: "bracket_run True [b] (rev (take e ?l)) 0 = Pending stack"
    "bracket_run True stack (rev ?w) 0 = Found (length (rev ?w))" "stack_ok True stack"
    using bracket_run_first_part [OF scan(3) [unfolded u] parts(1) scan(1)] by blast
  have "FindStartOfExpressionInLine ?l e [b] = Some (Pending stack)"
    using FindStart_run [of e ?l "[]" "rev (take e ?l)" "[b]" 0] parts(2) scan(1) s(1) defs
      FindStart_at_start [of ?l stack] by simp
  moreover have "ReverseCloseExpression_loop cl ?l (int m) stack = Some (elided_lines cl ! n, int n, int pos)"
    using defs s parts by (intro ReverseCloseExpression_loop_run [OF nm, where u = ?w]) auto
  ultimately show ?thesis using ReverseCloseExpression_start [OF br] by simp
qed


lemma sample_bracketed: "bracketed sample_lines 0 1 1 3 (CHR ''('') ''a, {b[1]},  c'' (CHR '')'')"
proof -
  have plain: "balanced False u" if "list_all (\<lambda>c. c \<notin> set ''()[]{}<>'') u" for u
    using that by (induction u) (auto intro: balanced.intros)
  have "balanced False (CHR ''['' # ''1'' @ CHR '']'' # [])"
    by (intro balanced.nested plain) (simp_all add: pairs_def closes.simps)
  then have "balanced False ''b[1]''" using balanced_append [of False "''b''" "''[1]''"] plain [of "''b''"] by simp
  then have "balanced False (CHR ''{'' # ''b[1]'' @ CHR ''}'' # '',  c'')"
    by (rule balanced.nested [rotated]) (simp_all add: pairs_def closes.simps plain)
  then have "balanced False ''a, {b[1]},  c''"
    using balanced_append [of False "''a, ''" "''{b[1]},  c''"] plain [of "''a, ''"] by simp
  then show ?thesis
    by (simp add: bracketed_def lines_ok_def sample_lines_def NumLines_def text_from_to_def closes.simps)
qed


section \<open>Always a result\<close>

text \<open>Every scan from a position of the file returns, whatever the brackets are.\<close>

definition within :: "CleansedLines \<Rightarrow> position \<Rightarrow> bool" where
  "within cl p = (case p of (line, ln, e) \<Rightarrow>
     e = - 1 \<or> 0 \<le> ln \<and> ln < NumLines cl \<and> line = elided_lines cl ! nat ln \<and> 0 \<le> e \<and> e \<le> int (length line))"

lemma pop_Found: "pop stack r = Found e \<Longrightarrow> r = Found e"
  by (simp add: pop_def split: if_splits)

lemma end_step_returns: "\<exists>r. end_step line i stack = Some r \<and> (\<forall>e. r = Found e \<longrightarrow> e = i + 1)"
proof -
  have "end_step line i stack \<noteq> None"
    by (simp add: end_step_def Let_def re_total re_operator_compiled del: set_simps insert_iff list.set)
  moreover have "e = i + 1" if "end_step line i stack = Some (Found e)" for e
    using that by (auto simp add: end_step_def Let_def re_total re_operator_compiled
        simp del: set_simps insert_iff list.set split: if_splits dest: pop_Found)
  ultimately show ?thesis by auto
qed

lemma FindEnd_returns:
  "\<exists>r. FindEndOfExpressionInLine line i stack = Some r \<and> (\<forall>e. r = Found e \<longrightarrow> e \<le> length line)"
proof (induction line i stack rule: FindEndOfExpressionInLine.induct)
  case (1 line i stack)
  obtain r where "end_step line i stack = Some r" "\<forall>e. r = Found e \<longrightarrow> e = i + 1"
    using end_step_returns by blast
  with 1 show ?case by (subst FindEndOfExpressionInLine.simps) (cases r; fastforce)
qed

lemma CloseExpression_loop_returns:
  assumes "lines_ok cl" and "0 \<le> linenum"
  shows "\<exists>p. CloseExpression_loop cl line linenum stack = Some p \<and> within cl p \<and> (snd (snd p) \<noteq> - 1 \<longrightarrow> linenum \<le> fst (snd p))"
  using assms
proof (induction cl line linenum stack rule: CloseExpression_loop.induct)
  case (1 cl line linenum stack)
  show ?case
  proof (cases "stack \<noteq> [] \<and> linenum < NumLines cl - 1")
    case True
    let ?l = "elided_lines cl ! nat (linenum + 1)"
    have l: "py_index (elided_lines cl) (linenum + 1) = Some ?l"
      using True 1(2,3) by (intro py_index_in_range) (auto simp: lines_ok_def)
    obtain r where r: "FindEndOfExpressionInLine ?l 0 stack = Some r" "\<forall>e. r = Found e \<longrightarrow> e \<le> length ?l"
      using FindEnd_returns by blast
    have "\<exists>p. CloseExpression_loop cl ?l (linenum + 1) stack' = Some p \<and> within cl p \<and>
        (snd (snd p) \<noteq> - 1 \<longrightarrow> linenum \<le> fst (snd p))" if "r = Pending stack'" for stack'
      using 1(1) [OF True l r(1) that] 1(2,3) by fastforce
    with True l r 1(3) show ?thesis
      by (subst CloseExpression_loop.simps) (cases r; simp add: within_def)
  qed (subst CloseExpression_loop.simps, auto simp: within_def)
qed

lemma CloseExpression_returns:
  assumes "lines_ok cl" and "0 \<le> linenum" and "linenum < NumLines cl" and "pos < length (elided_lines cl ! nat linenum)"
  shows "\<exists>p. CloseExpression cl linenum pos = Some p \<and> within cl p \<and> (snd (snd p) \<noteq> - 1 \<longrightarrow> linenum \<le> fst (snd p))"
proof -
  let ?l = "elided_lines cl ! nat linenum"
  have l: "py_index (elided_lines cl) linenum = Some ?l"
    using assms(1-3) by (intro py_index_in_range) (auto simp: lines_ok_def)
  obtain r where r: "FindEndOfExpressionInLine ?l pos [] = Some r" "\<forall>e. r = Found e \<longrightarrow> e \<le> length ?l"
    using FindEnd_returns by blast
  have "within cl (?l, linenum, int e)" if "r = Found e" for e
    using assms(2,3) r(2) that by (simp add: within_def)
  with l r assms(4) CloseExpression_loop_returns [OF assms(1,2), of ?l] show ?thesis
    by (cases r) (auto simp: CloseExpression_def re_total re_shift_compiled within_def)
qed

lemma start_step_returns:
  "\<exists>r k. start_step line i stack = Some (r, k) \<and> (\<forall>e. r = Found e \<longrightarrow> e = i)"
proof -
  have "start_step line i stack \<noteq> None"
    by (simp add: start_step_def Let_def re_total re_operator_compiled re_greater_equal_compiled
        del: set_simps insert_iff list.set)
  moreover have "e = i" if "start_step line i stack = Some (Found e, k)" for e k
    using that by (auto simp add: start_step_def Let_def re_total re_operator_compiled re_greater_equal_compiled
        simp del: set_simps insert_iff list.set split: if_splits dest: pop_Found)
  ultimately show ?thesis by auto
qed

lemma FindStart_returns:
  assumes "n \<le> length line"
  shows "\<exists>r. FindStartOfExpressionInLine line n stack = Some r \<and> (\<forall>e. r = Found e \<longrightarrow> e < length line)"
  using assms
proof (induction line n stack rule: FindStartOfExpressionInLine.induct)
  case (1 line n stack)
  show ?case
  proof (cases "n = 0")
    case False
    obtain r k where r: "start_step line (n - 1) stack = Some (r, k)" "\<forall>e. r = Found e \<longrightarrow> e = n - 1"
      using start_step_returns by blast
    have "k \<le> length line" using start_step_less [OF r(1)] 1(2) by simp
    with 1 r False show ?thesis
      by (subst FindStartOfExpressionInLine.simps) (cases r; fastforce)
  qed (subst FindStartOfExpressionInLine.simps, simp)
qed

lemma ReverseCloseExpression_loop_returns:
  assumes "lines_ok cl" and "0 \<le> linenum" and "linenum < NumLines cl"
  shows "\<exists>p. ReverseCloseExpression_loop cl line linenum stack = Some p \<and> within cl p"
  using assms
proof (induction cl line linenum stack rule: ReverseCloseExpression_loop.induct)
  case (1 cl line linenum stack)
  show ?case
  proof (cases "stack \<noteq> [] \<and> linenum > 0")
    case True
    let ?l = "elided_lines cl ! nat (linenum - 1)"
    have l: "py_index (elided_lines cl) (linenum - 1) = Some ?l"
      using True 1(2,4) by (intro py_index_in_range) (auto simp: lines_ok_def)
    obtain r where r: "FindStartOfExpressionInLine ?l (length ?l) stack = Some r" "\<forall>e. r = Found e \<longrightarrow> e < length ?l"
      using FindStart_returns [OF order_refl] by blast
    have "\<exists>p. ReverseCloseExpression_loop cl ?l (linenum - 1) stack' = Some p \<and> within cl p"
      if "r = Pending stack'" for stack'
      using 1(1) [OF True l r(1) that] 1(2-4) True by fastforce
    with True l r 1(4) show ?thesis
      by (subst ReverseCloseExpression_loop.simps) (cases r; simp add: within_def)
  qed (subst ReverseCloseExpression_loop.simps, auto simp: within_def)
qed

lemma ReverseCloseExpression_returns:
  assumes "lines_ok cl" and "0 \<le> linenum" and "linenum < NumLines cl" and "pos < length (elided_lines cl ! nat linenum)"
  shows "\<exists>p. ReverseCloseExpression cl linenum pos = Some p \<and> within cl p"
proof -
  let ?l = "elided_lines cl ! nat linenum"
  have l: "py_index (elided_lines cl) linenum = Some ?l"
    using assms(1-3) by (intro py_index_in_range) (auto simp: lines_ok_def)
  obtain r where r: "FindStartOfExpressionInLine ?l (pos + 1) [] = Some r" "\<forall>e. r = Found e \<longrightarrow> e < length ?l"
    using FindStart_returns [of "pos + 1" ?l] assms(4) by fastforce
  have "within cl (?l, linenum, int e)" if "r = Found e" for e
    using assms(2,3) r(2) that by (simp add: within_def)
  with l r assms(4) ReverseCloseExpression_loop_returns [OF assms(1-3), of ?l] show ?thesis
    by (cases r) (auto simp: ReverseCloseExpression_def within_def)
qed

text \<open>A failed search leaves the line number past the end.\<close>

lemma CloseExpression_loop_lost:
  "CloseExpression_loop cl line linenum stack = Some (l, ln, e) \<Longrightarrow> 0 \<le> e \<or> ln = NumLines cl"
proof (induction cl line linenum stack rule: CloseExpression_loop.induct)
  case (1 cl line linenum stack)
  show ?case
    using 1 by (subst (asm) (2) CloseExpression_loop.simps) (auto split: if_splits scan.splits bind_splits)
qed

lemma CloseExpression_lost:
  "CloseExpression cl linenum pos = Some (l, ln, e) \<Longrightarrow> 0 \<le> e \<or> ln = NumLines cl"
  by (auto simp: CloseExpression_def split: bind_splits if_splits scan.splits dest: CloseExpression_loop_lost)

lemma ReverseCloseExpression_loop_lost:
  "ReverseCloseExpression_loop cl line linenum stack = Some (l, ln, e) \<Longrightarrow> 0 \<le> e \<or> ln = 0"
proof (induction cl line linenum stack rule: ReverseCloseExpression_loop.induct)
  case (1 cl line linenum stack)
  show ?case
    using 1 by (subst (asm) (2) ReverseCloseExpression_loop.simps) (auto split: if_splits scan.splits bind_splits)
qed

lemma ReverseCloseExpression_lost:
  "ReverseCloseExpression cl linenum pos = Some (l, ln, e) \<Longrightarrow> 0 \<le> e \<or> ln = 0"
  by (auto simp: ReverseCloseExpression_def split: bind_splits if_splits scan.splits dest: ReverseCloseExpression_loop_lost)

end
