(* ===== verification/Nesting.thy ===== *)
theory Nesting
  imports Expressions
begin

text \<open>
  The classes \<^verbatim>\<open>_BlockInfo\<close>, \<^verbatim>\<open>_ExternCInfo\<close>, \<^verbatim>\<open>_ClassInfo\<close>,
  \<^verbatim>\<open>_NamespaceInfo\<close>, \<^verbatim>\<open>_PreprocessorInfo\<close> and \<^verbatim>\<open>NestingState\<close> of
  \<^verbatim>\<open>script/cpplint.py\<close>: the blocks a line of the file is nested in, and how preprocessor
  conditionals save and restore them.

  A stack of blocks is a list whose head is its top. A block carries the identity of its object:
  \<^verbatim>\<open>previous_stack_top\<close> is compared with a block of the stack, and \<^verbatim>\<open>copy.deepcopy\<close>
  gives the blocks of the copy identities of their own. An operation returns the new state and the
  events it reports.
\<close>

section \<open>Blocks\<close>

datatype asm_state = NO_ASM | INSIDE_ASM | END_ASM | BLOCK_ASM

record class_info =
  class_name :: string
  class_starting_linenum :: int
  is_derived :: bool
  access :: string
  is_struct :: bool
  class_indent :: nat
  last_line :: int

datatype block_kind =
    BlockInfo
  | ExternCInfo
  | ClassInfo class_info
  | NamespaceInfo (namespace_name: string) (namespace_starting_linenum: int)

record block =
  block_id :: nat
  seen_open_brace :: bool
  open_parentheses :: int
  inline_asm :: asm_state
  check_namespace_indentation :: bool
  kind :: block_kind

record pp_info =
  stack_before_if :: "block list"
  stack_before_else :: "block list"
  seen_else :: bool

record NestingState =
  nesting_stack :: "block list"
  previous_stack_top :: "block option"
  pp_stack :: "pp_info list"
  next_id :: nat

definition is_class :: "block \<Rightarrow> bool" where
  "is_class b = (case kind b of ClassInfo _ \<Rightarrow> True | _ \<Rightarrow> False)"

definition is_namespace :: "block \<Rightarrow> bool" where
  "is_namespace b = (case kind b of NamespaceInfo _ _ \<Rightarrow> True | _ \<Rightarrow> False)"

definition is_extern_c :: "block \<Rightarrow> bool" where
  "is_extern_c b = (case kind b of ExternCInfo \<Rightarrow> True | _ \<Rightarrow> False)"

definition IsBlockInfo :: "block \<Rightarrow> bool" where
  "IsBlockInfo b = (case kind b of BlockInfo \<Rightarrow> True | _ \<Rightarrow> False)"

definition new_block :: "nat \<Rightarrow> bool \<Rightarrow> block_kind \<Rightarrow> block" where
  "new_block i seen k =
     \<lparr>block_id = i, seen_open_brace = seen, open_parentheses = 0, inline_asm = NO_ASM,
      check_namespace_indentation = (case k of ClassInfo _ \<Rightarrow> True | NamespaceInfo _ _ \<Rightarrow> True | _ \<Rightarrow> False),
      kind = k\<rparr>"

definition re_indent :: string where
  "re_indent = raw ''^( *)`S''"

definition GetIndentLevel :: "string \<Rightarrow> nat py" where
  "GetIndentLevel line = do {
     indent \<leftarrow> Match re_indent line;
     Some (case indent of Some m \<Rightarrow> length (group_text m 1) | None \<Rightarrow> 0)
   }"

text \<open>The line on which the braces opened from a line on are closed again; 0 if there is none.\<close>

fun class_last_line :: "string list \<Rightarrow> int \<Rightarrow> int \<Rightarrow> int" where
  "class_last_line [] i depth = 0"
| "class_last_line (line # rest) i depth =
     (let depth = depth + int (py_count line ''{'') - int (py_count line ''}'') in
      if depth = 0 then i else class_last_line rest (i + 1) depth)"

definition init_ClassInfo :: "string \<Rightarrow> string \<Rightarrow> CleansedLines \<Rightarrow> int \<Rightarrow> class_info py" where
  "init_ClassInfo name class_or_struct clean_lines linenum = do {
     raw_line \<leftarrow> py_index (raw_lines clean_lines) linenum;
     indent \<leftarrow> GetIndentLevel raw_line;
     Some \<lparr>class_name = name, class_starting_linenum = linenum, is_derived = False,
           access = (if class_or_struct = ''struct'' then ''public'' else ''private''),
           is_struct = (class_or_struct = ''struct''), class_indent = indent,
           last_line = class_last_line
             (drop (nat linenum) (take (nat (NumLines clean_lines)) (elided_lines clean_lines))) linenum 0\<rparr>
   }"

definition re_bare_colon :: string where
  "re_bare_colon = ''(^|[^:]):($|[^:])''"

definition CheckBegin :: "CleansedLines \<Rightarrow> int \<Rightarrow> block \<Rightarrow> block py" where
  "CheckBegin clean_lines linenum b =
     (case kind b of
        ClassInfo c \<Rightarrow> do {
          line \<leftarrow> py_index (elided_lines clean_lines) linenum;
          colon \<leftarrow> Searches re_bare_colon line;
          Some (if colon then b\<lparr>kind := ClassInfo (c\<lparr>is_derived := True\<rparr>)\<rparr> else b)
        }
      | _ \<Rightarrow> Some b)"

definition re_disallow :: "string \<Rightarrow> string" where
  "re_disallow name =
     raw ''`b(DISALLOW_COPY_AND_ASSIGN|DISALLOW_IMPLICIT_CONSTRUCTORS)`('' @ name @ raw ''`)''"

definition re_blank :: string where
  "re_blank = raw ''^`s*$''"

definition re_closing_brace :: string where
  "re_closing_brace = raw ''^( *)`}''"

text \<open>
  The search, from the end of a class backwards, for a \<^verbatim>\<open>DISALLOW\<close> macro. The list holds the
  line numbers left.
\<close>

fun disallow_loop :: "string \<Rightarrow> CleansedLines \<Rightarrow> string \<Rightarrow> bool \<Rightarrow> int list \<Rightarrow> event list py" where
  "disallow_loop filename clean_lines name seen_last_thing_in_class [] = Some []"
| "disallow_loop filename clean_lines name seen_last_thing_in_class (i # is) = do {
     line \<leftarrow> py_index (elided_lines clean_lines) i;
     matched \<leftarrow> Search (re_disallow name) line;
     (case matched of
        Some m \<Rightarrow>
          Some (if seen_last_thing_in_class
                then [Report filename i ''readability/constructors'' 3
                        (group_text m 1 @ '' should be the last thing in the class'')]
                else [])
      | None \<Rightarrow> do {
          blank \<leftarrow> Matches re_blank line;
          disallow_loop filename clean_lines name (seen_last_thing_in_class \<or> \<not> blank) is
        })
   }"

definition class_parent :: "class_info \<Rightarrow> string" where
  "class_parent c = (if is_struct c then ''struct '' else ''class '') @ class_name c"

definition CheckEnd_class :: "string \<Rightarrow> CleansedLines \<Rightarrow> int \<Rightarrow> class_info \<Rightarrow> event list py" where
  "CheckEnd_class filename clean_lines linenum c = do {
     disallow \<leftarrow> disallow_loop filename clean_lines (class_name c) False
                   (rev [class_starting_linenum c + 1 .. linenum - 1]);
     line \<leftarrow> py_index (elided_lines clean_lines) linenum;
     indent \<leftarrow> Match re_closing_brace line;
     Some (disallow @
       (case indent of
          None \<Rightarrow> []
        | Some m \<Rightarrow>
            if length (group_text m 1) \<noteq> class_indent c
            then [Report filename linenum ''whitespace/indent'' 3
                    (''Closing brace should be aligned with beginning of '' @ class_parent c)]
            else []))
   }"

text \<open>\<^verbatim>\<open>re.escape\<close>: a backslash before everything but ASCII letters and digits.\<close>

definition re_escape :: "string \<Rightarrow> string" where
  "re_escape s = concat (map (\<lambda>c. if re_word c \<and> c \<noteq> CHR ''_'' then [c] else [backslash, c]) s)"

definition re_namespace_comment :: string where
  "re_namespace_comment = raw ''};*`s*(//|/`*).*`bnamespace`b''"

definition re_namespace_end :: "string \<Rightarrow> string" where
  "re_namespace_end name =
     raw ''};*`s*(//|/`*).*`bnamespace`s+'' @ re_escape name @ raw ''[`*/`.```s]*$''"

definition re_anonymous_namespace_end :: string where
  "re_anonymous_namespace_end = raw ''};*`s*(//|/`*).*`bnamespace[`*/`.```s]*$''"

definition re_anonymous_namespace :: string where
  "re_anonymous_namespace = raw ''}.*`b(namespace anonymous|anonymous namespace)`b''"

definition double_quote :: string where
  "double_quote = [CHR 0x22]"

definition CheckEnd_namespace :: "string \<Rightarrow> CleansedLines \<Rightarrow> int \<Rightarrow> string \<Rightarrow> int \<Rightarrow> event list py" where
  "CheckEnd_namespace filename clean_lines linenum name starting_linenum = do {
     line \<leftarrow> py_index (raw_lines clean_lines) linenum;
     short \<leftarrow> (if linenum - starting_linenum < 10
               then do { c \<leftarrow> Matches re_namespace_comment line; Some (\<not> c) } else Some False);
     if short then Some []
     else if name \<noteq> [] then do {
       good \<leftarrow> Matches (re_namespace_end name) line;
       Some (if good then []
             else [Report filename linenum ''readability/namespace'' 5
                     (''Namespace should be terminated with '' @ double_quote @ ''// namespace '' @
                      name @ double_quote)])
     }
     else do {
       good \<leftarrow> Matches re_anonymous_namespace_end line;
       if good then Some []
       else do {
         anonymous \<leftarrow> Matches re_anonymous_namespace line;
         Some [Report filename linenum ''readability/namespace'' 5
                 (if anonymous
                  then ''Anonymous namespace should be terminated with '' @ double_quote @
                       ''// namespace'' @ double_quote @ '' or '' @ double_quote @
                       ''// anonymous namespace'' @ double_quote
                  else ''Anonymous namespace should be terminated with '' @ double_quote @
                       ''// namespace'' @ double_quote)]
       }
     }
   }"

definition CheckEnd :: "string \<Rightarrow> CleansedLines \<Rightarrow> int \<Rightarrow> block \<Rightarrow> event list py" where
  "CheckEnd filename clean_lines linenum b =
     (case kind b of
        ClassInfo c \<Rightarrow> CheckEnd_class filename clean_lines linenum c
      | NamespaceInfo name start \<Rightarrow> CheckEnd_namespace filename clean_lines linenum name start
      | _ \<Rightarrow> Some [])"

section \<open>The nesting state\<close>

definition init_NestingState :: NestingState where
  "init_NestingState = \<lparr>nesting_stack = [], previous_stack_top = None, pp_stack = [], next_id = 0\<rparr>"

definition SeenOpenBrace :: "NestingState \<Rightarrow> bool" where
  "SeenOpenBrace st \<longleftrightarrow> nesting_stack st = [] \<or> seen_open_brace (hd (nesting_stack st))"

definition InNamespaceBody :: "NestingState \<Rightarrow> bool" where
  "InNamespaceBody st \<longleftrightarrow> nesting_stack st \<noteq> [] \<and> is_namespace (hd (nesting_stack st))"

definition InExternC :: "NestingState \<Rightarrow> bool" where
  "InExternC st \<longleftrightarrow> nesting_stack st \<noteq> [] \<and> is_extern_c (hd (nesting_stack st))"

definition InClassDeclaration :: "NestingState \<Rightarrow> bool" where
  "InClassDeclaration st \<longleftrightarrow> nesting_stack st \<noteq> [] \<and> is_class (hd (nesting_stack st))"

definition InAsmBlock :: "NestingState \<Rightarrow> bool" where
  "InAsmBlock st \<longleftrightarrow> nesting_stack st \<noteq> [] \<and> inline_asm (hd (nesting_stack st)) \<noteq> NO_ASM"

definition re_template_token :: string where
  "re_template_token = raw ''^[^{};=`[`]`.<>]*(.)''"

partial_function (option) InTemplateArgumentList :: "CleansedLines \<Rightarrow> int \<Rightarrow> nat \<Rightarrow> bool py" where
  "InTemplateArgumentList clean_lines linenum pos =
     (if linenum < NumLines clean_lines
      then Option.bind (py_index (elided_lines clean_lines) linenum) (\<lambda>line.
           Option.bind (Match re_template_token (drop pos line)) (\<lambda>matched.
             case matched of
               None \<Rightarrow> InTemplateArgumentList clean_lines (linenum + 1) 0
             | Some m \<Rightarrow>
                 (let token = group_text m 1; pos = pos + length (group_text m 0) in
                  if token \<in> {''{'', ''}'', '';''} then Some False
                  else if token \<in> {''>'', ''='', ''['', '']'', ''.''} then Some True
                  else if token \<noteq> ''<''
                  then (if pos + 1 \<ge> length line
                        then InTemplateArgumentList clean_lines (linenum + 1) 0
                        else InTemplateArgumentList clean_lines linenum (pos + 1))
                  else Option.bind (CloseExpression clean_lines linenum (pos - 1)) (\<lambda>p.
                         case p of (_, end_line, end_pos) \<Rightarrow>
                           if end_pos < 0 then Some False
                           else InTemplateArgumentList clean_lines end_line (nat end_pos)))))
      else Some False)"

declare InTemplateArgumentList.simps [code]

section \<open>Preprocessor conditionals\<close>

text \<open>\<^verbatim>\<open>copy.deepcopy\<close> of a stack: the same blocks, with new identities from \<open>n\<close> on.\<close>

fun deepcopy :: "nat \<Rightarrow> block list \<Rightarrow> block list" where
  "deepcopy n [] = []"
| "deepcopy n (b # bs) = b\<lparr>block_id := n\<rparr> # deepcopy (Suc n) bs"

definition re_pp_if :: string where
  "re_pp_if = raw ''^`s*#`s*(if|ifdef|ifndef)`b''"

definition re_pp_else :: string where
  "re_pp_else = raw ''^`s*#`s*(else|elif)`b''"

definition re_pp_endif :: string where
  "re_pp_endif = raw ''^`s*#`s*endif`b''"

text \<open>The three branches, on the state alone.\<close>

definition pp_if :: "NestingState \<Rightarrow> NestingState" where
  "pp_if st =
     st\<lparr>pp_stack := \<lparr>stack_before_if = deepcopy (next_id st) (nesting_stack st),
                     stack_before_else = [], seen_else = False\<rparr> # pp_stack st,
        next_id := next_id st + length (nesting_stack st)\<rparr>"

definition pp_else :: "NestingState \<Rightarrow> NestingState" where
  "pp_else st =
     (case pp_stack st of
        [] \<Rightarrow> st
      | p # ps \<Rightarrow>
          let st = (if seen_else p then st
                    else st\<lparr>pp_stack := p\<lparr>seen_else := True,
                              stack_before_else := deepcopy (next_id st) (nesting_stack st)\<rparr> # ps,
                            next_id := next_id st + length (nesting_stack st)\<rparr>)
          in st\<lparr>nesting_stack := deepcopy (next_id st) (stack_before_if p),
                next_id := next_id st + length (stack_before_if p)\<rparr>)"

definition pp_endif :: "NestingState \<Rightarrow> NestingState" where
  "pp_endif st =
     (case pp_stack st of
        [] \<Rightarrow> st
      | p # ps \<Rightarrow>
          (if seen_else p then st\<lparr>nesting_stack := stack_before_else p\<rparr> else st)\<lparr>pp_stack := ps\<rparr>)"

definition UpdatePreprocessor :: "string \<Rightarrow> NestingState \<Rightarrow> NestingState py" where
  "UpdatePreprocessor line st = do {
     is_if \<leftarrow> Matches re_pp_if line;
     if is_if then Some (pp_if st)
     else do {
       is_else \<leftarrow> Matches re_pp_else line;
       if is_else then Some (pp_else st)
       else do {
         is_endif \<leftarrow> Matches re_pp_endif line;
         Some (if is_endif then pp_endif st else st)
       }
     }
   }"

section \<open>A line of the file\<close>

definition MATCH_ASM :: string where
  "MATCH_ASM = raw ''^`s*(?:asm|_asm|__asm|__asm__)(?:`s+(volatile|__volatile__))?`s*[{(]''"

definition re_namespace_decl :: string where
  "re_namespace_decl = raw ''^`s*namespace`b`s*([:`w]+)?(.*)$''"

definition re_class_decl :: string where
  "re_class_decl =
     raw ''^(`s*(?:template`s*<[`w`s<>,:]*>`s*)?'' @
     raw ''(class|struct)`s+(?:[A-Z_]+`s+)*(`w+(?:::`w+)*))'' @
     raw ''(.*)$''"

definition re_access :: string where
  "re_access =
     raw ''^(.*)`b(public|private|protected|signals)(`s+(?:slots`s*)?)?'' @ raw '':(?:[^:]|$)''"

definition re_brace :: string where
  "re_brace = raw ''^[^{;)}]*([{;)}])(.*)$''"

definition re_extern_c :: string where
  \<open>re_extern_c = raw ''^extern`s*"[^"]*"`s*`{''\<close>

text \<open>A change of the block on top of the stack.\<close>

definition set_top :: "block \<Rightarrow> NestingState \<Rightarrow> NestingState" where
  "set_top b st = st\<lparr>nesting_stack := b # tl (nesting_stack st)\<rparr>"

definition push :: "bool \<Rightarrow> block_kind \<Rightarrow> NestingState \<Rightarrow> NestingState" where
  "push seen k st =
     st\<lparr>nesting_stack := new_block (next_id st) seen k # nesting_stack st, next_id := next_id st + 1\<rparr>"

definition pop_block :: "NestingState \<Rightarrow> NestingState" where
  "pop_block st = st\<lparr>nesting_stack := tl (nesting_stack st)\<rparr>"

text \<open>The parentheses of the line and the state of inline assembly, on the innermost block.\<close>

definition count_parentheses :: "string \<Rightarrow> block \<Rightarrow> block py" where
  "count_parentheses line inner_block =
     (let depth_change = int (py_count line ''('') - int (py_count line '')'');
          b = inner_block\<lparr>open_parentheses := open_parentheses inner_block + depth_change\<rparr>
      in if inline_asm b \<in> {NO_ASM, END_ASM}
         then do {
           enters \<leftarrow> (if depth_change \<noteq> 0 \<and> open_parentheses b = 1 then Matches MATCH_ASM line else Some False);
           Some (b\<lparr>inline_asm := (if enters then INSIDE_ASM else NO_ASM)\<rparr>)
         }
         else Some (if inline_asm b = INSIDE_ASM \<and> open_parentheses b = 0
                    then b\<lparr>inline_asm := END_ASM\<rparr> else b))"

text \<open>The declarations of namespaces at the start of the line; the rest of the line is returned.\<close>

partial_function (option) namespace_loop :: "int \<Rightarrow> string \<Rightarrow> NestingState \<Rightarrow> (string \<times> NestingState) py" where
  "namespace_loop linenum line st =
     Option.bind (Match re_namespace_decl line) (\<lambda>matched. case matched of
       None \<Rightarrow> Some (line, st)
     | Some m \<Rightarrow>
         (let rest = group_text m 2; brace = py_find rest ''{'' in
          if brace \<noteq> - 1
          then namespace_loop linenum (py_from rest (brace + 1))
                 (push True (NamespaceInfo (group_text m 1) linenum) st)
          else namespace_loop linenum rest (push False (NamespaceInfo (group_text m 1) linenum) st)))"

declare namespace_loop.simps [code]

definition class_declaration ::
    "CleansedLines \<Rightarrow> int \<Rightarrow> string \<Rightarrow> NestingState \<Rightarrow> (string \<times> NestingState) py" where
  "class_declaration clean_lines linenum line st = do {
     matched \<leftarrow> Match re_class_decl line;
     (case matched of
        None \<Rightarrow> Some (line, st)
      | Some m \<Rightarrow>
          if nesting_stack st = [] \<or> open_parentheses (hd (nesting_stack st)) = 0
          then do {
            template \<leftarrow> InTemplateArgumentList clean_lines linenum (length (group_text m 1));
            if template then Some (line, st)
            else do {
              c \<leftarrow> init_ClassInfo (group_text m 3) (group_text m 2) clean_lines linenum;
              Some (group_text m 4, push False (ClassInfo c) st)
            }
          }
          else Some (line, st))
   }"

definition check_begin :: "CleansedLines \<Rightarrow> int \<Rightarrow> NestingState \<Rightarrow> NestingState py" where
  "check_begin clean_lines linenum st =
     (if SeenOpenBrace st then Some st
      else do {
        b \<leftarrow> CheckBegin clean_lines linenum (hd (nesting_stack st));
        Some (set_top b st)
      })"

definition update_access :: "string \<Rightarrow> int \<Rightarrow> string \<Rightarrow> NestingState \<Rightarrow> (NestingState \<times> event list) py" where
  "update_access filename linenum line st =
     (case nesting_stack st of
        [] \<Rightarrow> Some (st, [])
      | b # bs \<Rightarrow>
          (case kind b of
             ClassInfo c \<Rightarrow> do {
               matched \<leftarrow> Match re_access line;
               (case matched of
                  None \<Rightarrow> Some (st, [])
                | Some m \<Rightarrow> do {
                    let indent = group_text m 1;
                    let st = set_top (b\<lparr>kind := ClassInfo (c\<lparr>access := group_text m 2\<rparr>)\<rparr>) st;
                    wrong \<leftarrow> (if length indent \<noteq> class_indent c + 1 then Matches re_blank indent
                              else Some False);
                    Some (st,
                      if wrong
                      then [Report filename linenum ''whitespace/indent'' 3
                              (group_text m 2 @ group_text m 3 @
                               '': should be indented +1 space inside '' @ class_parent c)]
                      else [])
                  })
             }
           | _ \<Rightarrow> Some (st, [])))"

text \<open>One brace, semicolon or closing parenthesis; \<open>line\<close> is the text it was found in.\<close>

definition brace_step ::
    "string \<Rightarrow> CleansedLines \<Rightarrow> int \<Rightarrow> string \<Rightarrow> string \<Rightarrow> NestingState \<Rightarrow> (NestingState \<times> event list) py" where
  "brace_step filename clean_lines linenum line token st =
     (if token = ''{''
      then if \<not> SeenOpenBrace st
           then Some (set_top (hd (nesting_stack st)\<lparr>seen_open_brace := True\<rparr>) st, [])
           else do {
             extern_c \<leftarrow> Matches re_extern_c line;
             if extern_c then Some (push True ExternCInfo st, [])
             else do {
               asm \<leftarrow> Matches MATCH_ASM line;
               let st = push True BlockInfo st;
               Some (if asm then set_top (hd (nesting_stack st)\<lparr>inline_asm := BLOCK_ASM\<rparr>) st else st, [])
             }
           }
      else if token = '';'' \<or> token = '')''
      then Some (if \<not> SeenOpenBrace st then pop_block st else st, [])
      else if nesting_stack st \<noteq> []
      then do {
        es \<leftarrow> CheckEnd filename clean_lines linenum (hd (nesting_stack st));
        Some (pop_block st, es)
      }
      else Some (st, []))"

partial_function (option) brace_loop ::
    "string \<Rightarrow> CleansedLines \<Rightarrow> int \<Rightarrow> string \<Rightarrow> NestingState \<Rightarrow> (NestingState \<times> event list) py" where
  "brace_loop filename clean_lines linenum line st =
     Option.bind (Match re_brace line) (\<lambda>matched. case matched of
       None \<Rightarrow> Some (st, [])
     | Some m \<Rightarrow>
         Option.bind (brace_step filename clean_lines linenum line (group_text m 1) st) (\<lambda>r.
         Option.bind (brace_loop filename clean_lines linenum (group_text m 2) (fst r)) (\<lambda>r'.
           Some (fst r', snd r @ snd r'))))"

declare brace_loop.simps [code]

definition Update :: "string \<Rightarrow> CleansedLines \<Rightarrow> int \<Rightarrow> NestingState \<Rightarrow> (NestingState \<times> event list) py" where
  "Update filename clean_lines linenum st = do {
     line \<leftarrow> py_index (elided_lines clean_lines) linenum;
     let st = st\<lparr>previous_stack_top :=
                   (case nesting_stack st of [] \<Rightarrow> None | b # _ \<Rightarrow> Some b)\<rparr>;
     st \<leftarrow> UpdatePreprocessor line st;
     st \<leftarrow> (case nesting_stack st of
             [] \<Rightarrow> Some st
           | b # _ \<Rightarrow> do { b \<leftarrow> count_parentheses line b; Some (set_top b st) });
     (line, st) \<leftarrow> namespace_loop linenum line st;
     (line, st) \<leftarrow> class_declaration clean_lines linenum line st;
     st \<leftarrow> check_begin clean_lines linenum st;
     (st, es) \<leftarrow> update_access filename linenum line st;
     (st, es') \<leftarrow> brace_loop filename clean_lines linenum line st;
     Some (st, es @ es')
   }"

definition InnermostClass :: "NestingState \<Rightarrow> block option" where
  "InnermostClass st = find is_class (nesting_stack st)"

fun incomplete_block :: "string \<Rightarrow> block_kind \<Rightarrow> event list" where
  "incomplete_block filename (ClassInfo c) =
     [Report filename (class_starting_linenum c) ''build/class'' 5
        (''Failed to find complete declaration of class '' @ class_name c)]"
| "incomplete_block filename (NamespaceInfo name start) =
     [Report filename start ''build/namespaces'' 5
        (''Failed to find complete declaration of namespace '' @ name)]"
| "incomplete_block filename _ = []"

text \<open>The source goes through the stack from its bottom to its top.\<close>

definition CheckCompletedBlocks :: "string \<Rightarrow> NestingState \<Rightarrow> event list" where
  "CheckCompletedBlocks filename st =
     concat (map (\<lambda>b. incomplete_block filename (kind b)) (rev (nesting_stack st)))"

section \<open>What conditionals save and restore\<close>

lemma pp_patterns_compiled [re_compiled]:
  "re_compile re_pp_if \<noteq> None" "re_compile re_pp_else \<noteq> None" "re_compile re_pp_endif \<noteq> None"
  by code_simp+

datatype directive = IfDirective | ElseDirective | EndifDirective | NoDirective

definition directive_of :: "string \<Rightarrow> directive" where
  "directive_of line =
     (if Matches re_pp_if line = Some True then IfDirective
      else if Matches re_pp_else line = Some True then ElseDirective
      else if Matches re_pp_endif line = Some True then EndifDirective
      else NoDirective)"

lemma UpdatePreprocessor_directive:
  "UpdatePreprocessor line st = Some
     (case directive_of line of
        IfDirective \<Rightarrow> pp_if st | ElseDirective \<Rightarrow> pp_else st | EndifDirective \<Rightarrow> pp_endif st | NoDirective \<Rightarrow> st)"
proof -
  obtain a b c where "Matches re_pp_if line = Some a" "Matches re_pp_else line = Some b"
    "Matches re_pp_endif line = Some c"
    using Matches_returns pp_patterns_compiled by metis
  then show ?thesis by (simp add: UpdatePreprocessor_def directive_of_def)
qed

text \<open>Two stacks with the same blocks, apart from the identities of the objects.\<close>

definition content :: "block list \<Rightarrow> block list" where
  "content bs = map (block_id_update (\<lambda>_. 0)) bs"

lemma content_deepcopy [simp]: "content (deepcopy n bs) = content bs"
  by (induction n bs rule: deepcopy.induct) (auto simp: content_def)

text \<open>
  Well-nested text between two states: lines that leave the conditionals alone, and whole
  conditionals with any number of \<^verbatim>\<open>#else\<close> and \<^verbatim>\<open>#elif\<close> branches. \<open>branches b c\<close> goes from the
  end of the first branch to the end of the last.
\<close>

inductive region :: "NestingState \<Rightarrow> NestingState \<Rightarrow> bool"
  and branches :: "NestingState \<Rightarrow> NestingState \<Rightarrow> bool" where
  edit: "pp_stack b = pp_stack a \<Longrightarrow> region a b"
| seq: "region a b \<Longrightarrow> region b c \<Longrightarrow> region a c"
| cond: "directive_of if_line = IfDirective \<Longrightarrow> UpdatePreprocessor if_line a = Some a' \<Longrightarrow> region a' b \<Longrightarrow>
    directive_of endif_line = EndifDirective \<Longrightarrow> UpdatePreprocessor endif_line b = Some c \<Longrightarrow> region a c"
| cond_else: "directive_of if_line = IfDirective \<Longrightarrow> UpdatePreprocessor if_line a = Some a' \<Longrightarrow> region a' b \<Longrightarrow>
    branches b c \<Longrightarrow>
    directive_of endif_line = EndifDirective \<Longrightarrow> UpdatePreprocessor endif_line c = Some d \<Longrightarrow> region a d"
| first_else: "directive_of line = ElseDirective \<Longrightarrow> UpdatePreprocessor line b = Some b' \<Longrightarrow> region b' c \<Longrightarrow>
    branches b c"
| next_else: "branches b c \<Longrightarrow> directive_of line = ElseDirective \<Longrightarrow> UpdatePreprocessor line c = Some c' \<Longrightarrow>
    region c' d \<Longrightarrow> branches b d"

text \<open>What a chain of branches keeps: the conditional it belongs to, once an \<^verbatim>\<open>#else\<close> was seen.\<close>

definition branch_of :: "NestingState \<Rightarrow> NestingState \<Rightarrow> bool" where
  "branch_of b c \<longleftrightarrow> (\<forall>p ps. pp_stack b = p # ps \<longrightarrow> \<not> seen_else p \<longrightarrow>
     (\<exists>q. pp_stack c = q # ps \<and> seen_else q \<and> stack_before_if q = stack_before_if p \<and>
          content (stack_before_else q) = content (nesting_stack b)))"

lemma pp_else_stack:
  assumes "pp_stack b = p # ps"
  shows "content (nesting_stack (pp_else b)) = content (stack_before_if p)"
    and "pp_stack (pp_else b) = (if seen_else p then p
      else p\<lparr>seen_else := True, stack_before_else := deepcopy (next_id b) (nesting_stack b)\<rparr>) # ps"
  using assms by (auto simp: pp_else_def Let_def)

lemma region_keeps_conditionals:
  "region a b \<Longrightarrow> pp_stack b = pp_stack a"
  "branches b c \<Longrightarrow> branch_of b c"
proof (induction rule: region_branches.inducts)
  case (cond if_line a a' b endif_line c)
  then have "pp_stack b = pp_stack (pp_if a)" "c = pp_endif b"
    by (simp_all add: UpdatePreprocessor_directive)
  then show ?case by (simp add: pp_if_def pp_endif_def)
next
  case (cond_else if_line a a' b c endif_line d)
  then have b: "pp_stack b = pp_stack (pp_if a)" and d: "d = pp_endif c" and "branch_of b c"
    by (simp_all add: UpdatePreprocessor_directive)
  then obtain q where "pp_stack c = q # pp_stack a"
    by (auto simp: branch_of_def pp_if_def)
  with d show ?case by (simp add: pp_endif_def)
next
  case (first_else line b b' c)
  then have c: "pp_stack c = pp_stack (pp_else b)" by (simp add: UpdatePreprocessor_directive)
  show ?case unfolding branch_of_def c by (auto simp: pp_else_stack)
next
  case (next_else b c line c' d)
  then have d: "pp_stack d = pp_stack (pp_else c)" by (simp add: UpdatePreprocessor_directive)
  with next_else.IH(1) show ?case unfolding branch_of_def d by (auto simp: pp_else_stack)
qed simp_all

text \<open>
  C4. Preprocessor conditionals keep the nesting consistent: in a conditional with \<^verbatim>\<open>#else\<close> branches,
  whatever the branches do to the stack and however deep conditionals nest in them, every
  \<^verbatim>\<open>#else\<close> and \<^verbatim>\<open>#elif\<close> starts from the blocks that were open before the \<^verbatim>\<open>#if\<close>, after the
  \<^verbatim>\<open>#endif\<close> the open blocks are those at the end of the first branch, and the conditionals around
  are as before.
\<close>

theorem conditional_restores_nesting:
  assumes "directive_of if_line = IfDirective" and "UpdatePreprocessor if_line a = Some a'"
    and "region a' b" and "branches b c"
    and "directive_of else_line = ElseDirective" and "UpdatePreprocessor else_line c = Some e"
    and "directive_of endif_line = EndifDirective" and "UpdatePreprocessor endif_line c = Some d"
  shows "content (nesting_stack d) = content (nesting_stack b) \<and>
    content (nesting_stack e) = content (nesting_stack a) \<and> pp_stack d = pp_stack a"
proof -
  have "pp_stack b = pp_stack (pp_if a)"
    using region_keeps_conditionals(1) [OF assms(3)] assms(1,2) by (simp add: UpdatePreprocessor_directive)
  then obtain q where q: "pp_stack c = q # pp_stack a" "seen_else q"
    "content (stack_before_if q) = content (nesting_stack a)"
    "content (stack_before_else q) = content (nesting_stack b)"
    using region_keeps_conditionals(2) [OF assms(4)] by (auto simp: branch_of_def pp_if_def)
  have "e = pp_else c" "d = pp_endif c" using assms by (simp_all add: UpdatePreprocessor_directive)
  with q pp_else_stack(1) [OF q(1)] show ?thesis by (simp add: pp_endif_def)
qed

theorem conditional_restores_nesting_witness:
  "\<exists>a' b c d e. UpdatePreprocessor ''#ifdef SWIG'' (push True BlockInfo init_NestingState) = Some a' \<and>
     b = push True ExternCInfo a' \<and> UpdatePreprocessor ''#else'' b = Some c \<and>
     UpdatePreprocessor ''#elif X'' c = Some e \<and> UpdatePreprocessor ''#endif'' c = Some d \<and>
     content (nesting_stack d) = content (nesting_stack b) \<and>
     content (nesting_stack e) = content (nesting_stack (push True BlockInfo init_NestingState)) \<and>
     pp_stack d = []"
proof -
  let ?a = "push True BlockInfo init_NestingState"
  have k: "directive_of ''#ifdef SWIG'' = IfDirective" "directive_of ''#else'' = ElseDirective"
    "directive_of ''#elif X'' = ElseDirective" "directive_of ''#endif'' = EndifDirective"
    by code_simp+
  let ?b = "push True ExternCInfo (pp_if ?a)" and ?c = "pp_else (push True ExternCInfo (pp_if ?a))"
  have u: "UpdatePreprocessor ''#ifdef SWIG'' ?a = Some (pp_if ?a)"
    "UpdatePreprocessor ''#else'' ?b = Some ?c" "UpdatePreprocessor ''#elif X'' ?c = Some (pp_else ?c)"
    "UpdatePreprocessor ''#endif'' ?c = Some (pp_endif ?c)"
    by (simp_all add: UpdatePreprocessor_directive k)
  have "region (pp_if ?a) ?b" by (rule edit) (simp add: push_def)
  moreover have "branches ?b ?c" by (rule first_else [OF k(2) u(2)]) (simp add: edit)
  ultimately have "content (nesting_stack (pp_endif ?c)) = content (nesting_stack ?b) \<and>
      content (nesting_stack (pp_else ?c)) = content (nesting_stack ?a) \<and> pp_stack (pp_endif ?c) = pp_stack ?a"
    by (rule conditional_restores_nesting [OF k(1) u(1) _ _ k(3) u(3) k(4) u(4)])
  moreover have "pp_stack ?a = []" by (simp add: push_def init_NestingState_def)
  ultimately show ?thesis using u by metis
qed

section \<open>Braces of a line\<close>

definition is_brace_token :: "char \<Rightarrow> bool" where
  "is_brace_token c \<longleftrightarrow> c \<in> set ''{;)}''"

definition brace_re :: re where
  "brace_re = (let its = [ItemChar (CHR ''{''), ItemChar (CHR '';''), ItemChar (CHR '')''), ItemChar (CHR ''}'')] in
     RSeq RBegin (RSeq (RRepeat 0 None True (RSet True its))
       (RSeq (RGroup 1 (RSet False its)) (RSeq (RGroup 2 (RRepeat 0 None True RAny)) REnd))))"

lemma re_brace_compiled [re_compiled]: "re_compile re_brace = Some (False, brace_re)"
  by code_simp

lemma brace_re_plain: "plain_look brace_re"
  by (simp add: brace_re_def Let_def)

lemma set_match_brace:
  "set_match False neg [ItemChar (CHR ''{''), ItemChar (CHR '';''), ItemChar (CHR '')''), ItemChar (CHR ''}'')] =
     (\<lambda>c. neg \<noteq> is_brace_token c)"
  by (auto simp: set_match_def is_brace_token_def fun_eq_iff)

lemma brace_shape:
  assumes "one_line s"
  obtains "Match re_brace s = Some None" and "\<not> list_ex is_brace_token s"
  | m u c v where "Match re_brace s = Some (Some m)" and "s = u @ c # v" and "is_brace_token c"
    and "\<not> list_ex is_brace_token u" and "group_text m 1 = [c]" and "group_text m 2 = v"
proof (cases rule: Match_returns [OF re_brace_compiled brace_re_plain, of s])
  case 1
  have "\<not> list_ex is_brace_token s"
  proof
    assume "list_ex is_brace_token s"
    then obtain u c v where s: "s = u @ c # v" "is_brace_token c" "\<forall>x \<in> set u. \<not> is_brace_token x"
      using split_list_first_prop [of s is_brace_token] by (auto simp: list_ex_iff)
    obtain e where e: "goes (start_cursor s) u e" "rest_of e = c # v"
      using goes_exists [of "start_cursor s" u "c # v"] s(1) by (auto simp: start_cursor_def)
    obtain f where f: "goes e [c] f" "rest_of f = v" using goes_exists [of e "[c]" v] e(2) by auto
    obtain d where d: "goes f v d" "rest_of d = []" using goes_exists [of f v "[]"] f(2) by auto
    have "list_all (\<lambda>y. y \<noteq> newline) v" using assms s(1) by (auto simp: one_line_not_newline)
    moreover have "list_all (\<lambda>x. \<not> is_brace_token x) u" using s(3) by (simp add: list_all_iff)
    ultimately have "denotes False s brace_re (start_cursor s, [])
        (d, [(2, pos_of f, pos_of d), (1, pos_of e, pos_of f)])"
      using e f d s(2) unfolding brace_re_def Let_def reads set_match_brace
      by (simp add: start_cursor_def) metis
    then have "re_match (False, brace_re) s \<noteq> None" by (rule re_match_exists [OF brace_re_plain])
    with 1 show False by (simp add: Match_compiled [OF re_brace_compiled])
  qed
  with 1 show thesis by (rule that(1))
next
  case (2 m d)
  then obtain u c v e f where u: "goes (start_cursor s) u e" "list_all (\<lambda>x. \<not> is_brace_token x) u"
    and c: "goes e [c] f" "is_brace_token c" and v: "goes f v d"
    and nl: "rest_of d = [] \<or> rest_of d = [newline]"
    and g: "m_groups m = [(2, pos_of f, pos_of d), (1, pos_of e, pos_of f)]"
    by (auto simp: brace_re_def Let_def reads set_match_brace start_cursor_def)
  have d: "goes (start_cursor s) (u @ [c] @ v) d" using u(1) c(1) v by (blast intro: goes_trans)
  have "rest_of d = []" using goes_start [OF d] nl assms by (auto simp: one_line_def)
  then have s: "s = u @ c # v" using goes_start [OF d] by simp
  have "group_text m 1 = [c]" "group_text m 2 = v"
    using g 2(3) s goes_start [OF u(1)] goes_pos [OF c(1)] goes_start [OF d]
    by (simp_all add: group_text_def group_def text_between_def)
  moreover have "\<not> list_ex is_brace_token u" using u(2) by (auto simp: list_ex_iff list_all_iff)
  ultimately show thesis using 2(1) s c(2) by (intro that(2))
qed

text \<open>Braces balanced from a given depth on: the depth never falls below zero and ends there.\<close>

fun depth_ok :: "nat \<Rightarrow> string \<Rightarrow> bool" where
  "depth_ok d [] \<longleftrightarrow> d = 0"
| "depth_ok d (c # cs) \<longleftrightarrow>
     (if c = CHR ''{'' then depth_ok (Suc d) cs
      else if c = CHR ''}'' then d > 0 \<and> depth_ok (d - 1) cs
      else depth_ok d cs)"

lemma depth_ok_skip: "\<not> list_ex is_brace_token u \<Longrightarrow> depth_ok d (u @ v) \<longleftrightarrow> depth_ok d v"
  by (induction u) (auto simp: is_brace_token_def)

text \<open>Blocks that have nothing to report when they end.\<close>

definition silent :: "block \<Rightarrow> bool" where
  "silent b \<longleftrightarrow> seen_open_brace b \<and> (kind b = BlockInfo \<or> kind b = ExternCInfo)"

lemma brace_patterns_compiled [re_compiled]: "re_compile re_extern_c \<noteq> None" "re_compile MATCH_ASM \<noteq> None"
  by code_simp+

lemma brace_step_open:
  assumes "SeenOpenBrace st"
  obtains b st' where "brace_step filename cl n line ''{'' st = Some (st', [])" and "silent b"
    and "nesting_stack st' = b # nesting_stack st" and "pp_stack st' = pp_stack st"
proof -
  obtain x y where xy: "Matches re_extern_c line = Some x" "Matches MATCH_ASM line = Some y"
    using Matches_returns brace_patterns_compiled by metis
  let ?b = "if x then new_block (next_id st) True ExternCInfo
    else (new_block (next_id st) True BlockInfo)\<lparr>inline_asm := if y then BLOCK_ASM else NO_ASM\<rparr>"
  have "\<exists>st'. brace_step filename cl n line ''{'' st = Some (st', []) \<and>
      nesting_stack st' = ?b # nesting_stack st \<and> pp_stack st' = pp_stack st"
    using assms xy by (auto simp: brace_step_def push_def set_top_def new_block_def)
  then show thesis using that [of _ ?b] by (auto simp: silent_def new_block_def)
qed

lemma brace_step_other:
  assumes "SeenOpenBrace st"
  shows "brace_step filename cl n line '';'' st = Some (st, [])"
    and "brace_step filename cl n line '')'' st = Some (st, [])"
    and "nesting_stack st = b # bs \<Longrightarrow> silent b \<Longrightarrow>
      brace_step filename cl n line ''}'' st = Some (st\<lparr>nesting_stack := bs\<rparr>, [])"
  using assms by (auto simp: brace_step_def silent_def CheckEnd_def pop_block_def)

lemma SeenOpenBrace_silent: "list_all silent extra \<Longrightarrow> nesting_stack st = extra @ base \<Longrightarrow>
    base = [] \<or> seen_open_brace (hd base) \<Longrightarrow> SeenOpenBrace st"
  by (cases extra) (auto simp: SeenOpenBrace_def silent_def)

lemma brace_loop_balanced:
  assumes "one_line line" and "depth_ok (length extra) line" and "list_all silent extra"
    and "nesting_stack st = extra @ base" and "base = [] \<or> seen_open_brace (hd base)"
  shows "\<exists>st'. brace_loop filename cl n line st = Some (st', []) \<and>
    nesting_stack st' = base \<and> pp_stack st' = pp_stack st"
  using assms
proof (induction "length line" arbitrary: line extra st rule: less_induct)
  case less
  from less.prems(1) show ?case
  proof (cases rule: brace_shape)
    case 1
    then have "extra = []" using less.prems(2) depth_ok_skip [of line "length extra" "[]"] by simp
    with 1 less.prems(4) show ?thesis by (subst brace_loop.simps) simp
  next
    case (2 m u c v)
    have seen: "SeenOpenBrace st" using SeenOpenBrace_silent less.prems(3,4,5) by blast
    have v: "length v < length line" "one_line v" using 2(2) less.prems(1) by (auto simp: one_line_def)
    have d: "depth_ok (length extra) (c # v)" using less.prems(2) 2(2) depth_ok_skip [OF 2(4)] by simp
    have step: "brace_loop filename cl n line st =
        Option.bind (brace_step filename cl n line [c] st) (\<lambda>r.
        Option.bind (brace_loop filename cl n v (fst r)) (\<lambda>r'. Some (fst r', snd r @ snd r')))"
      using 2 by (subst brace_loop.simps) simp
    consider "c = CHR ''{''" | "c = CHR '';'' \<or> c = CHR '')''" | "c = CHR ''}''"
      using 2(3) by (auto simp: is_brace_token_def)
    then show ?thesis
    proof cases
      case 1
      obtain b st' where st': "brace_step filename cl n line ''{'' st = Some (st', [])" "silent b"
        "nesting_stack st' = b # nesting_stack st" "pp_stack st' = pp_stack st"
        using brace_step_open [OF seen] by blast
      then show ?thesis
        using less.hyps [OF v, of "b # extra" st'] d 1 less.prems step by auto
    next
      case 2
      then show ?thesis
        using less.hyps [OF v, of extra st] d less.prems step brace_step_other(1,2) [OF seen] by auto
    next
      case 3
      then obtain b bs where b: "extra = b # bs" using d by (cases extra) auto
      then show ?thesis
        using less.hyps [OF v, of bs "st\<lparr>nesting_stack := bs @ base\<rparr>"] d 3 less.prems step
          brace_step_other(3) [OF seen] by auto
    qed
  qed
qed



end
