(* ===== verification/FileChecks.thy ===== *)
theory FileChecks
  imports FileInfo IncludeState Nesting
begin

text \<open>
  The checks of \<^verbatim>\<open>script/cpplint.py\<close> that look at a file as a whole: the copyright
  notice, the header guard, the header a source file should include, bad characters and the newline
  at the end. A check returns the events it reports, in order. Lines that may hold any Unicode
  character are lists of code points.
\<close>

section \<open>Copyright\<close>

definition re_copyright :: string where
  "re_copyright = ''(?i)Copyright''"

fun copyright_loop :: "string list \<Rightarrow> bool py" where
  "copyright_loop [] = Some False"
| "copyright_loop (line # lines) = do {
     found \<leftarrow> Searches re_copyright line;
     if found then Some True else copyright_loop lines
   }"

text \<open>The lines looked at have the numbers from 1 to 10.\<close>

definition CheckForCopyright :: "string \<Rightarrow> string list \<Rightarrow> event list py" where
  "CheckForCopyright filename lines = do {
     found \<leftarrow> copyright_loop (drop 1 (take 11 lines));
     Some (if found then []
           else [Report filename 0 ''legal/copyright'' 5
                   (''No copyright message found.  '' @
                    ''You should have a line: '' @ double_quote @ ''Copyright [year] <Copyright Owner>'' @
                    double_quote)])
   }"

section \<open>The header guard\<close>

definition re_guard_nolint :: string where
  "re_guard_nolint = raw ''//`s*NOLINT`(build/header_guard`)''"

definition re_single_line_comment :: string where
  \<open>re_single_line_comment =
     raw ''^(?:(?:`'(?:`.|[^`'])*`')|(?:"(?:`.|[^"])*")|[^`'"])*//''\<close>

definition re_guard_endif :: "string \<Rightarrow> string" where
  "re_guard_endif cppvar = raw ''#endif`s*//`s*'' @ cppvar @ raw ''(_)?`b''"

definition re_guard_endif_c :: "string \<Rightarrow> string" where
  "re_guard_endif_c cppvar = raw ''#endif`s*/`*`s*'' @ cppvar @ raw ''(_)?`s*`*/''"

fun any_line :: "string \<Rightarrow> string list \<Rightarrow> bool py" where
  "any_line pattern [] = Some False"
| "any_line pattern (line # lines) = do {
     found \<leftarrow> Searches pattern line;
     if found then Some True else any_line pattern lines
   }"

fun any_match :: "string \<Rightarrow> string list \<Rightarrow> bool py" where
  "any_match pattern [] = Some False"
| "any_match pattern (line # lines) = do {
     found \<leftarrow> Matches pattern line;
     if found then Some True else any_match pattern lines
   }"

text \<open>What the scan of the lines has found so far.\<close>

record guard_scan =
  ifndef :: string
  ifndef_linenum :: int
  define_name :: string
  endif :: string
  endif_linenum :: int

definition init_scan :: guard_scan where
  "init_scan = \<lparr>ifndef = [], ifndef_linenum = 0, define_name = [], endif = [], endif_linenum = 0\<rparr>"

definition scan_step :: "int \<Rightarrow> string \<Rightarrow> guard_scan \<Rightarrow> guard_scan" where
  "scan_step linenum line s =
     (let linesplit = split_ws line;
          s = (if length linesplit \<ge> 2
               then (let s = (if ifndef s = [] \<and> linesplit ! 0 = ''#ifndef''
                              then s\<lparr>ifndef := linesplit ! 1, ifndef_linenum := linenum\<rparr> else s)
                     in if define_name s = [] \<and> linesplit ! 0 = ''#define''
                        then s\<lparr>define_name := linesplit ! 1\<rparr> else s)
               else s)
      in if startswith line ''#endif'' then s\<lparr>endif := line, endif_linenum := linenum\<rparr> else s)"

fun scan_guard :: "int \<Rightarrow> string list \<Rightarrow> guard_scan \<Rightarrow> guard_scan" where
  "scan_guard linenum [] s = s"
| "scan_guard linenum (line # lines) s = scan_guard (linenum + 1) lines (scan_step linenum line s)"

definition guard_report :: "string \<Rightarrow> int \<Rightarrow> int \<Rightarrow> string \<Rightarrow> event" where
  "guard_report filename linenum confidence message =
     Report filename linenum ''build/header_guard'' confidence message"

text \<open>The comment of the last \<^verbatim>\<open>#endif\<close>.\<close>

definition check_endif :: "string \<Rightarrow> string list \<Rightarrow> string \<Rightarrow> guard_scan \<Rightarrow> event list py" where
  "check_endif filename lines cppvar s = do {
     let slashes = ''#endif line should be '' @ double_quote @ ''#endif  // '' @ cppvar @ double_quote;
     m \<leftarrow> Match (re_guard_endif cppvar) (endif s);
     (case m of
        Some m \<Rightarrow> Some (if group m 1 = Some ''_'' then [guard_report filename (endif_linenum s) 0 slashes]
                         else [])
      | None \<Rightarrow> do {
          single \<leftarrow> any_match re_single_line_comment (drop 1 (take (length lines - 1) lines));
          m \<leftarrow> (if single then Some None else Match (re_guard_endif_c cppvar) (endif s));
          (case m of
             Some m \<Rightarrow>
               Some (if group m 1 = Some ''_''
                     then [guard_report filename (endif_linenum s) 0
                             (''#endif line should be '' @ double_quote @ ''#endif  /* '' @ cppvar @ '' */'' @
                              double_quote)]
                     else [])
           | None \<Rightarrow> Some [guard_report filename (endif_linenum s) 5 slashes])
        })
   }"

definition CheckForHeaderGuard :: "os \<Rightarrow> string option \<Rightarrow> string \<Rightarrow> CleansedLines \<Rightarrow> event list py" where
  "CheckForHeaderGuard env root_flag filename clean_lines = do {
     let lines = lines_without_raw_strings clean_lines;
     suppressed \<leftarrow> any_line re_guard_nolint lines;
     if suppressed then Some []
     else do {
       cppvar \<leftarrow> GetHeaderGuardCPPVariable env root_flag filename;
       let s = scan_guard 0 lines init_scan;
       if ifndef s = [] \<or> define_name s = [] \<or> ifndef s \<noteq> define_name s
       then Some [guard_report filename 0 5
                    (''No #ifndef header guard found, suggested CPP variable is: '' @ cppvar)]
       else do {
         style \<leftarrow> (if ifndef s \<noteq> cppvar
           then do {
             line \<leftarrow> py_index lines (ifndef_linenum s);
             nolint \<leftarrow> ParseNolintSuppressions filename line (ifndef_linenum s);
             Some (nolint @ [guard_report filename (ifndef_linenum s)
                               (if ifndef s \<noteq> cppvar @ ''_'' then 5 else 0)
                               (''#ifndef header guard has wrong style, please use: '' @ cppvar)])
           }
           else Some []);
         line \<leftarrow> py_index lines (endif_linenum s);
         nolint \<leftarrow> ParseNolintSuppressions filename line (endif_linenum s);
         comment \<leftarrow> check_endif filename lines cppvar s;
         Some (style @ nolint @ comment)
       }
     }
   }"

section \<open>The header of a source file\<close>

text \<open>
  The loop over the includes: None when one of them names the header, and otherwise the line of the
  first include (the first whose line is not 0).
\<close>

fun header_loop :: "string \<Rightarrow> int \<Rightarrow> (string \<times> int) list \<Rightarrow> int option" where
  "header_loop headername first_include [] = Some first_include"
| "header_loop headername first_include (f # fs) =
     (if contains (fst f) headername \<or> contains headername (fst f) then None
      else header_loop headername (if first_include = 0 then snd f else first_include) fs)"

definition CheckHeaderFileIncluded :: "os \<Rightarrow> string \<Rightarrow> IncludeState \<Rightarrow> event list py" where
  "CheckHeaderFileIncluded env filename include_state =
     (if endswith filename ''_test.cc'' \<or> endswith filename ''_unittest.cc'' then Some []
      else (let headerfile = py_slice filename 0 (int (length filename) - 2) @ ''h'' in
            if \<not> path_exists env headerfile then Some []
            else do {
              headername \<leftarrow> RepositoryName env headerfile;
              (case header_loop headername 0 (concat (include_list include_state)) of
                 None \<Rightarrow> Some []
               | Some first_include \<Rightarrow> do {
                   name \<leftarrow> RepositoryName env filename;
                   Some [Report filename first_include ''build/include'' 5
                           (name @ '' should include its header file '' @ headername)]
                 })
            }))"

section \<open>Characters\<close>

type_synonym ustring = "nat list"

fun bad_characters_from :: "string \<Rightarrow> int \<Rightarrow> ustring list \<Rightarrow> event list" where
  "bad_characters_from filename linenum [] = []"
| "bad_characters_from filename linenum (line # lines) =
     (if 0xFFFD \<in> set line
      then [Report filename linenum ''readability/utf8'' 5
              ''Line contains invalid UTF-8 (or Unicode replacement character).'']
      else []) @
     (if 0 \<in> set line then [Report filename linenum ''readability/nul'' 5 ''Line contains NUL byte.'']
      else []) @
     bad_characters_from filename (linenum + 1) lines"

definition CheckForBadCharacters :: "string \<Rightarrow> ustring list \<Rightarrow> event list" where
  "CheckForBadCharacters filename lines = bad_characters_from filename 0 lines"

definition CheckForNewlineAtEOF :: "string \<Rightarrow> ustring list \<Rightarrow> event list py" where
  "CheckForNewlineAtEOF filename lines = do {
     missing \<leftarrow> (if length lines < 3 then Some True
                 else do { l \<leftarrow> py_index lines (- 2); Some (l \<noteq> []) });
     Some (if missing
           then [Report filename (int (length lines) - 2) ''whitespace/ending_newline'' 5
                   ''Could not find a newline character at the end of the file.'']
           else [])
   }"

section \<open>What the guard's patterns match\<close>

abbreviation spaces_re :: re where
  "spaces_re \<equiv> RRepeat 0 None True (RSet False [ItemCat CatSpace])"

definition underscore_re :: re where
  "underscore_re = RRepeat 0 (Some 1) True (RGroup 1 (RChar (CHR ''_'')))"

definition guard_endif_re :: "string \<Rightarrow> re" where
  "guard_endif_re g = literal ''#endif'' [spaces_re, RChar (CHR ''/''), RChar (CHR ''/''), spaces_re,
     literal g [underscore_re, RBoundary True]]"

lemma re_guard_endif_compiled:
  assumes "list_all plain_char g" and "g \<noteq> []"
  shows "re_compile (re_guard_endif g) = Some (False, guard_endif_re g)"
proof -
  obtain c w where g: "g = c # w" "plain_char c" using assms by (cases g) auto
  have tail: "tokens (raw ''(_)?`b'') = Some [TOpen, TItem (RChar (CHR ''_'')), TClose, TQuant 0 (Some 1) True,
      TItem (RBoundary True)]" by code_simp
  have "tokens (re_guard_endif g) =
      map_option (\<lambda>ts. map (\<lambda>c. TItem (RChar c)) ''#endif'' @
        [TItem (RSet False [ItemCat CatSpace]), TQuant 0 None True, TItem (RChar (CHR ''/'')),
         TItem (RChar (CHR ''/'')), TItem (RSet False [ItemCat CatSpace]), TQuant 0 None True] @ ts)
        (tokens (g @ raw ''(_)?`b''))"
    using g by (simp add: re_guard_endif_def raw_def next_tok_def escape_tok_def category_escape_def
        lazy_mark_plain option.map_comp comp_def lazy_mark_def [of "CHR ''/'' # _"] backslash_def)
  then show ?thesis
    by (simp add: tokens_literal [OF assms(1)] tail re_compile_def parse_toks_literal guard_endif_re_def
        literal_def repeatable_def close_group_def underscore_re_def mk_seq_Cons)
qed

lemma append_stop_unique:
  assumes "list_all P u" and "list_all P v" and "\<not> P a" and "\<not> P b" and "u @ a # x = v @ b # y"
  shows "u = v \<and> a = b \<and> x = y"
proof -
  have "takeWhile P (u @ a # x) = u" "takeWhile P (v @ b # y) = v"
    using assms(1-4) by (auto simp: list_all_iff takeWhile_append2)
  with assms(5) show ?thesis by auto
qed

lemma space_class: "set_match False False [ItemCat CatSpace] = re_space"
  by (auto simp: set_match_def cat_match_def fun_eq_iff)

lemma denotes_spaces:
  "denotes False s spaces_re (c, g) (d, h) \<longleftrightarrow> h = g \<and> (\<exists>w. list_all re_space w \<and> goes c w d)"
  unfolding reads space_class ..

lemma denotes_underscore:
  "denotes False s underscore_re (c, g) (d, h) \<longleftrightarrow>
     d = c \<and> h = g \<or> goes c ''_'' d \<and> h = (1, pos_of c, pos_of d) # g"
  unfolding underscore_re_def denotes_option denotes_group denotes_char by auto

lemma guard_endif_denotes:
  "denotes False s (guard_endif_re g) (c, h) (e, k) \<longleftrightarrow>
     (\<exists>c1 u c2 c3 c4 v c5 c6. goes c ''#endif'' c1 \<and> list_all re_space u \<and> goes c1 u c2 \<and> goes c2 ''/'' c3 \<and>
        goes c3 ''/'' c4 \<and> list_all re_space v \<and> goes c4 v c5 \<and> goes c5 g c6 \<and> at_boundary e \<and>
        (e = c6 \<and> k = h \<or> goes c6 ''_'' e \<and> k = (1, pos_of c6, pos_of e) # h))"
  unfolding guard_endif_re_def
  by (simp add: denotes_literal denotes_seq denotes_spaces denotes_char denotes_underscore denotes_boundary
      del: split_paired_Ex split_paired_All) blast

lemma Match_guard_endif:
  assumes "list_all re_space u" and "list_all re_space v" and "list_all plain_char g" and "list_all re_word g"
    and "g \<noteq> []"
  shows "Match (re_guard_endif g) (''#endif'' @ u @ ''//'' @ v @ g) =
    Some (Some \<lparr>m_string = ''#endif'' @ u @ ''//'' @ v @ g, m_start = 0,
      m_end = length (''#endif'' @ u @ ''//'' @ v @ g), m_groups = []\<rparr>)"
proof -
  let ?s = "''#endif'' @ u @ ''//'' @ v @ g"
  let ?c = "start_cursor ?s"
  have plain: "plain_look (guard_endif_re g)"
    by (simp add: guard_endif_re_def underscore_re_def)
  have rest: "rest_of ?c = ?s" by (simp add: start_cursor_def)
  obtain a gs where g: "g = a # gs" "\<not> re_space a"
    using assms(4,5) by (cases g) (auto simp: re_space_def re_word_def Let_def)
  have slash: "\<not> re_space (CHR ''/'')" by code_simp
  have unique: "pos_of e = length ?s \<and> k = []" if d: "denotes False ?s (guard_endif_re g) (?c, []) (e, k)" for e k
  proof -
    from d obtain c1 u' c2 c3 c4 v' c5 c6 where p: "goes ?c ''#endif'' c1" "list_all re_space u'" "goes c1 u' c2"
      "goes c2 ''/'' c3" "goes c3 ''/'' c4" "list_all re_space v'" "goes c4 v' c5" "goes c5 g c6"
      and e: "e = c6 \<and> k = [] \<or> goes c6 ''_'' e"
      unfolding guard_endif_denotes by blast
    have "u @ ''//'' @ v @ g = u' @ ''//'' @ v' @ g @ rest_of c6"
      using rest p(1,3,4,5,7,8) [THEN goes_rest] by simp
    then have "u = u'" "v @ g = v' @ g @ rest_of c6"
      using append_stop_unique [OF assms(1) p(2) slash slash, of "CHR ''/'' # v @ g" "CHR ''/'' # v' @ g @ rest_of c6"] by auto
    then have "rest_of c6 = []"
      using append_stop_unique [OF assms(2) p(6) g(2) g(2), of gs "gs @ rest_of c6"] g(1) by simp
    moreover from this have "e = c6 \<and> k = []" using e by (auto simp: goes_def)
    moreover have "pos_of c6 + length (rest_of c6) = pos_of ?c + length (rest_of ?c)"
      using p(1,3,4,5,7,8) unfolding goes_def by simp
    ultimately show ?thesis by (simp add: start_cursor_def)
  qed
  obtain c1 c2 c3 c4 c5 c6 where p: "goes ?c ''#endif'' c1" "goes c1 u c2" "goes c2 ''/'' c3" "goes c3 ''/'' c4"
    "goes c4 v c5" "goes c5 g c6" "rest_of c6 = []"
    using goes_exists [of ?c "''#endif''" "u @ ''//'' @ v @ g"] rest
    by (metis append_Cons append_Nil append_Nil2 goes_exists)
  have "at_boundary c6" using p(6,7) assms(4,5) by (auto simp: at_boundary_def goes_def list_all_iff)
  then have "denotes False ?s (guard_endif_re g) (?c, []) (c6, [])"
    unfolding guard_endif_denotes using p assms(1,2) by blast
  from Match_eqI [OF re_guard_endif_compiled [OF assms(3,5)] plain this unique] show ?thesis by simp
qed

lemma guard_characters:
  assumes "GetHeaderGuardCPPVariable env root_flag filename = Some g"
  shows "list_all plain_char g" and "list_all re_word g" and "g \<noteq> []"
proof -
  obtain n where g: "g = map guard_char n @ ''_''" using GetHeaderGuardCPPVariable_form [OF assms] by blast
  have "re_word (guard_char c)" for c
    using guard_char_range [of c] by (auto simp: re_word_def Let_def code_def)
  moreover have "plain_char (guard_char c)" for c
    using guard_char_range [of c] by (auto simp: plain_char_def code_def backslash_def)
  moreover have "plain_char (CHR ''_'')" "re_word (CHR ''_'')" by code_simp+
  ultimately show "list_all plain_char g" "list_all re_word g" "g \<noteq> []" by (auto simp: g list_all_iff)
qed

section \<open>What the scan finds\<close>

text \<open>The name after the first directive \<open>d\<close> that has one.\<close>

fun first_arg :: "string \<Rightarrow> string list \<Rightarrow> string option" where
  "first_arg d [] = None"
| "first_arg d (line # lines) =
     (case split_ws line of
        w # a # _ \<Rightarrow> if w = d then Some a else first_arg d lines
      | _ \<Rightarrow> first_arg d lines)"

definition text_of :: "string option \<Rightarrow> string" where
  "text_of x = (case x of None \<Rightarrow> [] | Some s \<Rightarrow> s)"

lemma split_ws_nonempty: "w \<in> set (split_ws s) \<Longrightarrow> w \<noteq> []"
proof (induction s arbitrary: w)
  case (Cons x xs)
  have "w \<in> set (split_ws xs) \<or> (\<exists>v. w = x # v)" using Cons.prems
    by (subst (asm) split_ws.simps) (auto simp del: split_ws.simps split: if_splits list.splits)
  with Cons.IH show ?case by auto
qed simp

lemma first_arg_nonempty: "first_arg d lines = Some a \<Longrightarrow> a \<noteq> []"
proof (induction lines)
  case (Cons line lines)
  have "a \<noteq> []" if "split_ws line = w # a # ws" for w ws using split_ws_nonempty [of a line] that by simp
  with Cons show ?case by (simp split: list.splits if_splits)
qed simp

lemma scan_step_fields:
  "ifndef (scan_step k line s) = (if ifndef s = [] then text_of (first_arg ''#ifndef'' [line]) else ifndef s)"
  "define_name (scan_step k line s) =
     (if define_name s = [] then text_of (first_arg ''#define'' [line]) else define_name s)"
  "endif (scan_step k line s) = (if startswith line ''#endif'' then line else endif s)"
  "endif_linenum (scan_step k line s) = (if startswith line ''#endif'' then k else endif_linenum s)"
  by (auto simp: scan_step_def Let_def text_of_def split: list.splits)

lemma first_arg_Cons:
  "first_arg d (line # lines) = (case first_arg d [line] of None \<Rightarrow> first_arg d lines | Some a \<Rightarrow> Some a)"
  by (auto split: list.splits)

lemma scan_guard_names:
  "ifndef (scan_guard k lines s) = (if ifndef s = [] then text_of (first_arg ''#ifndef'' lines) else ifndef s)"
  "define_name (scan_guard k lines s) =
     (if define_name s = [] then text_of (first_arg ''#define'' lines) else define_name s)"
proof (induction lines arbitrary: k s)
  case (Cons line lines)
  case 1
  show ?case unfolding scan_guard.simps Cons scan_step_fields first_arg_Cons [of _ line lines]
    by (cases "first_arg ''#ifndef'' [line]")
      (auto simp: text_of_def simp del: first_arg.simps dest: first_arg_nonempty)
  case 2
  show ?case unfolding scan_guard.simps Cons scan_step_fields first_arg_Cons [of _ line lines]
    by (cases "first_arg ''#define'' [line]")
      (auto simp: text_of_def simp del: first_arg.simps dest: first_arg_nonempty)
qed (simp_all add: text_of_def)

lemma scan_guard_no_endif:
  "list_all (\<lambda>l. \<not> startswith l ''#endif'') lines \<Longrightarrow>
     endif (scan_guard k lines s) = endif s \<and> endif_linenum (scan_guard k lines s) = endif_linenum s"
  by (induction lines arbitrary: k s) (simp_all add: scan_step_fields)

lemma scan_guard_endif:
  assumes "startswith l ''#endif''" and "list_all (\<lambda>l. \<not> startswith l ''#endif'') post"
  shows "endif (scan_guard k (pre @ l # post) s) = l \<and>
    endif_linenum (scan_guard k (pre @ l # post) s) = k + int (length pre)"
  by (induction pre arbitrary: k s)
    (simp_all add: scan_guard_no_endif [OF assms(2)] scan_step_fields assms(1))

lemma scan_guard_found:
  "ifndef (scan_guard k lines init_scan) = text_of (first_arg ''#ifndef'' lines)"
  "define_name (scan_guard k lines init_scan) = text_of (first_arg ''#define'' lines)"
  unfolding scan_guard_names by (simp_all add: init_scan_def)

text \<open>
  A header whose first \<^verbatim>\<open>#ifndef\<close> and first \<^verbatim>\<open>#define\<close> do not name the same
  macro has no guard, and the check says so at line 0 and suggests the name made from the path.
\<close>

theorem CheckForHeaderGuard_missing:
  assumes "any_line re_guard_nolint (lines_without_raw_strings clean_lines) = Some False"
    and "GetHeaderGuardCPPVariable env root_flag filename = Some g"
    and "first_arg ''#ifndef'' (lines_without_raw_strings clean_lines) = None \<or>
      first_arg ''#ifndef'' (lines_without_raw_strings clean_lines) \<noteq>
      first_arg ''#define'' (lines_without_raw_strings clean_lines)"
  shows "CheckForHeaderGuard env root_flag filename clean_lines =
    Some [Report filename 0 ''build/header_guard'' 5
            (''No #ifndef header guard found, suggested CPP variable is: '' @ g)]"
proof -
  let ?s = "scan_guard 0 (lines_without_raw_strings clean_lines) init_scan"
  have "ifndef ?s = [] \<or> define_name ?s = [] \<or> ifndef ?s \<noteq> define_name ?s"
    using assms(3) first_arg_nonempty unfolding scan_guard_found text_of_def
    by (auto split: option.splits)
  then show ?thesis using assms(1,2) by (simp add: CheckForHeaderGuard_def Let_def guard_report_def)
qed

text \<open>The lines of a header, for examples.\<close>

definition sample_header :: "string list \<Rightarrow> CleansedLines" where
  "sample_header lines = \<lparr>elided_lines = lines, cleansed_lines = lines, raw_lines = lines,
     num_lines = int (length lines), lines_without_raw_strings = lines\<rparr>"

theorem CheckForHeaderGuard_missing_witness:
  "CheckForHeaderGuard (sample_os ''/home/u/DN/.git'') None ''a.h'' (sample_header [''#ifndef A'', ''#define B'']) =
     Some [Report ''a.h'' 0 ''build/header_guard'' 5
             ''No #ifndef header guard found, suggested CPP variable is: SRC_A_H_'']"
proof -
  let ?cl = "sample_header [''#ifndef A'', ''#define B'']"
  have "any_line re_guard_nolint (lines_without_raw_strings ?cl) = Some False" by code_simp
  moreover have "GetHeaderGuardCPPVariable (sample_os ''/home/u/DN/.git'') None ''a.h'' = Some ''SRC_A_H_''" by code_simp
  moreover have "first_arg ''#ifndef'' (lines_without_raw_strings ?cl) = None \<or>
      first_arg ''#ifndef'' (lines_without_raw_strings ?cl) \<noteq> first_arg ''#define'' (lines_without_raw_strings ?cl)"
    by code_simp
  ultimately have "CheckForHeaderGuard (sample_os ''/home/u/DN/.git'') None ''a.h'' ?cl =
     Some [Report ''a.h'' 0 ''build/header_guard'' 5
             (''No #ifndef header guard found, suggested CPP variable is: '' @ ''SRC_A_H_'')]"
    by (rule CheckForHeaderGuard_missing)
  then show ?thesis by simp
qed

text \<open>
  C18. A header guarded by the macro made from its path, whose last \<^verbatim>\<open>#endif\<close> carries the comment
  \<^verbatim>\<open>// GUARD\<close>, is accepted: nothing is reported but what a NOLINT comment on the
  \<^verbatim>\<open>#endif\<close> line itself says.
\<close>

theorem CheckForHeaderGuard_accepts:
  assumes "any_line re_guard_nolint (lines_without_raw_strings clean_lines) = Some False"
    and "GetHeaderGuardCPPVariable env root_flag filename = Some g"
    and "first_arg ''#ifndef'' (lines_without_raw_strings clean_lines) = Some g"
    and "first_arg ''#define'' (lines_without_raw_strings clean_lines) = Some g"
    and "lines_without_raw_strings clean_lines = before @ (''#endif'' @ u @ ''//'' @ v @ g) # after"
    and "list_all re_space u" and "list_all re_space v"
    and "list_all (\<lambda>l. \<not> startswith l ''#endif'') after"
  shows "CheckForHeaderGuard env root_flag filename clean_lines =
    ParseNolintSuppressions filename (''#endif'' @ u @ ''//'' @ v @ g) (int (length before))"
proof -
  let ?l = "''#endif'' @ u @ ''//'' @ v @ g"
  let ?s = "scan_guard 0 (lines_without_raw_strings clean_lines) init_scan"
  have "startswith ?l ''#endif''" by (simp add: startswith_iff)
  from scan_guard_endif [OF this assms(8), of 0 before init_scan]
  have e: "endif ?s = ?l" "endif_linenum ?s = int (length before)" by (simp_all add: assms(5))
  have n: "ifndef ?s = g" "define_name ?s = g" "g \<noteq> []"
    using assms(3,4) guard_characters(3) [OF assms(2)] by (simp_all add: scan_guard_found text_of_def)
  have "check_endif filename lines g ?s = Some []" for lines
    unfolding check_endif_def e Match_guard_endif [OF assms(6,7) guard_characters [OF assms(2)]]
    by (simp add: group_def)
  moreover have "py_index (lines_without_raw_strings clean_lines) (int (length before)) = Some ?l"
    unfolding assms(5) py_index_def by simp
  ultimately show ?thesis
    unfolding CheckForHeaderGuard_def Let_def assms(1,2) Option.bind.simps if_False n(1,2) e
    by (simp add: n(3))
qed

theorem CheckForHeaderGuard_accepts_witness:
  "CheckForHeaderGuard (sample_os ''/home/u/DN/.git'') None ''a.h''
     (sample_header [''#ifndef SRC_A_H_'', ''#define SRC_A_H_'', ''#endif  // SRC_A_H_'', []]) = Some []"
proof -
  let ?cl = "sample_header [''#ifndef SRC_A_H_'', ''#define SRC_A_H_'', ''#endif  // SRC_A_H_'', []]"
  let ?before = "[''#ifndef SRC_A_H_'', ''#define SRC_A_H_'']"
  have "any_line re_guard_nolint (lines_without_raw_strings ?cl) = Some False" by code_simp
  moreover have "GetHeaderGuardCPPVariable (sample_os ''/home/u/DN/.git'') None ''a.h'' = Some ''SRC_A_H_''" by code_simp
  moreover have "first_arg ''#ifndef'' (lines_without_raw_strings ?cl) = Some ''SRC_A_H_''"
    "first_arg ''#define'' (lines_without_raw_strings ?cl) = Some ''SRC_A_H_''"
    "lines_without_raw_strings ?cl = ?before @ (''#endif'' @ ''  '' @ ''//'' @ '' '' @ ''SRC_A_H_'') # [[]]"
    "list_all re_space ''  ''" "list_all re_space '' ''" "list_all (\<lambda>l. \<not> startswith l ''#endif'') [[]]"
    by code_simp+
  ultimately have "CheckForHeaderGuard (sample_os ''/home/u/DN/.git'') None ''a.h'' ?cl =
      ParseNolintSuppressions ''a.h'' (''#endif'' @ ''  '' @ ''//'' @ '' '' @ ''SRC_A_H_'') (int (length ?before))"
    by (rule CheckForHeaderGuard_accepts)
  also have "\<dots> = Some []" by code_simp
  finally show ?thesis .
qed

section \<open>The header of a source file, and the end of a file\<close>

definition names_header :: "string \<Rightarrow> string \<times> int \<Rightarrow> bool" where
  "names_header headername f \<longleftrightarrow> contains (fst f) headername \<or> contains headername (fst f)"

definition first_nonzero :: "(string \<times> int) list \<Rightarrow> int" where
  "first_nonzero fs = (case filter (\<lambda>f. snd f \<noteq> 0) fs of [] \<Rightarrow> 0 | f # _ \<Rightarrow> snd f)"

lemma header_loop_correct:
  "header_loop headername k fs =
     (if list_ex (names_header headername) fs then None else Some (if k = 0 then first_nonzero fs else k))"
  by (induction fs arbitrary: k) (auto simp: names_header_def first_nonzero_def)

text \<open>
  C29. A source file that is not a test and whose header exists must include it: nothing is reported
  exactly when some include of the file names the header (one name is a part of the other), and
  otherwise one report is made at the line of the first include.
\<close>

theorem CheckHeaderFileIncluded_correct:
  assumes "\<not> endswith filename ''_test.cc''" and "\<not> endswith filename ''_unittest.cc''"
    and "path_exists env (py_slice filename 0 (int (length filename) - 2) @ ''h'')"
    and "RepositoryName env (py_slice filename 0 (int (length filename) - 2) @ ''h'') = Some headername"
    and "RepositoryName env filename = Some name"
  shows "CheckHeaderFileIncluded env filename include_state =
    Some (if list_ex (names_header headername) (concat (include_list include_state)) then []
          else [Report filename (first_nonzero (concat (include_list include_state))) ''build/include'' 5
                  (name @ '' should include its header file '' @ headername)])"
  using assms by (simp add: CheckHeaderFileIncluded_def Let_def header_loop_correct)

theorem CheckHeaderFileIncluded_correct_witness:
  "CheckHeaderFileIncluded (sample_os ''/home/u/DN/.git'') ''/home/u/DN/src/a.cc''
     (init_IncludeState\<lparr>include_list := [[(''vector'', 3)], [(''b.h'', 5)]]\<rparr>) =
   Some [Report ''/home/u/DN/src/a.cc'' 3 ''build/include'' 5
           ''/home/u/DN/src/a.cc should include its header file src/a.h'']"
proof -
  let ?f = "''/home/u/DN/src/a.cc''" and ?env = "sample_os ''/home/u/DN/.git''"
  let ?st = "init_IncludeState\<lparr>include_list := [[(''vector'', 3)], [(''b.h'', 5)]]\<rparr>"
  have "\<not> endswith ?f ''_test.cc''" "\<not> endswith ?f ''_unittest.cc''"
    "path_exists ?env (py_slice ?f 0 (int (length ?f) - 2) @ ''h'')"
    "RepositoryName ?env (py_slice ?f 0 (int (length ?f) - 2) @ ''h'') = Some ''src/a.h''"
    "RepositoryName ?env ?f = Some ?f" by code_simp+
  note r = CheckHeaderFileIncluded_correct [OF this, of ?st]
  have "\<not> list_ex (names_header ''src/a.h'') (concat (include_list ?st))"
    "first_nonzero (concat (include_list ?st)) = 3" by code_simp+
  with r show ?thesis by simp
qed

text \<open>
  Both kinds of bad character are reported on every line that has them and on no other: the
  reports are exactly one per line with a replacement character and one per line with a NUL.
\<close>

theorem CheckForBadCharacters_correct:
  "CheckForBadCharacters filename lines =
     concat (map (\<lambda>k. (if 0xFFFD \<in> set (lines ! k)
                         then [Report filename (int k) ''readability/utf8'' 5
                                 ''Line contains invalid UTF-8 (or Unicode replacement character).''] else []) @
                       (if 0 \<in> set (lines ! k)
                         then [Report filename (int k) ''readability/nul'' 5 ''Line contains NUL byte.''] else []))
       [0..<length lines])"
proof -
  let ?at = "\<lambda>i lines k.
      (if 0xFFFD \<in> set (lines ! k)
       then [Report filename (i + int k) ''readability/utf8'' 5
               ''Line contains invalid UTF-8 (or Unicode replacement character).''] else []) @
      (if 0 \<in> set (lines ! k)
       then [Report filename (i + int k) ''readability/nul'' 5 ''Line contains NUL byte.''] else [])"
  have "bad_characters_from filename i lines = concat (map (?at i lines) [0..<length lines])" for i
  proof (induction lines arbitrary: i)
    case (Cons l ls)
    have "map (?at i (l # ls)) [0..<length (l # ls)] = ?at i (l # ls) 0 # map (?at (i + 1) ls) [0..<length ls]"
      unfolding length_Cons upt_conv_Cons [OF zero_less_Suc] map_Suc_upt [symmetric]
      by (simp add: comp_def add.assoc)
    then show ?case by (simp add: Cons)
  qed simp
  from this [of 0] show ?thesis unfolding CheckForBadCharacters_def add_0 .
qed

text \<open>\<^verbatim>\<open>text.split('\n')\<close> on code points.\<close>

fun split_lines :: "ustring \<Rightarrow> ustring list" where
  "split_lines [] = [[]]"
| "split_lines (c # cs) =
     (if c = 10 then [] # split_lines cs
      else (case split_lines cs of [] \<Rightarrow> [[c]] | l # ls \<Rightarrow> (c # l) # ls))"

lemma split_lines_nonempty [simp]: "split_lines t \<noteq> []"
  by (induction t) (auto split: list.splits)

lemma split_lines_single: "split_lines t = [l] \<Longrightarrow> l = t"
  by (induction t arbitrary: l) (auto split: if_splits list.splits)

lemma last_split_lines: "last (split_lines t) = [] \<longleftrightarrow> t = [] \<or> last t = 10"
proof (induction t)
  case (Cons c cs)
  show ?case
  proof (cases "c = 10")
    case True
    with Cons show ?thesis by simp
  next
    case False
    obtain l ls where l: "split_lines cs = l # ls" by (cases "split_lines cs") auto
    show ?thesis using Cons False l split_lines_single [of cs l] by (cases ls; cases cs) auto
  qed
qed simp

text \<open>
  The newline at the end: of the lines of a text, put between the two marker lines, the check
  reports nothing exactly when the text is empty or ends in a newline, and otherwise it reports the
  number of the text's last line.
\<close>

theorem CheckForNewlineAtEOF_correct:
  "CheckForNewlineAtEOF filename (marker # split_lines t @ [marker']) =
     Some (if t = [] \<or> last t = 10 then []
           else [Report filename (int (length (split_lines t))) ''whitespace/ending_newline'' 5
                   ''Could not find a newline character at the end of the file.''])"
proof -
  obtain ls l where ls: "split_lines t = ls @ [l]" using split_lines_nonempty [of t] by (metis rev_exhaust)
  have "py_index (marker # split_lines t @ [marker']) (- 2) = Some l"
    unfolding ls py_index_def by (simp add: nth_append nat_add_distrib)
  moreover have "l = [] \<longleftrightarrow> t = [] \<or> last t = 10" using last_split_lines [of t] by (simp add: ls)
  ultimately show ?thesis by (auto simp: CheckForNewlineAtEOF_def ls)
qed

end
