(* ===== verification/FunctionState.thy ===== *)
theory FunctionState
  imports LintState
begin

text \<open>
  The class \<^verbatim>\<open>_FunctionState\<close> of \<^verbatim>\<open>script/cpplint.py\<close>: the function being read and
  the number of lines of its body, and the report of functions that are too long.

  \<^verbatim>\<open>2**verbosity\<close> is an integer for a verbosity of at least zero and a float below it; both
  are exact, so the comparison is written over the integers. \<^verbatim>\<open>math.log(q, 2)\<close> raises for a
  quotient of zero, which only a negative verbosity makes possible; for the quotients up to 63, the
  only ones the cap of 5 leaves visible, the truncated floating-point logarithm is the integer one.
\<close>

record FunctionState =
  in_a_function :: bool
  lines_in_function :: int
  current_function :: string

definition NORMAL_TRIGGER :: int where
  "NORMAL_TRIGGER = 250"

definition TEST_TRIGGER :: int where
  "TEST_TRIGGER = 400"

definition init_FunctionState :: FunctionState where
  "init_FunctionState = \<lparr>in_a_function = False, lines_in_function = 0, current_function = []\<rparr>"

definition Begin :: "string \<Rightarrow> FunctionState \<Rightarrow> FunctionState" where
  "Begin function_name st =
     st\<lparr>in_a_function := True, lines_in_function := 0, current_function := function_name\<rparr>"

definition Count :: "FunctionState \<Rightarrow> FunctionState" where
  "Count st =
     (if in_a_function st then st\<lparr>lines_in_function := lines_in_function st + 1\<rparr> else st)"

definition End :: "FunctionState \<Rightarrow> FunctionState" where
  "End st = st\<lparr>in_a_function := False\<rparr>"

definition re_test_function :: string where
  "re_test_function = ''T(EST|est)''"

definition base_trigger :: "FunctionState \<Rightarrow> int py" where
  "base_trigger st = do {
     is_test \<leftarrow> Matches re_test_function (current_function st);
     Some (if is_test then TEST_TRIGGER else NORMAL_TRIGGER)
   }"

text \<open>\<^verbatim>\<open>lines > base * 2**v\<close>, and the trigger as it is printed (truncated).\<close>

definition exceeds_trigger :: "int \<Rightarrow> int \<Rightarrow> int \<Rightarrow> bool" where
  "exceeds_trigger n base v =
     (if 0 \<le> v then n > base * 2 ^ nat v else n * 2 ^ nat (- v) > base)"

definition printed_trigger :: "int \<Rightarrow> int \<Rightarrow> int" where
  "printed_trigger base v = (if 0 \<le> v then base * 2 ^ nat v else base div 2 ^ nat (- v))"

text \<open>The integer part of the logarithm to base 2 of a positive number.\<close>

fun log2 :: "nat \<Rightarrow> nat" where
  "log2 n = (if n < 2 then 0 else Suc (log2 (n div 2)))"

declare log2.simps [simp del]

definition Check :: "int \<Rightarrow> FunctionState \<Rightarrow> string \<Rightarrow> int \<Rightarrow> event list py" where
  "Check verbosity st filename linenum = do {
     base \<leftarrow> base_trigger st;
     if exceeds_trigger (lines_in_function st) base verbosity
     then (let quotient = lines_in_function st div base in
           if quotient \<le> 0 then raise
           else Some [Report filename linenum ''readability/fn_size''
                        (min 5 (int (log2 (nat quotient))))
                        (''Small and focused functions are preferred: '' @ current_function st @
                         '' has '' @ str_of_int (lines_in_function st) @ '' non-comment lines'' @
                         '' (error triggered by exceeding '' @
                         str_of_int (printed_trigger base verbosity) @ '' lines).'')])
     else Some []
   }"

section \<open>The logarithm\<close>

lemma log2_bounds: "0 < n \<Longrightarrow> 2 ^ log2 n \<le> n \<and> n < 2 ^ Suc (log2 n)"
proof (induction n rule: log2.induct)
  case (1 n)
  show ?case
  proof (cases "n < 2")
    case True
    with 1 show ?thesis by (simp add: log2.simps)
  next
    case False
    with 1 have "2 ^ log2 (n div 2) \<le> n div 2 \<and> n div 2 < 2 ^ Suc (log2 (n div 2))" by simp
    then have "2 * 2 ^ log2 (n div 2) \<le> n" "n < 2 * 2 ^ Suc (log2 (n div 2))" by auto
    with False show ?thesis by (subst (1 2) log2.simps) simp
  qed
qed

lemma log2_ge: "2 ^ k \<le> n \<Longrightarrow> k \<le> log2 n"
proof -
  assume k: "2 ^ k \<le> n"
  then have "n < 2 ^ Suc (log2 n)" using log2_bounds [of n] by (cases n) auto
  with k have "(2::nat) ^ k < 2 ^ Suc (log2 n)" by linarith
  then show ?thesis using power_less_imp_less_exp [of "2::nat" k "Suc (log2 n)"] by simp
qed

lemma log2_quotient:
  fixes n base :: int
  assumes "0 < base" and "0 < n div base"
  shows "base * 2 ^ log2 (nat (n div base)) \<le> n \<and> n < base * 2 ^ Suc (log2 (nat (n div base)))"
proof -
  let ?q = "n div base" and ?l = "log2 (nat (n div base))"
  have l: "2 ^ ?l \<le> ?q" "?q + 1 \<le> 2 ^ Suc ?l"
    using log2_bounds [of "nat ?q"] assms(2)
    by (auto simp: nat_le_iff le_nat_iff nat_less_iff zless_nat_eq_int_zless)
  have n: "n = base * ?q + n mod base" and r: "0 \<le> n mod base" "n mod base < base"
    using assms(1) by simp_all
  have "base * 2 ^ ?l \<le> base * ?q" using l(1) assms(1) by simp
  moreover have "base * (?q + 1) \<le> base * 2 ^ Suc ?l"
    using l(2) assms(1) by (simp del: power_Suc)
  then have "base * ?q + base \<le> base * 2 ^ Suc ?l" by (simp add: distrib_left del: power_Suc)
  ultimately show ?thesis using n r by linarith
qed

section \<open>Reports\<close>

lemma re_test_function_compiled [re_compiled]: "re_compile re_test_function \<noteq> None"
  by code_simp

lemma base_trigger_returns: "\<exists>base. base_trigger st = Some base \<and> base \<in> {NORMAL_TRIGGER, TEST_TRIGGER}"
proof -
  obtain r where "re_compile re_test_function = Some r" using re_test_function_compiled by blast
  then show ?thesis by (auto simp: base_trigger_def Matches_def Match_def)
qed

lemmas triggers = NORMAL_TRIGGER_def TEST_TRIGGER_def

lemma exceeds_quotient:
  assumes "0 \<le> v" and "exceeds_trigger n base v" and "base \<in> {NORMAL_TRIGGER, TEST_TRIGGER}"
  shows "2 ^ nat v \<le> n div base"
proof -
  have "0 < base" using assms(3) by (auto simp: triggers)
  moreover have "2 ^ nat v * base \<le> n"
    using assms(1,2) by (simp add: exceeds_trigger_def mult.commute)
  ultimately show ?thesis by (metis nonzero_mult_div_cancel_right less_irrefl zdiv_mono1)
qed


text \<open>Below verbosity 0 the trigger can be under the base, and the logarithm of zero raises.\<close>

lemma Check_negative_verbosity_raises:
  "Check (- 1) \<lparr>in_a_function = True, lines_in_function = 126, current_function = ''Run''\<rparr> ''a.cc'' 9 = raise"
  by code_simp


lemma Count_pow: "in_a_function st \<Longrightarrow>
    (Count ^^ n) st = st\<lparr>lines_in_function := lines_in_function st + int n\<rparr>"
proof (induction n)
  case (Suc n)
  then show ?case by (simp add: Count_def add.commute)
qed simp

lemma Count_outside: "\<not> in_a_function st \<Longrightarrow> (Count ^^ n) st = st"
  by (induction n) (simp_all add: Count_def)

text \<open>
  The line counter counts the lines between \<open>Begin\<close> and the check: after \<open>Begin\<close> and \<open>n\<close> counted
  lines it is \<open>n\<close>, and after \<open>End\<close> no line is counted any more.
\<close>

theorem Count_counts_body:
  "lines_in_function ((Count ^^ n) (Begin f st)) = int n \<and>
   current_function ((Count ^^ n) (Begin f st)) = f \<and>
   (Count ^^ m) (End ((Count ^^ n) (Begin f st))) = End ((Count ^^ n) (Begin f st))"
proof -
  have "(Count ^^ n) (Begin f st) =
      st\<lparr>in_a_function := True, lines_in_function := int n, current_function := f\<rparr>"
    by (simp add: Begin_def Count_pow)
  then show ?thesis by (simp add: Count_outside End_def)
qed

end
