(* ===== verification/LineChecks.thy ===== *)
theory LineChecks
  imports Nesting FunctionState
begin

text \<open>
  The checks of \<^verbatim>\<open>script/cpplint.py\<close> that look at one line (and sometimes at its neighbours) and
  keep no state of their own. Each returns the events it reports, in order; \<open>None\<close> is an exception.
  The patterns are the strings of the source, a backquote standing for the backslash.

  The contract they share is the locale \<open>line_check\<close>: on a line of the file a check returns, and
  what it returns are reports about that line under a listed category.
\<close>

section \<open>Helpers\<close>

definition single_quote :: string where
  "single_quote = [CHR 0x27]"

definition elided :: "CleansedLines \<Rightarrow> int \<Rightarrow> string py" where
  "elided clean_lines linenum = py_index (elided_lines clean_lines) linenum"

definition report_if :: "bool \<Rightarrow> event \<Rightarrow> event list" where
  "report_if b e = (if b then [e] else [])"

text \<open>\<^verbatim>\<open>a and b\<close> and \<^verbatim>\<open>a or b\<close>: the right operand is only evaluated when it decides.\<close>

definition and_then :: "bool py \<Rightarrow> bool py \<Rightarrow> bool py" where
  "and_then a b = do { x \<leftarrow> a; if x then b else Some False }"

definition or_else :: "bool py \<Rightarrow> bool py \<Rightarrow> bool py" where
  "or_else a b = do { x \<leftarrow> a; if x then Some True else b }"

definition negate :: "bool py \<Rightarrow> bool py" where
  "negate a = map_option Not a"

section \<open>Comments and strings over several lines\<close>

definition CheckForMultilineCommentsAndStrings :: "string \<Rightarrow> CleansedLines \<Rightarrow> int \<Rightarrow> event list py" where
  "CheckForMultilineCommentsAndStrings filename clean_lines linenum = do {
     line \<leftarrow> elided clean_lines linenum;
     let line = py_replace line [backslash, backslash] [];
     Some (report_if (py_count line ''/*'' > py_count line ''*/'')
             (Report filename linenum ''readability/multiline_comment'' 5
                (''Complex multi-line /*...*/-style comment found. Lint may give bogus warnings.  Consider replacing these with //-style comments, with #if 0...#endif, or with more clearly structured multi-line comments.'')) @
           report_if (odd (int (py_count line double_quote) - int (py_count line ([backslash] @ double_quote))))
             (Report filename linenum ''readability/multiline_string'' 5
                (''Multi-line string ('' @ double_quote @ ''...'' @ double_quote @ '') found.  This lint script doesn'' @ single_quote @ ''t do well with such strings, and may give bogus warnings.  Use C++11 raw strings or concatenation instead.'')))
   }"

section \<open>Functions that are not safe in threads\<close>

definition UNSAFE_FUNC_PREFIX :: string where
  "UNSAFE_FUNC_PREFIX = raw ''(?:[-+*/=%^&|(<]`s*|>`s+)''"

definition THREADING_LIST :: "(string \<times> string \<times> string) list" where
  "THREADING_LIST =
     [(''asctime('', ''asctime_r('', UNSAFE_FUNC_PREFIX @ raw ''asctime`([^)]+`)''),
      (''ctime('', ''ctime_r('', UNSAFE_FUNC_PREFIX @ raw ''ctime`([^)]+`)''),
      (''getgrgid('', ''getgrgid_r('', UNSAFE_FUNC_PREFIX @ raw ''getgrgid`([^)]+`)''),
      (''getgrnam('', ''getgrnam_r('', UNSAFE_FUNC_PREFIX @ raw ''getgrnam`([^)]+`)''),
      (''getlogin('', ''getlogin_r('', UNSAFE_FUNC_PREFIX @ raw ''getlogin`(`)''),
      (''getpwnam('', ''getpwnam_r('', UNSAFE_FUNC_PREFIX @ raw ''getpwnam`([^)]+`)''),
      (''getpwuid('', ''getpwuid_r('', UNSAFE_FUNC_PREFIX @ raw ''getpwuid`([^)]+`)''),
      (''gmtime('', ''gmtime_r('', UNSAFE_FUNC_PREFIX @ raw ''gmtime`([^)]+`)''),
      (''localtime('', ''localtime_r('', UNSAFE_FUNC_PREFIX @ raw ''localtime`([^)]+`)''),
      (''rand('', ''rand_r('', UNSAFE_FUNC_PREFIX @ raw ''rand`(`)''),
      (''strtok('', ''strtok_r('', UNSAFE_FUNC_PREFIX @ raw ''strtok`([^)]+`)''),
      (''ttyname('', ''ttyname_r('', UNSAFE_FUNC_PREFIX @ raw ''ttyname`([^)]+`)'')]"

fun threading_loop :: "string \<Rightarrow> string \<Rightarrow> int \<Rightarrow> (string \<times> string \<times> string) list \<Rightarrow> event list py" where
  "threading_loop filename line linenum [] = Some []"
| "threading_loop filename line linenum ((single_thread_func, multithread_safe_func, pattern) # ts) = do {
     found \<leftarrow> Searches pattern line;
     rest \<leftarrow> threading_loop filename line linenum ts;
     Some (report_if found
             (Report filename linenum ''runtime/threadsafe_fn'' 2
                (''Consider using '' @ multithread_safe_func @ ''...) instead of '' @ single_thread_func @
                 ''...) for improved thread safety.'')) @ rest)
   }"

definition CheckPosixThreading :: "string \<Rightarrow> CleansedLines \<Rightarrow> int \<Rightarrow> event list py" where
  "CheckPosixThreading filename clean_lines linenum = do {
     line \<leftarrow> elided clean_lines linenum;
     threading_loop filename line linenum THREADING_LIST
   }"

section \<open>Logging levels, increments, make_pair\<close>

definition re_vlog :: string where
  "re_vlog = raw ''`bVLOG`((INFO|ERROR|WARNING|DFATAL|FATAL)`)''"

definition CheckVlogArguments :: "string \<Rightarrow> CleansedLines \<Rightarrow> int \<Rightarrow> event list py" where
  "CheckVlogArguments filename clean_lines linenum = do {
     line \<leftarrow> elided clean_lines linenum;
     found \<leftarrow> Searches re_vlog line;
     Some (report_if found
       (Report filename linenum ''runtime/vlog'' 5
          ''VLOG() should be used with numeric verbosity level.  Use LOG() if you want symbolic severity levels.''))
   }"

definition RE_PATTERN_INVALID_INCREMENT :: string where
  "RE_PATTERN_INVALID_INCREMENT = raw ''^`s*`*`w+(`+`+|--);''"

definition CheckInvalidIncrement :: "string \<Rightarrow> CleansedLines \<Rightarrow> int \<Rightarrow> event list py" where
  "CheckInvalidIncrement filename clean_lines linenum = do {
     line \<leftarrow> elided clean_lines linenum;
     found \<leftarrow> Matches RE_PATTERN_INVALID_INCREMENT line;
     Some (report_if found
       (Report filename linenum ''runtime/invalid_increment'' 5
          ''Changing pointer instead of value (or unused value of operator*).''))
   }"

definition RE_PATTERN_EXPLICIT_MAKEPAIR :: string where
  "RE_PATTERN_EXPLICIT_MAKEPAIR = raw ''`bmake_pair`s*<''"

definition CheckMakePairUsesDeduction :: "string \<Rightarrow> CleansedLines \<Rightarrow> int \<Rightarrow> event list py" where
  "CheckMakePairUsesDeduction filename clean_lines linenum = do {
     line \<leftarrow> elided clean_lines linenum;
     found \<leftarrow> Searches RE_PATTERN_EXPLICIT_MAKEPAIR line;
     Some (report_if found
       (Report filename linenum ''build/explicit_make_pair'' 4
          ''For C++11-compatibility, omit template arguments from make_pair OR use pair directly OR if appropriate, construct a pair directly''))
   }"

section \<open>Namespace indentation\<close>

definition re_define :: string where
  "re_define = ''^#define''"

definition re_continued :: string where
  "re_continued = raw ''``$''"

definition re_forward_class :: string where
  "re_forward_class = raw ''^`s*(`btemplate`b)*.*class`s+`w+;`s*$''"

definition re_leading_spaces :: string where
  "re_leading_spaces = raw ''^`s+''"

definition IsMacroDefinition :: "string list \<Rightarrow> int \<Rightarrow> bool py" where
  "IsMacroDefinition lines linenum =
     or_else (do { line \<leftarrow> py_index lines linenum; Searches re_define line })
       (if linenum > 0 then do { line \<leftarrow> py_index lines (linenum - 1); Searches re_continued line }
        else Some False)"

definition IsForwardClassDeclaration :: "string list \<Rightarrow> int \<Rightarrow> bool py" where
  "IsForwardClassDeclaration lines linenum = do {
     line \<leftarrow> py_index lines linenum;
     Matches re_forward_class line
   }"

definition IsBlockInNameSpace :: "NestingState \<Rightarrow> bool \<Rightarrow> bool" where
  "IsBlockInNameSpace st is_forward_declaration =
     (if is_forward_declaration
      then (case nesting_stack st of [] \<Rightarrow> False | b # _ \<Rightarrow> is_namespace b)
      else (case nesting_stack st of
              b # c # _ \<Rightarrow> check_namespace_indentation b \<and> is_namespace c
            | _ \<Rightarrow> False))"

definition ShouldCheckNamespaceIndentation :: "NestingState \<Rightarrow> bool \<Rightarrow> string list \<Rightarrow> int \<Rightarrow> bool py" where
  "ShouldCheckNamespaceIndentation st is_namespace_indent_item raw_lines_no_comments linenum = do {
     is_forward_declaration \<leftarrow> IsForwardClassDeclaration raw_lines_no_comments linenum;
     if \<not> (is_namespace_indent_item \<or> is_forward_declaration) then Some False
     else do {
       macro \<leftarrow> IsMacroDefinition raw_lines_no_comments linenum;
       if macro then Some False else Some (IsBlockInNameSpace st is_forward_declaration)
     }
   }"

definition CheckItemIndentationInNamespace :: "string \<Rightarrow> string list \<Rightarrow> int \<Rightarrow> event list py" where
  "CheckItemIndentationInNamespace filename raw_lines_no_comments linenum = do {
     line \<leftarrow> py_index raw_lines_no_comments linenum;
     found \<leftarrow> Matches re_leading_spaces line;
     Some (report_if found
       (Report filename linenum ''runtime/indentation_namespace'' 4 ''Do not indent within a namespace''))
   }"

text \<open>Two blocks are the same object when their identities agree.\<close>

definition CheckForNamespaceIndentation :: "NestingState \<Rightarrow> string \<Rightarrow> CleansedLines \<Rightarrow> int \<Rightarrow> event list py" where
  "CheckForNamespaceIndentation st filename clean_lines linenum = do {
     let is_namespace_indent_item =
       (case nesting_stack st of
          b # c # _ \<Rightarrow> check_namespace_indentation b \<and>
            (case previous_stack_top st of
               Some p \<Rightarrow> is_namespace p \<and> block_id p = block_id c
             | None \<Rightarrow> False)
        | _ \<Rightarrow> False);
     should \<leftarrow> ShouldCheckNamespaceIndentation st is_namespace_indent_item (elided_lines clean_lines) linenum;
     if should then CheckItemIndentationInNamespace filename (elided_lines clean_lines) linenum else Some []
   }"
lemma line_patterns_compiled [re_compiled]:
  "re_compile re_vlog \<noteq> None"
  "re_compile RE_PATTERN_INVALID_INCREMENT \<noteq> None"
  "re_compile RE_PATTERN_EXPLICIT_MAKEPAIR \<noteq> None"
  "re_compile re_define \<noteq> None"
  "re_compile re_continued \<noteq> None"
  "re_compile re_forward_class \<noteq> None"
  "re_compile re_leading_spaces \<noteq> None"
  by code_simp+

section \<open>The length of functions\<close>

definition re_function_decl :: string where
  "re_function_decl = raw ''(`w(`w|::|`*|`&|`s)*)`(''"

definition re_macro_name :: string where
  "re_macro_name = ''[A-Z_]+$''"

definition re_declaration_end :: string where
  "re_declaration_end = ''(;|})''"

definition re_open_brace :: string where
  "re_open_brace = ''{''"

definition re_function_name :: string where
  "re_function_name = raw ''((`w|:)*)`(''"

definition re_TEST :: string where
  "re_TEST = ''TEST''"

definition re_parameters :: string where
  "re_parameters = raw ''(`(.*`))''"

definition re_function_end :: string where
  "re_function_end = raw ''^`}`s*$''"

definition re_blank_line :: string where
  "re_blank_line = raw ''^`s*$''"

text \<open>
  The loop that looks for the body: None when there is none up to the end of the file, and otherwise
  the name to begin with, if the body is not trivial.
\<close>

fun body_loop :: "string \<Rightarrow> string \<Rightarrow> string list \<Rightarrow> string option option py" where
  "body_loop line joined_line [] = Some None"
| "body_loop line joined_line (start_line # lines) = do {
     let joined_line = joined_line @ '' '' @ py_lstrip start_line;
     declaration \<leftarrow> Searches re_declaration_end start_line;
     if declaration then Some (Some None)
     else do {
       brace \<leftarrow> Searches re_open_brace start_line;
       if \<not> brace then body_loop line joined_line lines
       else do {
         m \<leftarrow> Search re_function_name line;
         m \<leftarrow> m;
         let function = group_text m 1;
         test \<leftarrow> Matches re_TEST function;
         if test
         then do {
           parameters \<leftarrow> Search re_parameters joined_line;
           Some (Some (Some (case parameters of None \<Rightarrow> function | Some p \<Rightarrow> function @ group_text p 1)))
         }
         else Some (Some (Some (function @ ''()'')))
       }
     }
   }"

definition starts_function :: "string \<Rightarrow> bool py" where
  "starts_function line = do {
     m \<leftarrow> Match re_function_decl line;
     (case m of
        None \<Rightarrow> Some False
      | Some m \<Rightarrow> do {
          function_name \<leftarrow> py_index (split_ws (group_text m 1)) (- 1);
          or_else (Some (function_name = ''TEST'' \<or> function_name = ''TEST_F''))
            (negate (Matches re_macro_name function_name))
        })
   }"

definition CheckForFunctionLengths ::
    "int \<Rightarrow> string \<Rightarrow> CleansedLines \<Rightarrow> int \<Rightarrow> FunctionState \<Rightarrow> (FunctionState \<times> event list) py" where
  "CheckForFunctionLengths verbosity filename clean_lines linenum st = do {
     line \<leftarrow> py_index (cleansed_lines clean_lines) linenum;
     starting_func \<leftarrow> starts_function line;
     if starting_func
     then do {
       body \<leftarrow> body_loop line [] (drop (nat linenum) (take (nat (NumLines clean_lines)) (cleansed_lines clean_lines)));
       Some (case body of
               None \<Rightarrow> (st, [Report filename linenum ''readability/fn_size'' 5
                                ''Lint failed to find start of function body.''])
             | Some None \<Rightarrow> (st, [])
             | Some (Some function) \<Rightarrow> (Begin function st, []))
     }
     else do {
       function_end \<leftarrow> Matches re_function_end line;
       if function_end
       then do {
         es \<leftarrow> Check verbosity st filename linenum;
         Some (End st, es)
       }
       else do {
         blank \<leftarrow> Matches re_blank_line line;
         Some (if blank then st else Count st, [])
       }
     }
   }"

section \<open>Comments\<close>

definition RE_PATTERN_TODO :: string where
  "RE_PATTERN_TODO = raw ''^//(`s*)TODO(`(.+?`))?:?(`s|$)?''"

definition re_scope_comment :: string where
  "re_scope_comment = ''^.*{ *//''"

definition re_comment_text :: string where
  "re_comment_text = raw ''//[^ ]*`w''"

definition re_doxygen :: string where
  "re_doxygen = raw ''(///|//`!)(`s+|$)''"

text \<open>\<^verbatim>\<open>string.whitespace\<close>.\<close>

definition string_whitespace :: "char \<Rightarrow> bool" where
  "string_whitespace c = re_space c"

definition CheckComment :: "string \<Rightarrow> string \<Rightarrow> int \<Rightarrow> int \<Rightarrow> event list py" where
  "CheckComment line filename linenum next_line_start = do {
     let commentpos = py_find line ''//'';
     let before = take (nat commentpos) line;
     if commentpos = - 1 \<or> odd (int (py_count before double_quote) - int (py_count before ([backslash] @ double_quote)))
     then Some []
     else do {
       scope \<leftarrow> Matches re_scope_comment line;
       let close =
         (\<not> (scope \<and> next_line_start = commentpos) \<and>
          (commentpos \<ge> 1 \<and> \<not> string_whitespace (line ! nat (commentpos - 1)) \<or>
           commentpos \<ge> 2 \<and> \<not> string_whitespace (line ! nat (commentpos - 2))));
       let comment = drop (nat commentpos) line;
       m \<leftarrow> Match RE_PATTERN_TODO comment;
       let todo =
         (case m of
            None \<Rightarrow> []
          | Some m \<Rightarrow>
              report_if (length (group_text m 1) > 1)
                (Report filename linenum ''whitespace/todo'' 2 ''Too many spaces before TODO'') @
              report_if (group_text m 2 = [])
                (Report filename linenum ''readability/todo'' 2
                   (''Missing username in TODO; it should look like '' @ double_quote @ ''// TODO(my_username): Stuff.'' @ double_quote)) @
              report_if (group m 3 \<noteq> Some '' '' \<and> group m 3 \<noteq> Some [])
                (Report filename linenum ''whitespace/todo'' 2 ''TODO(my_username) should be followed by a space''));
       glued \<leftarrow> and_then (Matches re_comment_text comment) (negate (Matches re_doxygen comment));
       Some (report_if close
               (Report filename linenum ''whitespace/comments'' 2
                  ''At least two spaces is best between code and comments'') @
             todo @
             report_if glued
               (Report filename linenum ''whitespace/comments'' 4 ''Should have a space between // and comment''))
     }
   }"

section \<open>DISALLOW macros, alternative tokens, printf\<close>

definition re_disallow_macro :: string where
  "re_disallow_macro = raw ''`s*(DISALLOW_COPY_AND_ASSIGN|DISALLOW_IMPLICIT_CONSTRUCTORS)''"

definition CheckAccess :: "NestingState \<Rightarrow> string \<Rightarrow> CleansedLines \<Rightarrow> int \<Rightarrow> event list py" where
  "CheckAccess st filename clean_lines linenum = do {
     line \<leftarrow> elided clean_lines linenum;
     m \<leftarrow> Match re_disallow_macro line;
     Some (case m of
             None \<Rightarrow> []
           | Some m \<Rightarrow>
               (case nesting_stack st of
                  b # _ \<Rightarrow>
                    (case kind b of
                       ClassInfo c \<Rightarrow>
                         report_if (access c \<noteq> ''private'')
                           (Report filename linenum ''readability/constructors'' 3
                              (group_text m 1 @ '' must be in the private: section''))
                     | _ \<Rightarrow> [])
                | [] \<Rightarrow> []))
   }"

definition ALT_TOKEN_REPLACEMENT :: "string \<rightharpoonup> string" where
  "ALT_TOKEN_REPLACEMENT = map_of
     [(''and'', ''&&''), (''bitor'', ''|''), (''or'', ''||''), (''xor'', ''^''), (''compl'', ''~''),
      (''bitand'', ''&''), (''and_eq'', ''&=''), (''or_eq'', ''|=''), (''xor_eq'', ''^=''),
      (''not'', ''!''), (''not_eq'', ''!='')]"

text \<open>
  The alternatives of the pattern come from a dictionary. Each is followed by a space or a
  parenthesis, so that no alternative is tried in the place of another and their order is immaterial.
\<close>

definition ALT_TOKEN_REPLACEMENT_PATTERN :: string where
  "ALT_TOKEN_REPLACEMENT_PATTERN =
     ''[ =()]('' @
     py_join ''|'' [''and'', ''bitor'', ''or'', ''xor'', ''compl'', ''bitand'', ''and_eq'', ''or_eq'',
                    ''xor_eq'', ''not'', ''not_eq''] @
     '')(?=[ (]|$)''"

definition re_pp_line :: string where
  "re_pp_line = raw ''^`s*#''"

definition re_finditer_py :: "string \<Rightarrow> string \<Rightarrow> rmatch list py" where
  "re_finditer_py pattern s = do { r \<leftarrow> re_compile pattern; Some (re_finditer r s) }"

definition CheckAltTokens :: "string \<Rightarrow> CleansedLines \<Rightarrow> int \<Rightarrow> event list py" where
  "CheckAltTokens filename clean_lines linenum = do {
     line \<leftarrow> elided clean_lines linenum;
     preprocessor \<leftarrow> Matches re_pp_line line;
     if preprocessor \<or> py_find line ''/*'' \<ge> 0 \<or> py_find line ''*/'' \<ge> 0 then Some []
     else do {
       ms \<leftarrow> re_finditer_py ALT_TOKEN_REPLACEMENT_PATTERN line;
       those_map (\<lambda>m. do {
           r \<leftarrow> ALT_TOKEN_REPLACEMENT (group_text m 1);
           Some (Report filename linenum ''readability/alt_tokens'' 2
                   (''Use operator '' @ r @ '' instead of '' @ group_text m 1))
         }) ms
     }
   }"

definition re_snprintf :: string where
  "re_snprintf = raw ''snprintf`s*`(([^,]*),`s*([0-9]*)`s*,''"

definition re_sprintf :: string where
  "re_sprintf = raw ''`bsprintf`s*`(''"

definition re_strcpy :: string where
  "re_strcpy = raw ''`b(strcpy|strcat)`s*`(''"

definition CheckPrintf :: "string \<Rightarrow> CleansedLines \<Rightarrow> int \<Rightarrow> event list py" where
  "CheckPrintf filename clean_lines linenum = do {
     line \<leftarrow> elided clean_lines linenum;
     m \<leftarrow> Search re_snprintf line;
     sprintf \<leftarrow> Searches re_sprintf line;
     n \<leftarrow> Search re_strcpy line;
     Some ((case m of
              None \<Rightarrow> []
            | Some m \<Rightarrow>
                report_if (group_text m 2 \<noteq> ''0'')
                  (Report filename linenum ''runtime/printf'' 3
                     (''If you can, use sizeof('' @ group_text m 1 @ '') instead of '' @ group_text m 2 @
                      '' as the 2nd arg to snprintf.''))) @
           report_if sprintf
             (Report filename linenum ''runtime/printf'' 5 ''Never use sprintf. Use snprintf instead.'') @
           (case n of
              None \<Rightarrow> []
            | Some n \<Rightarrow> [Report filename linenum ''runtime/printf'' 4
                            (''Almost always, snprintf is better than '' @ group_text n 1)]))
   }"
lemma more_line_patterns_compiled [re_compiled]:
  "re_compile re_function_decl \<noteq> None"
  "re_compile re_macro_name \<noteq> None"
  "re_compile re_declaration_end \<noteq> None"
  "re_compile re_open_brace \<noteq> None"
  "re_compile re_function_name \<noteq> None"
  "re_compile re_TEST \<noteq> None"
  "re_compile re_parameters \<noteq> None"
  "re_compile re_function_end \<noteq> None"
  "re_compile re_blank_line \<noteq> None"
  "re_compile RE_PATTERN_TODO \<noteq> None"
  "re_compile re_scope_comment \<noteq> None"
  "re_compile re_comment_text \<noteq> None"
  "re_compile re_doxygen \<noteq> None"
  "re_compile re_disallow_macro \<noteq> None"
  "re_compile ALT_TOKEN_REPLACEMENT_PATTERN \<noteq> None"
  "re_compile re_pp_line \<noteq> None"
  "re_compile re_snprintf \<noteq> None"
  "re_compile re_sprintf \<noteq> None"
  "re_compile re_strcpy \<noteq> None"
  by code_simp+

section \<open>Global strings and members that initialise themselves\<close>

definition re_statement_start :: string where
  "re_statement_start = ''[;({]''"

definition re_global_string :: string where
  "re_global_string = raw ''((?:|static +)(?:|const +))string +([a-zA-Z0-9_:]+)`b(.*)''"

definition re_string_pointer :: string where
  "re_string_pointer = raw ''`bstring`b(`s+const)?`s*`*`s*(const`s+)?`w''"

definition re_operator_name :: string where
  "re_operator_name = raw ''`boperator`W''"

definition re_string_function :: string where
  \<open>re_string_function = raw ''`s*(<.*>)?(::[a-zA-Z0-9_]+)*`s*`(([^"]|$)''\<close>

definition re_self_init :: string where
  "re_self_init = raw ''`b([A-Za-z0-9_]*_)`(`1`)''"

definition CheckGlobalStatic :: "string \<Rightarrow> CleansedLines \<Rightarrow> int \<Rightarrow> event list py" where
  "CheckGlobalStatic filename clean_lines linenum = do {
     line \<leftarrow> elided clean_lines linenum;
     two_lines \<leftarrow> and_then (Some (linenum + 1 < NumLines clean_lines)) (negate (Searches re_statement_start line));
     line \<leftarrow> (if two_lines then do { next_line \<leftarrow> elided clean_lines (linenum + 1); Some (line @ py_strip next_line) }
              else Some line);
     m \<leftarrow> Match re_global_string line;
     global \<leftarrow> (case m of
        None \<Rightarrow> Some []
      | Some m \<Rightarrow> do {
          bad \<leftarrow> and_then (negate (Searches re_string_pointer line))
                  (and_then (negate (Searches re_operator_name line))
                    (negate (Matches re_string_function (group_text m 3))));
          Some (report_if bad
            (Report filename linenum ''runtime/string'' 4
               ((''For a static/global string constant, use a C style string instead: '' @ double_quote) @ group_text m 1 @
                ''char '' @ group_text m 2 @ (''[]'' @ double_quote @ ''.''))))
        });
     self_init \<leftarrow> Searches re_self_init line;
     Some (global @
           report_if self_init
             (Report filename linenum ''runtime/init'' 4
                ''You seem to be initializing a member variable with itself.''))
   }"

section \<open>What kind of function a line belongs to\<close>

definition re_function_start :: string where
  "re_function_start = raw ''^([^()]*`w+)`(''"

definition re_override :: string where
  "re_override = raw ''`boverride`b''"

definition re_final :: string where
  "re_final = raw ''`bfinal`b''"

definition re_method_definition :: string where
  "re_method_definition = raw ''^[^()]*`w+::`w+`(''"

definition re_function_body :: string where
  "re_function_body = raw ''^(.*)`{`s*$''"

definition re_initializer_colon :: string where
  "re_initializer_colon = raw ''`s:`s*`w+[({]''"

definition re_brace_comma :: string where
  "re_brace_comma = raw ''`}`s*,`s*$''"

definition re_statement_end :: string where
  "re_statement_end = raw ''[{};]`s*$''"

text \<open>\<^verbatim>\<open>xrange(linenum, max(-1, linenum - 10), -1)\<close>.\<close>

definition lines_back :: "int \<Rightarrow> int list" where
  "lines_back linenum = rev [max (- 1) (linenum - 10) + 1..linenum]"

fun derived_loop :: "CleansedLines \<Rightarrow> int list \<Rightarrow> bool py" where
  "derived_loop clean_lines [] = Some False"
| "derived_loop clean_lines (i # is) = do {
     line \<leftarrow> elided clean_lines i;
     m \<leftarrow> Match re_function_start line;
     (case m of
        None \<Rightarrow> derived_loop clean_lines is
      | Some m \<Rightarrow> do {
          (line, _, closing_paren) \<leftarrow> CloseExpression clean_lines i (length (group_text m 1));
          and_then (Some (closing_paren \<ge> 0)) (Searches re_override (py_from line closing_paren))
        })
   }"

definition IsDerivedFunction :: "CleansedLines \<Rightarrow> int \<Rightarrow> bool py" where
  "IsDerivedFunction clean_lines linenum = derived_loop clean_lines (lines_back linenum)"

fun out_of_line_loop :: "CleansedLines \<Rightarrow> int list \<Rightarrow> bool py" where
  "out_of_line_loop clean_lines [] = Some False"
| "out_of_line_loop clean_lines (i # is) = do {
     line \<leftarrow> elided clean_lines i;
     start \<leftarrow> Matches re_function_start line;
     if start then Matches re_method_definition line else out_of_line_loop clean_lines is
   }"

definition IsOutOfLineMethodDefinition :: "CleansedLines \<Rightarrow> int \<Rightarrow> bool py" where
  "IsOutOfLineMethodDefinition clean_lines linenum = out_of_line_loop clean_lines (lines_back linenum)"

fun initializer_loop :: "CleansedLines \<Rightarrow> int \<Rightarrow> int list \<Rightarrow> bool py" where
  "initializer_loop clean_lines linenum [] = Some False"
| "initializer_loop clean_lines linenum (i # is) = do {
     line \<leftarrow> elided clean_lines i;
     line \<leftarrow> (if i = linenum
              then do {
                m \<leftarrow> Match re_function_body line;
                Some (case m of None \<Rightarrow> line | Some m \<Rightarrow> group_text m 1)
              }
              else Some line);
     colon \<leftarrow> Searches re_initializer_colon line;
     if colon then Some True
     else do {
       comma \<leftarrow> Searches re_brace_comma line;
       if comma then Some True
       else do {
         statement \<leftarrow> Searches re_statement_end line;
         if statement then Some False else initializer_loop clean_lines linenum is
       }
     }
   }"

definition IsInitializerList :: "CleansedLines \<Rightarrow> int \<Rightarrow> bool py" where
  "IsInitializerList clean_lines linenum = initializer_loop clean_lines linenum (rev [2..linenum])"

definition re_mock_method :: string where
  "re_mock_method = raw ''^`s*MOCK_(CONST_)?METHOD`d+(_T)?`(''"

definition re_mock_arguments :: string where
  "re_mock_arguments = raw ''^`s*MOCK_(?:CONST_)?METHOD`d+(?:_T)?`((?:`S+,)?`s*$''"

definition re_mock_open :: string where
  "re_mock_open = raw ''^`s*MOCK_(?:CONST_)?METHOD`d+(?:_T)?`(`s*$''"

definition re_std_function :: string where
  "re_std_function = raw ''`bstd::m?function`s*`<`s*$''"

definition ExpectingFunctionArgs :: "CleansedLines \<Rightarrow> int \<Rightarrow> bool py" where
  "ExpectingFunctionArgs clean_lines linenum = do {
     line \<leftarrow> elided clean_lines linenum;
     or_else (Matches re_mock_method line)
       (if linenum \<ge> 2
        then or_else (do { l \<leftarrow> elided clean_lines (linenum - 1); Matches re_mock_arguments l })
               (or_else (do { l \<leftarrow> elided clean_lines (linenum - 2); Matches re_mock_open l })
                 (do { l \<leftarrow> elided clean_lines (linenum - 1); Searches re_std_function l }))
        else Some False)
   }"

section \<open>Lambda captures and virtual functions\<close>

definition re_default_capture :: string where
  "re_default_capture = raw ''^(.*)`[`s*(?:=|&[^`w])''"

definition re_lambda_body :: string where
  "re_lambda_body = raw ''^`s*[{(]''"

definition CheckDefaultLambdaCaptures :: "string \<Rightarrow> CleansedLines \<Rightarrow> int \<Rightarrow> event list py" where
  "CheckDefaultLambdaCaptures filename clean_lines linenum = do {
     line \<leftarrow> elided clean_lines linenum;
     m \<leftarrow> Match re_default_capture line;
     (case m of
        None \<Rightarrow> Some []
      | Some m \<Rightarrow> do {
          (line, _, pos) \<leftarrow> CloseExpression clean_lines linenum (length (group_text m 1));
          lambda \<leftarrow> and_then (Some (pos \<ge> 0)) (Matches re_lambda_body (py_from line pos));
          Some (report_if lambda
            (Report filename linenum ''build/c++11'' 4 ''Default lambda captures are an unapproved C++ feature.''))
        })
   }"

definition re_virtual :: string where
  "re_virtual = raw ''^(.*)(`bvirtual`b)(.*)$''"

definition re_access_before :: string where
  "re_access_before = raw ''`b(public|protected|private)`s+$''"

definition re_access_after :: string where
  "re_access_after = raw ''^`s+(public|protected|private)`b''"

definition re_single_colon :: string where
  "re_single_colon = ''^.*[^:]:[^:].*$''"

definition re_parameter_list :: string where
  "re_parameter_list = raw ''^([^(]*)`(''"

definition re_override_or_final :: string where
  "re_override_or_final = raw ''`b(override|final)`b''"

definition re_non_word_end :: string where
  "re_non_word_end = raw ''[^`w]`s*$''"

text \<open>Where the parameter list ends, looked for on three lines; the column is -1 when it was not found.\<close>

fun parameter_loop :: "CleansedLines \<Rightarrow> nat \<Rightarrow> int list \<Rightarrow> (int \<times> int) py" where
  "parameter_loop clean_lines start_col [] = Some (- 1, - 1)"
| "parameter_loop clean_lines start_col (start_line # is) = do {
     line \<leftarrow> elided clean_lines start_line;
     m \<leftarrow> Match re_parameter_list (drop start_col line);
     (case m of
        Some m \<Rightarrow> do {
          (_, end_line, end_col) \<leftarrow> CloseExpression clean_lines start_line (start_col + length (group_text m 1));
          Some (end_line, end_col)
        }
      | None \<Rightarrow> parameter_loop clean_lines 0 is)
   }"

fun override_loop :: "string \<Rightarrow> CleansedLines \<Rightarrow> int \<Rightarrow> int \<Rightarrow> int list \<Rightarrow> event list py" where
  "override_loop filename clean_lines linenum end_col [] = Some []"
| "override_loop filename clean_lines linenum end_col (i # is) = do {
     line \<leftarrow> elided clean_lines i;
     let line = py_from line end_col;
     m \<leftarrow> Search re_override_or_final line;
     stop \<leftarrow> Searches re_non_word_end line;
     rest \<leftarrow> (if stop then Some [] else override_loop filename clean_lines linenum 0 is);
     Some ((case m of
              None \<Rightarrow> []
            | Some m \<Rightarrow> [Report filename linenum ''readability/inheritance'' 4
                            ((double_quote @ ''virtual'' @ double_quote @ '' is redundant since function is already declared as '' @ double_quote) @ group_text m 1 @
                             double_quote)]) @ rest)
   }"

definition CheckRedundantVirtual :: "string \<Rightarrow> CleansedLines \<Rightarrow> int \<Rightarrow> event list py" where
  "CheckRedundantVirtual filename clean_lines linenum = do {
     line \<leftarrow> elided clean_lines linenum;
     m \<leftarrow> Match re_virtual line;
     (case m of
        None \<Rightarrow> Some []
      | Some virtual \<Rightarrow> do {
          ignored \<leftarrow> or_else (Searches re_access_before (group_text virtual 1))
                      (or_else (Matches re_access_after (group_text virtual 3)) (Matches re_single_colon line));
          if ignored then Some []
          else do {
            (end_line, end_col) \<leftarrow> parameter_loop clean_lines (length (group_text virtual 2))
              [linenum..min (linenum + 3) (NumLines clean_lines) - 1];
            if end_col < 0 then Some []
            else override_loop filename clean_lines linenum end_col
                   [end_line..min (end_line + 3) (NumLines clean_lines) - 1]
          }
        })
   }"

definition CheckRedundantOverrideOrFinal :: "string \<Rightarrow> CleansedLines \<Rightarrow> int \<Rightarrow> event list py" where
  "CheckRedundantOverrideOrFinal filename clean_lines linenum = do {
     line \<leftarrow> elided clean_lines linenum;
     let declarator_end = py_rfind line '')'';
     fragment \<leftarrow> (if declarator_end \<ge> 0 then Some (Some (drop (nat declarator_end) line))
                  else if linenum > 1
                  then do {
                    before \<leftarrow> elided clean_lines (linenum - 1);
                    Some (if py_rfind before '')'' \<ge> 0 then Some line else None)
                  }
                  else Some None);
     (case fragment of
        None \<Rightarrow> Some []
      | Some fragment \<Rightarrow> do {
          both \<leftarrow> and_then (Searches re_override fragment) (Searches re_final fragment);
          Some (report_if both
            (Report filename linenum ''readability/inheritance'' 4
               (double_quote @ ''override'' @ double_quote @ '' is redundant since function is already declared as '' @ double_quote @ ''final'' @ double_quote)))
        })
   }"

section \<open>C++11 features\<close>

definition re_any_include :: string where
  \<open>re_any_include = raw ''`s*#`s*include`s+[<"]([^<"]+)[">]''\<close>

definition re_directive :: string where
  "re_directive = raw ''`s*#''"

definition re_define_directive :: string where
  "re_define_directive = raw ''`s*#`s*define`b''"

definition unapproved_headers :: "string list" where
  "unapproved_headers = [''cfenv'', ''condition_variable'', ''fenv.h'', ''future'', ''mutex'', ''thread'',
     ''chrono'', ''ratio'', ''regex'', ''system_error'']"

definition unapproved_names :: "string list" where
  "unapproved_names = [''alignment_of'', ''aligned_union'']"

definition re_std_name :: "string \<Rightarrow> string" where
  "re_std_name top_name = raw ''`bstd::'' @ top_name @ raw ''`b''"

fun std_names_loop :: "string \<Rightarrow> string \<Rightarrow> int \<Rightarrow> string list \<Rightarrow> event list py" where
  "std_names_loop filename line linenum [] = Some []"
| "std_names_loop filename line linenum (top_name # ns) = do {
     found \<leftarrow> Searches (re_std_name top_name) line;
     rest \<leftarrow> std_names_loop filename line linenum ns;
     Some (report_if found
             (Report filename linenum ''build/c++11'' 5
                (''std::'' @ top_name @
                 '' is an unapproved C++11 class or function.  Send c-style an example of where it would make your code more readable, and they may let you use it.'')) @ rest)
   }"

definition FlagCxx11Features :: "string \<Rightarrow> CleansedLines \<Rightarrow> int \<Rightarrow> event list py" where
  "FlagCxx11Features filename clean_lines linenum = do {
     line \<leftarrow> elided clean_lines linenum;
     include \<leftarrow> Match re_any_include line;
     let header =
       (case include of
          None \<Rightarrow> []
        | Some m \<Rightarrow> report_if (group_text m 1 \<in> set unapproved_headers)
            (Report filename linenum ''build/c++11'' 5 (''<'' @ group_text m 1 @ ''> is an unapproved C++11 header.'')));
     skip \<leftarrow> and_then (Matches re_directive line) (negate (Matches re_define_directive line));
     names \<leftarrow> (if skip then Some [] else std_names_loop filename line linenum unapproved_names);
     Some (header @ names)
   }"

definition IsBlankLine :: "string \<Rightarrow> bool" where
  "IsBlankLine line \<longleftrightarrow> line = [] \<or> py_isspace line"
lemma function_patterns_compiled [re_compiled]:
  "re_compile re_statement_start \<noteq> None"
  "re_compile re_global_string \<noteq> None"
  "re_compile re_string_pointer \<noteq> None"
  "re_compile re_operator_name \<noteq> None"
  "re_compile re_string_function \<noteq> None"
  "re_compile re_self_init \<noteq> None"
  "re_compile re_function_start \<noteq> None"
  "re_compile re_override \<noteq> None"
  "re_compile re_final \<noteq> None"
  "re_compile re_method_definition \<noteq> None"
  "re_compile re_function_body \<noteq> None"
  "re_compile re_initializer_colon \<noteq> None"
  "re_compile re_brace_comma \<noteq> None"
  "re_compile re_statement_end \<noteq> None"
  "re_compile re_mock_method \<noteq> None"
  "re_compile re_mock_arguments \<noteq> None"
  "re_compile re_mock_open \<noteq> None"
  "re_compile re_std_function \<noteq> None"
  "re_compile re_default_capture \<noteq> None"
  "re_compile re_lambda_body \<noteq> None"
  "re_compile re_virtual \<noteq> None"
  "re_compile re_access_before \<noteq> None"
  "re_compile re_access_after \<noteq> None"
  "re_compile re_single_colon \<noteq> None"
  "re_compile re_parameter_list \<noteq> None"
  "re_compile re_override_or_final \<noteq> None"
  "re_compile re_non_word_end \<noteq> None"
  "re_compile re_any_include \<noteq> None"
  "re_compile re_directive \<noteq> None"
  "re_compile re_define_directive \<noteq> None"
  by code_simp+

section \<open>The contract of a check\<close>

definition proper_report :: "string \<Rightarrow> int \<Rightarrow> event \<Rightarrow> bool" where
  "proper_report filename linenum e =
     (case e of
        Report f l category confidence _ \<Rightarrow>
          f = filename \<and> l = linenum \<and> category \<in> set ERROR_CATEGORIES \<and> 0 \<le> confidence \<and> confidence \<le> 5
      | Suppress _ _ \<Rightarrow> False)"

text \<open>The four views of a file have the same lines, and the line is one of them.\<close>

definition file_ok :: "CleansedLines \<Rightarrow> bool" where
  "file_ok cl \<longleftrightarrow> lines_ok cl \<and> length (cleansed_lines cl) = length (elided_lines cl) \<and>
     length (raw_lines cl) = length (elided_lines cl) \<and> length (lines_without_raw_strings cl) = length (elided_lines cl)"

definition line_in :: "CleansedLines \<Rightarrow> int \<Rightarrow> bool" where
  "line_in cl linenum \<longleftrightarrow> file_ok cl \<and> 0 \<le> linenum \<and> linenum < NumLines cl"

lemma line_in_file: "line_in cl linenum \<Longrightarrow> file_ok cl"
  by (simp add: line_in_def)

definition accounts_for :: "string \<Rightarrow> int \<Rightarrow> event list py \<Rightarrow> bool" where
  "accounts_for filename linenum m = (case m of None \<Rightarrow> False | Some es \<Rightarrow> list_all (proper_report filename linenum) es)"

lemma accounts_forE:
  assumes "accounts_for filename linenum m"
  obtains es where "m = Some es" and "list_all (proper_report filename linenum) es"
  using assms by (auto simp: accounts_for_def split: option.splits)

named_theorems accounting \<open>when the events of a check are proper reports\<close>

lemma accounts_for_Some [accounting]:
  "accounts_for filename linenum (Some es) \<longleftrightarrow> list_all (proper_report filename linenum) es"
  by (simp add: accounts_for_def)

lemma report_if_proper [accounting]:
  "list_all (proper_report filename linenum) (report_if b e) \<longleftrightarrow> (b \<longrightarrow> proper_report filename linenum e)"
  by (simp add: report_if_def)

lemma proper_Report [accounting]:
  "proper_report filename linenum (Report filename linenum category confidence message) \<longleftrightarrow>
     category \<in> set ERROR_CATEGORIES \<and> 0 \<le> confidence \<and> confidence \<le> 5"
  by (simp add: proper_report_def)

lemma listed_categories [accounting]:
  "''readability/multiline_comment'' \<in> set ERROR_CATEGORIES" "''readability/multiline_string'' \<in> set ERROR_CATEGORIES"
  "''runtime/threadsafe_fn'' \<in> set ERROR_CATEGORIES" "''runtime/vlog'' \<in> set ERROR_CATEGORIES"
  "''runtime/invalid_increment'' \<in> set ERROR_CATEGORIES" "''build/explicit_make_pair'' \<in> set ERROR_CATEGORIES"
  "''runtime/indentation_namespace'' \<in> set ERROR_CATEGORIES" "''readability/fn_size'' \<in> set ERROR_CATEGORIES"
  "''whitespace/todo'' \<in> set ERROR_CATEGORIES" "''readability/todo'' \<in> set ERROR_CATEGORIES"
  "''whitespace/comments'' \<in> set ERROR_CATEGORIES" "''readability/constructors'' \<in> set ERROR_CATEGORIES"
  "''readability/alt_tokens'' \<in> set ERROR_CATEGORIES" "''runtime/printf'' \<in> set ERROR_CATEGORIES"
  "''runtime/string'' \<in> set ERROR_CATEGORIES" "''runtime/init'' \<in> set ERROR_CATEGORIES"
  "''build/c++11'' \<in> set ERROR_CATEGORIES" "''readability/inheritance'' \<in> set ERROR_CATEGORIES"
  by code_simp+

lemma elided_ok: "line_in cl linenum \<Longrightarrow> elided cl linenum = Some (elided_lines cl ! nat linenum)"
  by (simp add: line_in_def file_ok_def lines_ok_def elided_def py_index_in_range)

lemma elided_next: "line_in cl linenum \<Longrightarrow> linenum + 1 < NumLines cl \<Longrightarrow>
    elided cl (linenum + 1) = Some (elided_lines cl ! nat (linenum + 1))"
  by (simp add: line_in_def file_ok_def lines_ok_def elided_def py_index_in_range)

lemma logic_ok [re_total]: "and_then (Some a) b = (if a then b else Some False)"
  "or_else (Some a) b = (if a then Some True else b)" "negate (Some a) = Some (\<not> a)"
  by (simp_all add: and_then_def or_else_def negate_def)

lemmas check_ok = elided_ok re_compiled re_total accounting Let_def

locale line_check =
  fixes check :: "string \<Rightarrow> CleansedLines \<Rightarrow> int \<Rightarrow> event list py"
  assumes on_line: "line_in cl linenum \<Longrightarrow> accounts_for filename linenum (check filename cl linenum)"
begin

lemma returns: "line_in cl linenum \<Longrightarrow> \<exists>es. check filename cl linenum = Some es"
  using on_line [of cl linenum filename] by (auto simp: accounts_for_def split: option.splits)

end

interpretation multiline: line_check CheckForMultilineCommentsAndStrings
  by unfold_locales (simp add: CheckForMultilineCommentsAndStrings_def check_ok)

interpretation vlog: line_check CheckVlogArguments
  by unfold_locales (simp add: CheckVlogArguments_def check_ok)

interpretation increment: line_check CheckInvalidIncrement
  by unfold_locales (simp add: CheckInvalidIncrement_def check_ok)

interpretation make_pair: line_check CheckMakePairUsesDeduction
  by unfold_locales (simp add: CheckMakePairUsesDeduction_def check_ok)

interpretation printf: line_check CheckPrintf
  by unfold_locales (auto simp add: CheckPrintf_def check_ok split: option.splits)

interpretation global_static: line_check CheckGlobalStatic
  by unfold_locales (auto simp add: CheckGlobalStatic_def check_ok elided_next split: option.splits)

lemma CheckAccess_on_line:
  "line_in cl linenum \<Longrightarrow> accounts_for filename linenum (CheckAccess st filename cl linenum)"
  by (auto simp add: CheckAccess_def check_ok split: option.splits list.splits block_kind.splits)

section \<open>Where a group ends\<close>

lemma columns: "has_column re_default_capture" "has_column re_function_start" "has_column re_parameter_list"
  by code_simp+

lemmas default_capture_column = column_in_line [OF columns(1)]
lemmas function_start_column = column_in_line [OF columns(2)]
lemmas parameter_list_column = column_in_line [OF columns(3)]

section \<open>The remaining checks keep the contract\<close>

lemma threading_loop_on_line:
  assumes "list_all (\<lambda>(_, _, p). re_compile p \<noteq> None) ts"
  shows "accounts_for filename linenum (threading_loop filename line linenum ts)"
  using assms
proof (induction ts)
  case (Cons t ts)
  obtain a b p where t: "t = (a, b, p)" by (cases t)
  with Cons obtain es where "threading_loop filename line linenum ts = Some es"
    "list_all (proper_report filename linenum) es" by (auto elim: accounts_forE)
  with Cons.prems show ?case by (simp add: t check_ok)
qed (simp add: accounting)

interpretation threading: line_check CheckPosixThreading
proof
  have "list_all (\<lambda>(_, _, p). re_compile p \<noteq> None) THREADING_LIST" by code_simp
  then show "line_in cl linenum \<Longrightarrow> accounts_for filename linenum (CheckPosixThreading filename cl linenum)"
    for cl linenum filename by (simp add: CheckPosixThreading_def elided_ok threading_loop_on_line)
qed

lemma std_names_loop_on_line:
  assumes "list_all (\<lambda>n. re_compile (re_std_name n) \<noteq> None) ns"
  shows "accounts_for filename linenum (std_names_loop filename line linenum ns)"
  using assms
proof (induction ns)
  case (Cons n ns)
  then obtain es where "std_names_loop filename line linenum ns = Some es"
    "list_all (proper_report filename linenum) es" by (auto elim: accounts_forE)
  with Cons.prems show ?case by (simp add: check_ok)
qed (simp add: accounting)

interpretation cxx11: line_check FlagCxx11Features
proof
  fix cl linenum filename
  assume l: "line_in cl linenum"
  have "list_all (\<lambda>n. re_compile (re_std_name n) \<noteq> None) unapproved_names" by code_simp
  from std_names_loop_on_line [OF this, of filename linenum "elided_lines cl ! nat linenum"] obtain es
    where "std_names_loop filename (elided_lines cl ! nat linenum) linenum unapproved_names = Some es"
      "list_all (proper_report filename linenum) es"
    by (rule accounts_forE)
  with l show "accounts_for filename linenum (FlagCxx11Features filename cl linenum)"
    by (auto simp: FlagCxx11Features_def check_ok split: option.splits)
qed

lemma CloseExpression_on_line:
  assumes "line_in cl linenum" and "pos < length (elided_lines cl ! nat linenum)"
  obtains line ln e where "CloseExpression cl linenum pos = Some (line, ln, e)"
    and "e = - 1 \<or> line_in cl ln \<and> linenum \<le> ln \<and> 0 \<le> e \<and> e \<le> int (length (elided_lines cl ! nat ln))"
  using CloseExpression_returns [of cl linenum pos] assms that by (auto simp: line_in_def file_ok_def within_def)

interpretation lambda: line_check CheckDefaultLambdaCaptures
proof
  fix cl linenum filename
  assume l: "line_in cl linenum"
  let ?m = "re_match (the (re_compile re_default_capture)) (elided_lines cl ! nat linenum)"
  show "accounts_for filename linenum (CheckDefaultLambdaCaptures filename cl linenum)"
  proof (cases ?m)
    case None
    with l show ?thesis by (simp add: CheckDefaultLambdaCaptures_def check_ok)
  next
    case (Some m)
    obtain line ln e where "CloseExpression cl linenum (length (group_text m 1)) = Some (line, ln, e)"
      using CloseExpression_on_line [OF l default_capture_column [OF Some]] by blast
    with l Some show ?thesis by (simp add: CheckDefaultLambdaCaptures_def check_ok)
  qed
qed

lemma parameter_loop_on_line:
  assumes "list_all (line_in cl) is"
  shows "\<exists>end_line end_col. parameter_loop cl start_col is = Some (end_line, end_col) \<and>
    (end_col < 0 \<or> line_in cl end_line)"
  using assms
proof (induction "is" arbitrary: start_col)
  case (Cons i "is")
  let ?l = "elided_lines cl ! nat i"
  show ?case
  proof (cases "re_match (the (re_compile re_parameter_list)) (drop start_col ?l)")
    case None
    with Cons show ?thesis by (simp add: check_ok)
  next
    case (Some m)
    have "start_col + length (group_text m 1) < length ?l" using parameter_list_column [OF Some] by simp
    moreover have "line_in cl i" using Cons.prems by simp
    ultimately obtain line ln e where "CloseExpression cl i (start_col + length (group_text m 1)) = Some (line, ln, e)"
      "e = - 1 \<or> line_in cl ln" using CloseExpression_on_line by metis
    with Some Cons.prems show ?thesis by (auto simp: check_ok)
  qed
qed simp

lemma override_loop_on_line:
  "list_all (line_in cl) is \<Longrightarrow> accounts_for filename linenum (override_loop filename cl linenum end_col is)"
proof (induction "is" arbitrary: end_col)
  case (Cons i "is")
  from Cons have "accounts_for filename linenum (override_loop filename cl linenum 0 is)" by simp
  then obtain es where "override_loop filename cl linenum 0 is = Some es"
    "list_all (proper_report filename linenum) es" by (rule accounts_forE)
  with Cons.prems show ?case by (auto simp: check_ok split: option.splits)
qed (simp add: accounting)

lemma next_lines_in: "line_in cl linenum \<Longrightarrow> list_all (line_in cl) [linenum..min (linenum + 3) (NumLines cl) - 1]"
  by (auto simp: line_in_def list_all_iff)

interpretation redundant_virtual: line_check CheckRedundantVirtual
proof
  fix cl linenum filename
  assume l: "line_in cl linenum"
  let ?m = "re_match (the (re_compile re_virtual)) (elided_lines cl ! nat linenum)"
  show "accounts_for filename linenum (CheckRedundantVirtual filename cl linenum)"
  proof (cases ?m)
    case None
    with l show ?thesis by (simp add: CheckRedundantVirtual_def check_ok)
  next
    case (Some m)
    obtain end_line end_col where p: "parameter_loop cl (length (group_text m 2))
        [linenum..min (linenum + 3) (NumLines cl) - 1] = Some (end_line, end_col)"
      "end_col < 0 \<or> line_in cl end_line"
      using parameter_loop_on_line [OF next_lines_in [OF l]] by blast
    have "end_col \<ge> 0 \<Longrightarrow> accounts_for filename linenum
        (override_loop filename cl linenum end_col [end_line..min (end_line + 3) (NumLines cl) - 1])"
      using p(2) next_lines_in override_loop_on_line by fastforce
    with l Some p(1) show ?thesis by (auto simp: CheckRedundantVirtual_def check_ok)
  qed
qed

interpretation redundant_override: line_check CheckRedundantOverrideOrFinal
proof
  fix cl linenum filename
  assume l: "line_in cl linenum"
  then have "linenum > 1 \<Longrightarrow> line_in cl (linenum - 1)" by (auto simp: line_in_def)
  with l show "accounts_for filename linenum (CheckRedundantOverrideOrFinal filename cl linenum)"
    by (auto simp: CheckRedundantOverrideOrFinal_def check_ok)
qed

section \<open>The alternative tokens\<close>

definition alt_tokens :: "string list" where
  "alt_tokens = [''and'', ''bitor'', ''or'', ''xor'', ''compl'', ''bitand'', ''and_eq'', ''or_eq'',
     ''xor_eq'', ''not'', ''not_eq'']"

lemma ALT_TOKEN_shape:
  "re_compile ALT_TOKEN_REPLACEMENT_PATTERN =
     Some (False, RSeq (RSet False [ItemChar (CHR '' ''), ItemChar (CHR ''=''), ItemChar (CHR ''(''), ItemChar (CHR '')'')])
       (RSeq (RGroup 1 (mk_alt (map word_re alt_tokens)))
         (RLook True (RAlt (RSet False [ItemChar (CHR '' ''), ItemChar (CHR ''('')]) REnd))))"
  by code_simp

lemma alt_token_known:
  assumes "m \<in> set (re_finditer (the (re_compile ALT_TOKEN_REPLACEMENT_PATTERN)) s)"
  shows "\<exists>r. ALT_TOKEN_REPLACEMENT (group_text m 1) = Some r"
proof -
  have ne_alts: "map word_re alt_tokens \<noteq> []" by (simp add: alt_tokens_def)
  have alts: "plain_look (mk_alt (map word_re alt_tokens)) \<and> no_groups (mk_alt (map word_re alt_tokens))"
    by (rule plain_mk_alt) (auto simp: plain_word)
  obtain c d where den: "denotes False s (snd (the (re_compile ALT_TOKEN_REPLACEMENT_PATTERN))) (c, []) (d, m_groups m)"
    and m: "m_string m = s" and c: "advances (start_cursor s) c"
    using assms alts unfolding ALT_TOKEN_shape option.sel by (elim re_finditer_denotes) (simp_all add: alts)
  then obtain c1 d1 h b where b: "goes c [b] c1" and alt: "denotes False s (mk_alt (map word_re alt_tokens)) (c1, []) (d1, h)"
    and g: "m_groups m = (1, pos_of c1, pos_of d1) # h"
    unfolding ALT_TOKEN_shape option.sel snd_conv denotes_seq denotes_group denotes_look
      denotes_class [OF char_class.simps(3)] by blast
  obtain w where w: "w \<in> set alt_tokens" "denotes False s (word_re w) (c1, []) (d1, h)"
    using alt unfolding denotes_mk_alt [OF ne_alts] set_map by blast
  have all: "list_all (\<lambda>w. w \<noteq> [] \<and> ALT_TOKEN_REPLACEMENT w \<noteq> None) alt_tokens" by code_simp
  then have ne: "w \<noteq> []" using w(1) by (simp add: list_all_iff)
  then have gw: "goes c1 w d1" using w(2) denotes_word by blast
  obtain v where v: "goes (start_cursor s) v c1" using c b advances_goes goes_trans by blast
  have "s = v @ w @ rest_of d1" "pos_of c1 = length v" "pos_of d1 = length v + length w"
    using goes_start [OF v] goes_start [OF goes_trans [OF v gw]] by simp_all
  then have "group_text m 1 = w" using g m by (simp add: group_text_def group_def)
  then show ?thesis using all w(1) by (auto simp: list_all_iff)
qed

lemma those_map_proper:
  assumes "\<And>x. x \<in> set xs \<Longrightarrow> \<exists>e. f x = Some e \<and> P e"
  shows "\<exists>es. those_map f xs = Some es \<and> list_all P es"
  using assms
proof (induction xs)
  case (Cons x xs)
  then obtain e es where "f x = Some e" "P e" "those_map f xs = Some es" "list_all P es" by fastforce
  then show ?case by simp
qed simp

interpretation alt_token: line_check CheckAltTokens
proof
  fix cl linenum filename
  assume l: "line_in cl linenum"
  let ?s = "elided_lines cl ! nat linenum"
  let ?ms = "re_finditer (the (re_compile ALT_TOKEN_REPLACEMENT_PATTERN)) ?s"
  let ?f = "\<lambda>m. do {
           r \<leftarrow> ALT_TOKEN_REPLACEMENT (group_text m 1);
           Some (Report filename linenum ''readability/alt_tokens'' 2
                   (''Use operator '' @ r @ '' instead of '' @ group_text m 1))
         }"
  have "\<exists>e. ?f m = Some e \<and> proper_report filename linenum e" if "m \<in> set ?ms" for m
    using alt_token_known [OF that] by (auto simp: accounting)
  then obtain es where "those_map ?f ?ms = Some es" "list_all (proper_report filename linenum) es"
    using those_map_proper [of ?ms ?f] by blast
  moreover have "re_finditer_py ALT_TOKEN_REPLACEMENT_PATTERN ?s = Some ?ms"
    unfolding re_finditer_py_def ALT_TOKEN_shape by simp
  ultimately show "accounts_for filename linenum (CheckAltTokens filename cl linenum)"
    using l by (simp add: CheckAltTokens_def check_ok)
qed

section \<open>Function lengths\<close>

lemma Check_on_line: "0 \<le> verbosity \<Longrightarrow> accounts_for filename linenum (Check verbosity st filename linenum)"
proof -
  assume v: "0 \<le> verbosity"
  obtain base where base: "base_trigger st = Some base" "base \<in> {NORMAL_TRIGGER, TEST_TRIGGER}"
    using base_trigger_returns by blast
  have "0 < lines_in_function st div base" if "exceeds_trigger (lines_in_function st) base verbosity"
    using exceeds_quotient [OF v that base(2)] by (meson less_le_trans zero_less_numeral zero_less_power)
  with base show ?thesis by (auto simp: Check_def check_ok)
qed

lemma function_decl_shape:
  "\<exists>r. re_compile re_function_decl = Some (False, RSeq (RGroup 1 (RSeq (RSet False [ItemCat CatWord]) r)) (RChar (CHR ''('')))
     \<and> plain_look r"
  by (rule exI [of _ "RRepeat 0 None True (RGroup 2 (RAlt (RSet False [ItemCat CatWord]) (RAlt (RSeq (RChar (CHR '':'')) (RChar (CHR '':'')))
      (RAlt (RChar (CHR ''*'')) (RAlt (RChar (CHR ''&'')) (RSet False [ItemCat CatSpace]))))))"]) code_simp

lemma split_ws_Cons_nonempty: "\<not> is_space x \<Longrightarrow> split_ws (x # xs) \<noteq> []"
  by (subst split_ws.simps) (auto simp del: split_ws.simps split: list.splits)

lemma py_index_last: "xs \<noteq> [] \<Longrightarrow> py_index xs (- 1) = Some (last xs)"
  by (cases xs rule: rev_cases) (simp_all add: py_index_def nth_append)

lemma word_not_space: "re_word c \<Longrightarrow> \<not> is_space c"
  by (auto simp: re_word_def is_space_def Let_def)

lemma function_decl_name:
  assumes "re_match (the (re_compile re_function_decl)) s = Some m"
  shows "split_ws (group_text m 1) \<noteq> [] \<and> CHR ''('' \<in> set s"
proof -
  obtain r where r: "re_compile re_function_decl =
      Some (False, RSeq (RGroup 1 (RSeq (RSet False [ItemCat CatWord]) r)) (RChar (CHR ''('')))" "plain_look r"
    using function_decl_shape by blast
  let ?r = "RSeq (RGroup 1 (RSeq (RSet False [ItemCat CatWord]) r)) (RChar (CHR ''(''))"
  have "re_match (False, ?r) s = Some m" "plain_look ?r" using assms r by simp_all
  then obtain d where d: "denotes False s ?r (start_cursor s, []) (d, m_groups m)" and ms: "m_string m = s"
    by (rule re_match_denotes)
  then obtain b c1 c2 h where b: "set_match False False [ItemCat CatWord] b" "goes (start_cursor s) [b] c1"
    and r2: "denotes False s r (c1, []) (c2, h)" and g: "m_groups m = (1, 0, pos_of c2) # h"
    and paren: "goes c2 ''('' d"
    unfolding denotes_seq denotes_group denotes_char denotes_class [OF char_class.simps(3)]
    by (auto simp: start_cursor_def)
  obtain w where w: "goes c1 w c2" using denotes_goes [OF r(2) r2] by blast
  note all = goes_trans [OF b(2) w]
  have "group_text m 1 = b # w"
    using goes_start [OF all] g ms by (simp add: group_text_def group_def text_between_def)
  moreover have "\<not> is_space b"
    using b(1) by (intro word_not_space) (simp add: set_match_def cat_match_def)
  moreover have "CHR ''('' \<in> set s" using goes_start [OF all] goes_rest [OF paren] by auto
  ultimately show ?thesis by (simp add: split_ws_Cons_nonempty del: split_ws.simps)
qed

lemma function_name_found:
  assumes "CHR ''('' \<in> set s"
  shows "\<exists>m. re_search (the (re_compile re_function_name)) s = Some m"
proof -
  let ?g = "RRepeat 0 None True (RGroup 2 (RAlt (RSet False [ItemCat CatWord]) (RChar (CHR '':''))))"
  have shape: "re_compile re_function_name = Some (False, RSeq (RGroup 1 ?g) (RChar (CHR ''('')))" by code_simp
  obtain u v where s: "s = u @ CHR ''('' # v" using assms by (metis split_list)
  obtain c where c: "goes (start_cursor s) u c" "rest_of c = CHR ''('' # v"
    using goes_exists [of "start_cursor s" u] by (auto simp: start_cursor_def s)
  obtain d where d: "goes c ''('' d" using goes_exists [of c "''(''" v] c(2) by auto
  have "denotes False s ?g (c, []) (c, [])" by (simp add: denotes.simps rounds.stop)
  then have "denotes False s (RSeq (RGroup 1 ?g) (RChar (CHR ''(''))) (c, []) (d, [(1, pos_of c, pos_of c)])"
    unfolding denotes_seq denotes_group denotes_char using d by blast
  with c(1) have "Searches re_function_name s = Some True"
    unfolding Searches_iff [OF shape, simplified] by auto
  then show ?thesis by (auto simp: Searches_def Search_def shape)
qed

lemma body_loop_returns: "CHR ''('' \<in> set line \<Longrightarrow> \<exists>b. body_loop line joined lines = Some b"
proof (induction lines arbitrary: joined)
  case (Cons l ls)
  obtain m where "re_search (the (re_compile re_function_name)) line = Some m"
    using function_name_found [OF Cons.prems] by blast
  with Cons show ?case by (simp add: check_ok)
qed simp

lemma starts_function_returns: "\<exists>b. starts_function line = Some b \<and> (b \<longrightarrow> CHR ''('' \<in> set line)"
proof (cases "re_match (the (re_compile re_function_decl)) line")
  case None
  then show ?thesis by (auto simp: starts_function_def check_ok)
next
  case (Some m)
  from function_decl_name [OF Some] have "py_index (split_ws (group_text m 1)) (- 1) = Some (last (split_ws (group_text m 1)))"
    "CHR ''('' \<in> set line" by (blast intro: py_index_last)+
  with Some show ?thesis by (auto simp: starts_function_def check_ok)
qed

text \<open>
  The check of function lengths never raises: on every line of a cleansed file, for a verbosity of
  at least 0, it returns the new state and proper reports. The name before the parenthesis is never
  empty, and the second search for it never fails.
\<close>

theorem CheckForFunctionLengths_total:
  assumes "line_in cl linenum" and "0 \<le> verbosity"
  shows "\<exists>st' es. CheckForFunctionLengths verbosity filename cl linenum st = Some (st', es) \<and>
    list_all (proper_report filename linenum) es"
proof -
  let ?l = "cleansed_lines cl ! nat linenum"
  have l: "py_index (cleansed_lines cl) linenum = Some ?l"
    using assms(1) by (intro py_index_in_range) (auto simp: line_in_def file_ok_def lines_ok_def)
  obtain b where b: "starts_function ?l = Some b" "b \<longrightarrow> CHR ''('' \<in> set ?l"
    using starts_function_returns by blast
  show ?thesis
  proof (cases b)
    case True
    obtain body where "body_loop ?l [] (drop (nat linenum) (take (nat (NumLines cl)) (cleansed_lines cl))) = Some body"
      using body_loop_returns b(2) True by blast
    with l b True show ?thesis
      by (cases body) (auto simp: CheckForFunctionLengths_def accounting split: option.splits)
  next
    case False
    obtain es where "Check verbosity st filename linenum = Some es" "list_all (proper_report filename linenum) es"
      using Check_on_line [OF assms(2)] by (rule accounts_forE)
    with l b False show ?thesis by (simp add: CheckForFunctionLengths_def check_ok)
  qed
qed


text \<open>A file for examples: its lines, all four copies alike.\<close>

definition plain_file :: "string list \<Rightarrow> CleansedLines" where
  "plain_file lines = \<lparr>elided_lines = lines, cleansed_lines = lines, raw_lines = lines,
     num_lines = int (length lines), lines_without_raw_strings = lines\<rparr>"

lemma plain_file_line: "0 \<le> k \<Longrightarrow> k < int (length lines) \<Longrightarrow> line_in (plain_file lines) k"
  by (simp add: line_in_def file_ok_def lines_ok_def plain_file_def NumLines_def)

theorem CheckForFunctionLengths_total_witness:
  "\<exists>st' es. CheckForFunctionLengths 1 ''a.cc'' (plain_file [''int f() {'', ''}'']) 0 init_FunctionState = Some (st', es) \<and>
     list_all (proper_report ''a.cc'' 0) es"
  by (rule CheckForFunctionLengths_total) (simp_all add: plain_file_line)


text \<open>
  C33. The checks of a line keep their contract: on every line of a cleansed file each of the twelve
  returns, and what it returns are reports of that file and line, under a category that a NOLINT
  comment may name and with a confidence that the verbosity flag may filter.
\<close>

theorem line_checks_account:
  assumes "line_in cl linenum"
  shows "list_all (\<lambda>check. accounts_for filename linenum (check filename cl linenum))
    [CheckForMultilineCommentsAndStrings, CheckPosixThreading, CheckVlogArguments, CheckInvalidIncrement,
     CheckMakePairUsesDeduction, CheckDefaultLambdaCaptures, CheckRedundantVirtual,
     CheckRedundantOverrideOrFinal, CheckAltTokens, CheckPrintf, CheckGlobalStatic, FlagCxx11Features]"
  using multiline.on_line threading.on_line vlog.on_line increment.on_line make_pair.on_line lambda.on_line
    redundant_virtual.on_line redundant_override.on_line alt_token.on_line printf.on_line global_static.on_line
    cxx11.on_line assms by simp

theorem line_checks_account_witness:
  "accounts_for ''a.cc'' 1 (CheckRedundantVirtual ''a.cc'' (plain_file [[], ''virtual void f() override;'']) 1) \<and>
   CheckRedundantVirtual ''a.cc'' (plain_file [[], ''virtual void f() override;'']) 1 \<noteq> Some []"
proof -
  have "line_in (plain_file [[], ''virtual void f() override;'']) 1" by (simp add: plain_file_line)
  from line_checks_account [OF this, of "''a.cc''"]
  have "accounts_for ''a.cc'' 1 (CheckRedundantVirtual ''a.cc'' (plain_file [[], ''virtual void f() override;'']) 1)"
    by simp
  moreover have "CheckRedundantVirtual ''a.cc'' (plain_file [[], ''virtual void f() override;'']) 1 \<noteq> Some []"
    by code_simp
  ultimately show ?thesis ..
qed

end
