(* ===== verification/SpacingChecks.thy ===== *)
theory SpacingChecks
  imports LineChecks
begin

text \<open>
  The checks of horizontal and vertical spacing: \<^verbatim>\<open>CheckSpacingForFunctionCall\<close>, \<^verbatim>\<open>CheckSpacing\<close>,
  \<^verbatim>\<open>CheckOperatorSpacing\<close>, \<^verbatim>\<open>CheckParenthesisSpacing\<close>, \<^verbatim>\<open>CheckCommaSpacing\<close>, \<^verbatim>\<open>CheckBracesSpacing\<close>
  and \<^verbatim>\<open>CheckSectionSpacing\<close> of \<^verbatim>\<open>script/cpplint.py\<close>, with \<^verbatim>\<open>GetPreviousNonBlankLine\<close>. All of them
  meet the contract \<open>line_check\<close>. The one loop whose end is not in sight, the one that blots out the
  names of operator functions, is shown to end.
\<close>

section \<open>Function calls\<close>

definition unraw :: "CleansedLines \<Rightarrow> int \<Rightarrow> string py" where
  "unraw clean_lines linenum = py_index (lines_without_raw_strings clean_lines) linenum"

definition re_if_parens :: string where
  "re_if_parens = raw ''`bif`s*`((.*)`)`s*{''"

definition re_for_parens :: string where
  "re_for_parens = raw ''`bfor`s*`((.*)`)`s*{''"

definition re_while_parens :: string where
  "re_while_parens = raw ''`bwhile`s*`((.*)`)`s*[{;]''"

definition re_switch_parens :: string where
  "re_switch_parens = raw ''`bswitch`s*`((.*)`)`s*{''"

definition re_control_word :: string where
  "re_control_word = raw ''`b(if|for|while|switch|return|new|delete|catch|sizeof)`b''"

definition re_function_pointer :: string where
  "re_function_pointer = raw '' `([^)]+`)`([^)]*(`)|,$)''"

definition re_array_pointer :: string where
  "re_array_pointer = raw '' `([^)]+`)`[[^`]]+`]''"

definition re_call_space :: string where
  "re_call_space = raw ''`w`s*`(`s(?!`s*``$)''"

definition re_paren_space :: string where
  "re_paren_space = raw ''`(`s+(?!(`s*``)|`()''"

definition re_space_paren :: string where
  "re_space_paren = raw ''`w`s+`(''"

definition re_not_a_call :: string where
  "re_not_a_call = raw ''#`s*define|typedef|using`s+`w+`s*=''"

definition re_member_pointer :: string where
  "re_member_pointer = raw ''`w`s+`((`w+::)*`*`w+`)`(''"

definition re_case_paren :: string where
  "re_case_paren = raw ''`bcase`s+`(''"

definition re_blotted_operator :: string where
  "re_blotted_operator = raw ''`boperator_*`b''"

definition re_space_close :: string where
  "re_space_close = raw ''[^)]`s+`)`s*[^{`s]''"

definition re_only_close :: string where
  "re_only_close = raw ''^`s+`)''"

definition control_patterns :: "string list" where
  "control_patterns = [re_if_parens, re_for_parens, re_while_parens, re_switch_parens]"

fun fncall_loop :: "string \<Rightarrow> string list \<Rightarrow> string py" where
  "fncall_loop line [] = Some line"
| "fncall_loop line (pattern # ps) = do {
     m \<leftarrow> Search pattern line;
     (case m of Some m \<Rightarrow> Some (group_text m 1) | None \<Rightarrow> fncall_loop line ps)
   }"

definition CheckSpacingForFunctionCall :: "string \<Rightarrow> CleansedLines \<Rightarrow> int \<Rightarrow> event list py" where
  "CheckSpacingForFunctionCall filename clean_lines linenum = do {
     line \<leftarrow> elided clean_lines linenum;
     fncall \<leftarrow> fncall_loop line control_patterns;
     ignored \<leftarrow> or_else (Searches re_control_word fncall)
                 (or_else (Searches re_function_pointer fncall) (Searches re_array_pointer fncall));
     if ignored then Some []
     else do {
       call_space \<leftarrow> Searches re_call_space fncall;
       after \<leftarrow> (if call_space
                 then Some [Report filename linenum ''whitespace/parens'' 4 ''Extra space after ( in function call'']
                 else do {
                   paren_space \<leftarrow> Searches re_paren_space fncall;
                   Some (report_if paren_space
                     (Report filename linenum ''whitespace/parens'' 2 ''Extra space after (''))
                 });
       space_before \<leftarrow> and_then (Searches re_space_paren fncall)
         (and_then (negate (Searches re_not_a_call fncall))
           (and_then (negate (Searches re_member_pointer fncall)) (negate (Searches re_case_paren fncall))));
       before \<leftarrow> (if space_before
                  then do {
                    operator \<leftarrow> Searches re_blotted_operator line;
                    Some [Report filename linenum ''whitespace/parens'' (if operator then 0 else 4)
                            ''Extra space before ( in function call'']
                  }
                  else Some []);
       space_close \<leftarrow> Searches re_space_close fncall;
       close \<leftarrow> (if space_close
                 then do {
                   only_close \<leftarrow> Searches re_only_close fncall;
                   Some [Report filename linenum ''whitespace/parens'' 2
                           (if only_close then ''Closing ) should be moved to the previous line''
                            else ''Extra space before )'')]
                 }
                 else Some []);
       Some (after @ before @ close)
     }
   }"

section \<open>Blank lines and comments\<close>

definition re_indent_six :: string where
  "re_indent_six = raw '' {6}`w''"

definition re_parameters_end :: string where
  "re_parameters_end = raw '' {4}`w[^`(]*`)`s*(const`s*)?(`{`s*$|:)''"

definition re_initializer_start :: string where
  "re_initializer_start = '' {4}:''"

definition re_close_brace :: string where
  "re_close_brace = raw ''`s*}''"

definition re_access_label :: string where
  "re_access_label = raw ''`s*(public|protected|private):''"

definition re_space_bracket :: string where
  "re_space_bracket = raw ''`w`s+`[''"

definition re_delete_bracket :: string where
  "re_delete_bracket = raw ''(?:delete|return)`s+`[''"

definition re_colon_before :: string where
  "re_colon_before = raw ''for *`(.*[^:]:[^: ]''"

definition re_colon_after :: string where
  "re_colon_after = raw ''for *`(.*[^: ]:[^:]''"

text \<open>The last of the given lines, all indented by six, that does not start so; -1 if there is none.\<close>

fun initializer_search :: "CleansedLines \<Rightarrow> int list \<Rightarrow> int py" where
  "initializer_search clean_lines [] = Some (- 1)"
| "initializer_search clean_lines (search_position # is) = do {
     line \<leftarrow> elided clean_lines search_position;
     indented \<leftarrow> Matches re_indent_six line;
     if indented then initializer_search clean_lines is else Some search_position
   }"

definition start_exception :: "CleansedLines \<Rightarrow> int \<Rightarrow> string \<Rightarrow> bool py" where
  "start_exception clean_lines linenum prev_line = do {
     indented \<leftarrow> Matches re_indent_six prev_line;
     if indented
     then do {
       search_position \<leftarrow> initializer_search clean_lines (rev [0..linenum - 2]);
       if search_position \<ge> 0
       then do {
         line \<leftarrow> elided clean_lines search_position;
         Some (take 5 line = ''    :'')
       }
       else Some False
     }
     else or_else (Matches re_parameters_end prev_line) (Matches re_initializer_start prev_line)
   }"

definition blank_line_checks :: "string \<Rightarrow> CleansedLines \<Rightarrow> int \<Rightarrow> event list py" where
  "blank_line_checks filename clean_lines linenum = do {
     prev_line \<leftarrow> elided clean_lines (linenum - 1);
     let prevbrace = py_rfind prev_line ''{'';
     start \<leftarrow> (if prevbrace \<noteq> - 1 \<and> py_find (py_from prev_line prevbrace) ''}'' = - 1
               then do {
                 exception \<leftarrow> start_exception clean_lines linenum prev_line;
                 Some (report_if (\<not> exception)
                   (Report filename linenum ''whitespace/blank_line'' 2
                      ''Redundant blank line at the start of a code block should be deleted.''))
               }
               else Some []);
     finish \<leftarrow> (if linenum + 1 < NumLines clean_lines
                then do {
                  next_line \<leftarrow> unraw clean_lines (linenum + 1);
                  closing \<leftarrow> and_then (Some (next_line \<noteq> []))
                    (and_then (Matches re_close_brace next_line) (Some (py_find next_line ''} else '' = - 1)));
                  Some (report_if closing
                    (Report filename linenum ''whitespace/blank_line'' 3
                       ''Redundant blank line at the end of a code block should be deleted.''))
                }
                else Some []);
     matched \<leftarrow> Match re_access_label prev_line;
     Some (start @ finish @
       (case matched of
          None \<Rightarrow> []
        | Some m \<Rightarrow> [Report filename linenum ''whitespace/blank_line'' 3
                        ((''Do not leave a blank line after '' @ double_quote) @ group_text m 1 @ ('':'' @ double_quote))]))
   }"

definition CheckSpacing :: "NestingState \<Rightarrow> string \<Rightarrow> CleansedLines \<Rightarrow> int \<Rightarrow> event list py" where
  "CheckSpacing st filename clean_lines linenum = do {
     line \<leftarrow> unraw clean_lines linenum;
     blank \<leftarrow> (if IsBlankLine line \<and> \<not> InNamespaceBody st \<and> \<not> InExternC st
               then blank_line_checks filename clean_lines linenum
               else Some []);
     next_line_start \<leftarrow> (if linenum + 1 < NumLines clean_lines
                         then do {
                           next_line \<leftarrow> unraw clean_lines (linenum + 1);
                           Some (int (length next_line) - int (length (py_lstrip next_line)))
                         }
                         else Some 0);
     comment \<leftarrow> CheckComment line filename linenum next_line_start;
     line \<leftarrow> elided clean_lines linenum;
     bracket \<leftarrow> and_then (Searches re_space_bracket line) (negate (Searches re_delete_bracket line));
     colon \<leftarrow> or_else (Searches re_colon_before line) (Searches re_colon_after line);
     Some (blank @ comment @
       report_if bracket (Report filename linenum ''whitespace/braces'' 5 ''Extra space before ['') @
       report_if colon (Report filename linenum ''whitespace/forcolon'' 2
         ''Missing space around colon in range-based for loop''))
   }"

section \<open>Operators\<close>

definition re_operator_call :: string where
  "re_operator_call = raw ''^(.*`boperator`b)(`S+)(`s*`(.*)$''"

definition re_assign_before :: string where
  "re_assign_before = raw ''[`w.]=''"

definition re_assign_after :: string where
  "re_assign_after = raw ''=[`w.]''"

definition re_control_space :: string where
  "re_control_space = raw ''`b(if|while|for) ''"

definition re_other_assign :: string where
  "re_other_assign = raw ''(>=|<=|==|!=|&=|`^=|`|=|`+=|`*=|`/=|`%=)''"

definition re_operator_assign :: string where
  "re_operator_assign = ''operator=''"

definition re_binary :: string where
  "re_binary = raw ''[^<>=!`s](==|!=|<=|>=|`|`|)[^<>=!`s,;`)]''"

definition re_include_hash :: string where
  "re_include_hash = ''#.*include''"

definition re_less :: string where
  "re_less = raw ''^(.*[^`s<])<[^`s=<,]''"

definition re_greater :: string where
  "re_greater = raw ''^(.*[^-`s>])>[^`s=>,]''"

definition re_left_shift :: string where
  "re_left_shift = raw ''(operator|[^`s(<])(?:L|UL|ULL|l|ul|ull)?<<([^`s,=<])''"

definition re_right_shift :: string where
  "re_right_shift = ''>>[a-zA-Z_]''"

definition re_unary :: string where
  "re_unary = raw ''(!`s|~`s|[`s]--[`s;]|[`s]`+`+[`s;])''"

lemma spacing_patterns_compiled [re_compiled]:
  "re_compile re_if_parens \<noteq> None"
  "re_compile re_for_parens \<noteq> None"
  "re_compile re_while_parens \<noteq> None"
  "re_compile re_switch_parens \<noteq> None"
  "re_compile re_control_word \<noteq> None"
  "re_compile re_function_pointer \<noteq> None"
  "re_compile re_array_pointer \<noteq> None"
  "re_compile re_call_space \<noteq> None"
  "re_compile re_paren_space \<noteq> None"
  "re_compile re_space_paren \<noteq> None"
  "re_compile re_not_a_call \<noteq> None"
  "re_compile re_member_pointer \<noteq> None"
  "re_compile re_case_paren \<noteq> None"
  "re_compile re_blotted_operator \<noteq> None"
  "re_compile re_space_close \<noteq> None"
  "re_compile re_only_close \<noteq> None"
  "re_compile re_indent_six \<noteq> None"
  "re_compile re_parameters_end \<noteq> None"
  "re_compile re_initializer_start \<noteq> None"
  "re_compile re_close_brace \<noteq> None"
  "re_compile re_access_label \<noteq> None"
  "re_compile re_space_bracket \<noteq> None"
  "re_compile re_delete_bracket \<noteq> None"
  "re_compile re_colon_before \<noteq> None"
  "re_compile re_colon_after \<noteq> None"
  "re_compile re_operator_call \<noteq> None"
  "re_compile re_assign_before \<noteq> None"
  "re_compile re_assign_after \<noteq> None"
  "re_compile re_control_space \<noteq> None"
  "re_compile re_other_assign \<noteq> None"
  "re_compile re_operator_assign \<noteq> None"
  "re_compile re_binary \<noteq> None"
  "re_compile re_include_hash \<noteq> None"
  "re_compile re_less \<noteq> None"
  "re_compile re_greater \<noteq> None"
  "re_compile re_left_shift \<noteq> None"
  "re_compile re_right_shift \<noteq> None"
  "re_compile re_unary \<noteq> None"
  by code_simp+
partial_function (option) blot_operators :: "string \<Rightarrow> string py" where
  "blot_operators line = do {
     m \<leftarrow> Match re_operator_call line;
     (case m of
        Some m \<Rightarrow> blot_operators (group_text m 1 @ replicate (length (group_text m 2)) (CHR ''_'') @ group_text m 3)
      | None \<Rightarrow> Some line)
   }"

declare blot_operators.simps [code]

definition less_than_check :: "string \<Rightarrow> CleansedLines \<Rightarrow> int \<Rightarrow> string \<Rightarrow> event list py" where
  "less_than_check filename clean_lines linenum line = do {
     m \<leftarrow> Match re_less line;
     (case m of
        None \<Rightarrow> Some []
      | Some m \<Rightarrow> do {
          (_, _, end_pos) \<leftarrow> CloseExpression clean_lines linenum (length (group_text m 1));
          Some (report_if (end_pos \<le> - 1)
            (Report filename linenum ''whitespace/operators'' 3 ''Missing spaces around <''))
        })
   }"

definition greater_than_check :: "string \<Rightarrow> CleansedLines \<Rightarrow> int \<Rightarrow> string \<Rightarrow> event list py" where
  "greater_than_check filename clean_lines linenum line = do {
     m \<leftarrow> Match re_greater line;
     (case m of
        None \<Rightarrow> Some []
      | Some m \<Rightarrow> do {
          (_, _, start_pos) \<leftarrow> ReverseCloseExpression clean_lines linenum (length (group_text m 1));
          Some (report_if (start_pos \<le> - 1)
            (Report filename linenum ''whitespace/operators'' 3 ''Missing spaces around >''))
        })
   }"

definition CheckOperatorSpacing :: "string \<Rightarrow> CleansedLines \<Rightarrow> int \<Rightarrow> event list py" where
  "CheckOperatorSpacing filename clean_lines linenum = do {
     line \<leftarrow> elided clean_lines linenum;
     line \<leftarrow> blot_operators line;
     assign \<leftarrow> and_then (or_else (Searches re_assign_before line) (Searches re_assign_after line))
       (and_then (negate (Searches re_control_space line))
         (and_then (negate (Searches re_other_assign line)) (negate (Searches re_operator_assign line))));
     binary \<leftarrow> Search re_binary line;
     comparison \<leftarrow>
       (case binary of
          Some m \<Rightarrow> Some [Report filename linenum ''whitespace/operators'' 3
                             (''Missing spaces around '' @ group_text m 1)]
        | None \<Rightarrow> do {
            include \<leftarrow> Matches re_include_hash line;
            if include then Some []
            else do {
              less \<leftarrow> less_than_check filename clean_lines linenum line;
              greater \<leftarrow> greater_than_check filename clean_lines linenum line;
              Some (less @ greater)
            }
          });
     left_shift \<leftarrow> Search re_left_shift line;
     right_shift \<leftarrow> Searches re_right_shift line;
     unary \<leftarrow> Search re_unary line;
     Some (report_if assign (Report filename linenum ''whitespace/operators'' 4 ''Missing spaces around ='') @
       comparison @
       (case left_shift of
          None \<Rightarrow> []
        | Some m \<Rightarrow> report_if (\<not> (py_isdigit (group_text m 1) \<and> py_isdigit (group_text m 2)) \<and>
                              \<not> (group_text m 1 = ''operator'' \<and> group_text m 2 = '';''))
            (Report filename linenum ''whitespace/operators'' 3 ''Missing spaces around <<'')) @
       report_if right_shift (Report filename linenum ''whitespace/operators'' 3 ''Missing spaces around >>'') @
       (case unary of
          None \<Rightarrow> []
        | Some m \<Rightarrow> [Report filename linenum ''whitespace/operators'' 4
                        (''Extra space for operator '' @ group_text m 1)]))
   }"

section \<open>Parentheses, commas, braces\<close>

definition re_keyword_paren :: string where
  "re_keyword_paren = raw '' (if`(|for`(|while`(|switch`()''"

definition re_inside_parens :: string where
  "re_inside_parens = raw ''`b(if|for|while|switch)`s*`(([ ]*)(.).*[^ ]+([ ]*)`)`s*{`s*$''"

definition re_for_semicolon :: string where
  "re_for_semicolon = raw ''`bfor`s*`(.*; `)''"

definition re_comma :: string where
  "re_comma = raw '',[^,`s]''"

definition re_operator_comma :: string where
  "re_operator_comma = raw ''`boperator`s*,`s*`(''"

definition re_semicolon :: string where
  "re_semicolon = raw '';[^`s};``)/]''"

definition re_brace_before :: string where
  "re_brace_before = ''^(.*[^ ({>]){''"

definition re_after_brace :: string where
  "re_after_brace = raw ''^[`s}]*[{.;,)<>`]:]''"

definition re_brace_else :: string where
  "re_brace_else = ''}else''"

definition re_colon_semicolon :: string where
  "re_colon_semicolon = raw '':`s*;`s*$''"

definition re_only_semicolon :: string where
  "re_only_semicolon = raw ''^`s*;`s*$''"

definition re_space_semicolon :: string where
  "re_space_semicolon = raw ''`s+;`s*$''"

definition re_for_word :: string where
  "re_for_word = raw ''`bfor`b''"

definition CheckParenthesisSpacing :: "string \<Rightarrow> CleansedLines \<Rightarrow> int \<Rightarrow> event list py" where
  "CheckParenthesisSpacing filename clean_lines linenum = do {
     line \<leftarrow> elided clean_lines linenum;
     keyword \<leftarrow> Search re_keyword_paren line;
     m \<leftarrow> Search re_inside_parens line;
     inside \<leftarrow>
       (case m of
          None \<Rightarrow> Some []
        | Some m \<Rightarrow> do {
            let left = length (group_text m 2);
            let right = length (group_text m 4);
            mismatch \<leftarrow> and_then (Some (left \<noteq> right))
              (negate (or_else (Some (group_text m 3 = '';'' \<and> left = 1 + right))
                (and_then (Some (group_text m 2 = [])) (Searches re_for_semicolon line))));
            Some (report_if mismatch
                (Report filename linenum ''whitespace/parens'' 5 (''Mismatching spaces inside () in '' @ group_text m 1)) @
              report_if (left \<notin> {0, 1})
                (Report filename linenum ''whitespace/parens'' 5
                   (''Should have zero or one spaces inside ( and ) in '' @ group_text m 1)))
          });
     Some ((case keyword of
              None \<Rightarrow> []
            | Some m \<Rightarrow> [Report filename linenum ''whitespace/parens'' 5
                            (''Missing space before ( in '' @ group_text m 1)]) @ inside)
   }"

definition CheckCommaSpacing :: "string \<Rightarrow> CleansedLines \<Rightarrow> int \<Rightarrow> event list py" where
  "CheckCommaSpacing filename clean_lines linenum = do {
     line \<leftarrow> elided clean_lines linenum;
     comma \<leftarrow> and_then (do { replaced \<leftarrow> ReplaceAll re_operator_comma ''F('' line; Searches re_comma replaced })
                (do { raw_line \<leftarrow> unraw clean_lines linenum; Searches re_comma raw_line });
     semicolon \<leftarrow> Searches re_semicolon line;
     Some (report_if comma (Report filename linenum ''whitespace/comma'' 3 ''Missing space after ,'') @
       report_if semicolon (Report filename linenum ''whitespace/semicolon'' 3 ''Missing space after ;''))
   }"

fun trailing_loop :: "CleansedLines \<Rightarrow> string \<Rightarrow> int list \<Rightarrow> string py" where
  "trailing_loop clean_lines trailing_text [] = Some trailing_text"
| "trailing_loop clean_lines trailing_text (offset # is) = do {
     line \<leftarrow> elided clean_lines offset;
     trailing_loop clean_lines (trailing_text @ line) is
   }"

definition brace_before_check :: "string \<Rightarrow> CleansedLines \<Rightarrow> int \<Rightarrow> string \<Rightarrow> event list py" where
  "brace_before_check filename clean_lines linenum line = do {
     m \<leftarrow> Match re_brace_before line;
     (case m of
        None \<Rightarrow> Some []
      | Some m \<Rightarrow> do {
          (endline, endlinenum, endpos) \<leftarrow> CloseExpression clean_lines linenum (length (group_text m 1));
          trailing_text \<leftarrow> trailing_loop clean_lines (if endpos > - 1 then py_from endline endpos else [])
            [endlinenum + 1..min (endlinenum + 3) (NumLines clean_lines - 1) - 1];
          initialization \<leftarrow> Matches re_after_brace trailing_text;
          Some (report_if (\<not> initialization)
            (Report filename linenum ''whitespace/braces'' 5 ''Missing space before {''))
        })
   }"

definition CheckBracesSpacing :: "string \<Rightarrow> CleansedLines \<Rightarrow> int \<Rightarrow> event list py" where
  "CheckBracesSpacing filename clean_lines linenum = do {
     line \<leftarrow> elided clean_lines linenum;
     brace \<leftarrow> brace_before_check filename clean_lines linenum line;
     brace_else \<leftarrow> Searches re_brace_else line;
     colon_semicolon \<leftarrow> Searches re_colon_semicolon line;
     semicolon \<leftarrow>
       (if colon_semicolon
        then Some [Report filename linenum ''whitespace/semicolon'' 5
                     ''Semicolon defining empty statement. Use {} instead.'']
        else do {
          only_semicolon \<leftarrow> Searches re_only_semicolon line;
          if only_semicolon
          then Some [Report filename linenum ''whitespace/semicolon'' 5
                       ''Line contains only semicolon. If this should be an empty statement, use {} instead.'']
          else do {
            space_semicolon \<leftarrow> and_then (Searches re_space_semicolon line) (negate (Searches re_for_word line));
            Some (report_if space_semicolon
              (Report filename linenum ''whitespace/semicolon'' 5
                 ''Extra space before last semicolon. If this should be an empty statement, use {} instead.''))
          }
        });
     Some (brace @
       report_if brace_else (Report filename linenum ''whitespace/braces'' 5 ''Missing space before else'') @
       semicolon)
   }"

section \<open>Sections of a class\<close>

definition re_class_or_struct :: string where
  "re_class_or_struct = raw ''`b(class|struct)`b''"

definition re_class_head_end :: string where
  "re_class_head_end = raw ''`{`s*$''"

lemma braces_patterns_compiled [re_compiled]:
  "re_compile re_keyword_paren \<noteq> None"
  "re_compile re_inside_parens \<noteq> None"
  "re_compile re_for_semicolon \<noteq> None"
  "re_compile re_comma \<noteq> None"
  "re_compile re_operator_comma \<noteq> None"
  "re_compile re_semicolon \<noteq> None"
  "re_compile re_brace_before \<noteq> None"
  "re_compile re_after_brace \<noteq> None"
  "re_compile re_brace_else \<noteq> None"
  "re_compile re_colon_semicolon \<noteq> None"
  "re_compile re_only_semicolon \<noteq> None"
  "re_compile re_space_semicolon \<noteq> None"
  "re_compile re_for_word \<noteq> None"
  "re_compile re_class_or_struct \<noteq> None"
  "re_compile re_class_head_end \<noteq> None"
  by code_simp+
fun head_end_loop :: "CleansedLines \<Rightarrow> int \<Rightarrow> int list \<Rightarrow> int py" where
  "head_end_loop clean_lines end_class_head [] = Some end_class_head"
| "head_end_loop clean_lines end_class_head (i # is) = do {
     line \<leftarrow> py_index (cleansed_lines clean_lines) i;
     found \<leftarrow> Searches re_class_head_end line;
     if found then Some i else head_end_loop clean_lines end_class_head is
   }"

definition CheckSectionSpacing :: "class_info \<Rightarrow> string \<Rightarrow> CleansedLines \<Rightarrow> int \<Rightarrow> event list py" where
  "CheckSectionSpacing class_info filename clean_lines linenum =
     (if last_line class_info - class_starting_linenum class_info \<le> 24 \<or> linenum \<le> class_starting_linenum class_info
      then Some []
      else do {
        line \<leftarrow> py_index (cleansed_lines clean_lines) linenum;
        matched \<leftarrow> Match re_access_label line;
        (case matched of
           None \<Rightarrow> Some []
         | Some m \<Rightarrow> do {
             prev_line \<leftarrow> py_index (cleansed_lines clean_lines) (linenum - 1);
             considered \<leftarrow> and_then (Some (\<not> IsBlankLine prev_line))
               (and_then (negate (Searches re_class_or_struct prev_line)) (negate (Searches re_continued prev_line)));
             if \<not> considered then Some []
             else do {
               end_class_head \<leftarrow> head_end_loop clean_lines (class_starting_linenum class_info)
                 [class_starting_linenum class_info..linenum - 1];
               Some (report_if (end_class_head < linenum - 1)
                 (Report filename linenum ''whitespace/blank_line'' 3
                    (double_quote @ group_text m 1 @ ('':'' @ double_quote @ '' should be preceded by a blank line''))))
             }
           })
      })"

fun previous_loop :: "CleansedLines \<Rightarrow> int list \<Rightarrow> (string \<times> int) py" where
  "previous_loop clean_lines [] = Some ([], - 1)"
| "previous_loop clean_lines (prevlinenum # is) = do {
     prevline \<leftarrow> elided clean_lines prevlinenum;
     if \<not> IsBlankLine prevline then Some (prevline, prevlinenum) else previous_loop clean_lines is
   }"

definition GetPreviousNonBlankLine :: "CleansedLines \<Rightarrow> int \<Rightarrow> (string \<times> int) py" where
  "GetPreviousNonBlankLine clean_lines linenum = previous_loop clean_lines (rev [0..linenum - 1])"

section \<open>Operator functions\<close>

text \<open>
  The loop that blots out the names of operator functions ends: a name follows a word boundary, so
  its first character is not a character of a word, and every round leaves fewer of those.
\<close>

definition operator_call_re :: re where
  "operator_call_re = RSeq RBegin (RSeq (RGroup 1 (RSeq (RRepeat 0 None True RAny)
       (RSeq (RBoundary True) (literal ''operator'' [RBoundary True]))))
     (RSeq (RGroup 2 (RRepeat 1 None True (RSet False [ItemCat CatNotSpace])))
       (RSeq (RGroup 3 (RSeq (RRepeat 0 None True (RSet False [ItemCat CatSpace]))
          (RSeq (RChar (CHR ''('')) (RRepeat 0 None True RAny)))) REnd)))"

lemma re_operator_call_shape: "re_compile re_operator_call = Some (False, operator_call_re)"
  by code_simp

lemma operator_call_parts:
  assumes "re_match (the (re_compile re_operator_call)) s = Some m"
  obtains x w t where "group_text m 2 = x # w" and "\<not> re_word x"
    and "s = group_text m 1 @ (x # w) @ group_text m 3 @ t"
proof -
  have plain: "plain_look operator_call_re" by (simp add: operator_call_re_def)
  have "re_match (False, operator_call_re) s = Some m" using assms re_operator_call_shape by simp
  then obtain e where e: "denotes False s operator_call_re (start_cursor s, []) (e, m_groups m)" and str: "m_string m = s"
    using plain by (rule re_match_denotes)
  then obtain a c1 c2 c3 v b1 c4 c5 b2 where a: "goes (start_cursor s) a c1" "goes c1 ''operator'' c2" "at_boundary c2"
     and v: "v \<noteq> []" "goes c2 v c3" and b: "goes c3 b1 c4" "goes c4 [CHR ''(''] c5" "goes c5 b2 e"
     and g: "m_groups m = [(3, pos_of c3, pos_of e), (2, pos_of c2, pos_of c3), (1, 0, pos_of c2)]"
    unfolding operator_call_re_def by (auto simp: reads start_cursor_def)
  let ?a = "a @ ''operator''" and ?b = "b1 @ [CHR ''(''] @ b2"
  have a': "goes (start_cursor s) ?a c2" using a goes_trans by blast
  have b': "goes c3 ?b e" using b by (blast intro: goes_trans)
  note all = goes_trans [OF a' goes_trans [OF v(2) b']]
  have s: "s = ?a @ v @ ?b @ rest_of e" using goes_start [OF all] by simp
  have t: "group_text m 1 = ?a" "group_text m 2 = v" "group_text m 3 = ?b"
    using goes_text0 [OF a'] goes_text [OF a' v(2)] goes_text [OF goes_trans [OF a' v(2)] b']
    by (simp_all add: group_text_def group_def g str)
  obtain x w where xw: "v = x # w" using v(1) by (cases v) auto
  have "fst (snd c2) = Some (CHR ''r'')" using a(2) by (simp add: goes_def)
  moreover have "re_word (CHR ''r'')" by code_simp
  ultimately have "\<not> re_word x"
    using a(3) goes_rest [OF v(2)] xw by (simp add: at_boundary_def)
  with s t xw show thesis by (intro that [of x w "rest_of e"]) simp_all
qed

definition other_chars :: "string \<Rightarrow> nat" where
  "other_chars s = length (filter (\<lambda>c. \<not> re_word c) s)"

lemma blot_operators_returns: "\<exists>line'. blot_operators line = Some line' \<and> length line' \<le> length line"
proof (induction "other_chars line" arbitrary: line rule: less_induct)
  case less
  show ?case
  proof (cases "re_match (the (re_compile re_operator_call)) line")
    case None
    then show ?thesis by (subst blot_operators.simps) (simp add: check_ok re_compiled)
  next
    case (Some m)
    then obtain x w t where x: "group_text m 2 = x # w" "\<not> re_word x"
      and s: "line = group_text m 1 @ (x # w) @ group_text m 3 @ t" by (rule operator_call_parts)
    let ?l = "group_text m 1 @ replicate (length (group_text m 2)) (CHR ''_'') @ group_text m 3"
    have "re_word (CHR ''_'')" by code_simp
    then have "other_chars ?l < other_chars (group_text m 1 @ (x # w) @ group_text m 3 @ t)"
      using x by (simp add: other_chars_def)
    then have "other_chars ?l < other_chars line" using s by simp
    moreover have "length ?l \<le> length line" using arg_cong [OF s, of length] x(1) by simp
    ultimately obtain line' where "blot_operators ?l = Some line'" "length line' \<le> length line"
      using less [of ?l] by fastforce
    with Some show ?thesis by (subst blot_operators.simps) (simp add: check_ok re_compiled)
  qed
qed

section \<open>The contract\<close>

lemma listed_spacing [accounting]:
  "''whitespace/parens'' \<in> set ERROR_CATEGORIES" "''whitespace/blank_line'' \<in> set ERROR_CATEGORIES"
  "''whitespace/braces'' \<in> set ERROR_CATEGORIES" "''whitespace/forcolon'' \<in> set ERROR_CATEGORIES"
  "''whitespace/operators'' \<in> set ERROR_CATEGORIES" "''whitespace/comma'' \<in> set ERROR_CATEGORIES"
  "''whitespace/semicolon'' \<in> set ERROR_CATEGORIES"
  by code_simp+

lemmas spacing_ok = check_ok spacing_patterns_compiled braces_patterns_compiled listed_spacing

lemma accounts_for_bind:
  assumes "accounts_for filename linenum m"
    and "\<And>es. list_all (proper_report filename linenum) es \<Longrightarrow> accounts_for filename linenum (k es)"
  shows "accounts_for filename linenum (do { es \<leftarrow> m; k es })"
  using assms by (auto elim!: accounts_forE)

lemma unraw_ok: "line_in cl linenum \<Longrightarrow> unraw cl linenum = Some (lines_without_raw_strings cl ! nat linenum)"
  by (auto simp: line_in_def file_ok_def lines_ok_def unraw_def py_index_in_range)

lemma cleansed_ok: "line_in cl linenum \<Longrightarrow> py_index (cleansed_lines cl) linenum = Some (cleansed_lines cl ! nat linenum)"
  by (auto simp: line_in_def file_ok_def lines_ok_def py_index_in_range)

lemma next_line_in: "line_in cl linenum \<Longrightarrow> linenum + 1 < NumLines cl \<Longrightarrow> line_in cl (linenum + 1)"
  by (simp add: line_in_def)

text \<open>Python reads the last line for line -1.\<close>

lemma elided_previous: "line_in cl linenum \<Longrightarrow> \<exists>l. elided cl (linenum - 1) = Some l"
  by (auto simp: line_in_def file_ok_def lines_ok_def elided_def py_index_def Let_def)

lemma earlier_lines_in: "line_in cl linenum \<Longrightarrow> k \<le> linenum \<Longrightarrow> 0 \<le> j \<Longrightarrow> list_all (line_in cl) (rev [j..k])"
  by (auto simp: line_in_def list_all_iff)

lemma fncall_loop_returns:
  "list_all (\<lambda>p. re_compile p \<noteq> None) ps \<Longrightarrow> \<exists>r. fncall_loop line ps = Some r"
  by (induction ps) (auto simp: re_total split: option.splits)

interpretation function_call: line_check CheckSpacingForFunctionCall
proof
  fix cl linenum filename
  assume l: "line_in cl linenum"
  have "list_all (\<lambda>p. re_compile p \<noteq> None) control_patterns"
    by (simp add: control_patterns_def spacing_patterns_compiled del: not_None_eq)
  then obtain fncall where "fncall_loop (elided_lines cl ! nat linenum) control_patterns = Some fncall"
    using fncall_loop_returns by blast
  with l show "accounts_for filename linenum (CheckSpacingForFunctionCall filename cl linenum)"
    by (simp add: CheckSpacingForFunctionCall_def spacing_ok)
qed

lemma initializer_search_returns:
  "list_all (line_in cl) is \<Longrightarrow> \<exists>i. initializer_search cl is = Some i \<and> (i \<ge> 0 \<longrightarrow> line_in cl i)"
  by (induction "is") (auto simp: spacing_ok)

lemma start_exception_returns:
  assumes "line_in cl linenum"
  shows "\<exists>b. start_exception cl linenum prev_line = Some b"
proof -
  have "list_all (line_in cl) (rev [0..linenum - 2])" using assms by (rule earlier_lines_in) auto
  then obtain i where "initializer_search cl (rev [0..linenum - 2]) = Some i" "i \<ge> 0 \<longrightarrow> line_in cl i"
    using initializer_search_returns by blast
  then show ?thesis by (auto simp: start_exception_def spacing_ok)
qed

lemma blank_line_checks_on_line:
  assumes "line_in cl linenum"
  shows "accounts_for filename linenum (blank_line_checks filename cl linenum)"
proof -
  obtain prev where prev: "elided cl (linenum - 1) = Some prev" using elided_previous [OF assms] by blast
  obtain b where "start_exception cl linenum prev = Some b" using start_exception_returns [OF assms] by blast
  with prev show ?thesis
    using next_line_in [OF assms] by (auto simp: blank_line_checks_def spacing_ok unraw_ok split: option.splits)
qed

lemma CheckComment_on_line: "accounts_for filename linenum (CheckComment line filename linenum next_line_start)"
  by (auto simp: CheckComment_def spacing_ok split: option.splits)

interpretation spacing: line_check "CheckSpacing st" for st
proof
  fix cl linenum filename
  assume l: "line_in cl linenum"
  note checks = blank_line_checks_on_line [OF l] CheckComment_on_line
  show "accounts_for filename linenum (CheckSpacing st filename cl linenum)"
    using l next_line_in [OF l]
    by (auto simp: CheckSpacing_def spacing_ok unraw_ok intro!: accounts_for_bind checks)
qed

lemma spacing_columns: "has_column re_less" "has_column re_greater" "has_column re_brace_before"
  by code_simp+

lemma ReverseCloseExpression_on_line:
  assumes "line_in cl linenum" and "pos < length (elided_lines cl ! nat linenum)"
  obtains line ln e where "ReverseCloseExpression cl linenum pos = Some (line, ln, e)"
    and "e = - 1 \<or> line_in cl ln \<and> 0 \<le> e \<and> e \<le> int (length (elided_lines cl ! nat ln))"
  using ReverseCloseExpression_returns [of cl linenum pos] assms that
  by (auto simp: line_in_def file_ok_def within_def)

lemma less_than_check_on_line:
  assumes "line_in cl linenum" and "length line \<le> length (elided_lines cl ! nat linenum)"
  shows "accounts_for filename linenum (less_than_check filename cl linenum line)"
proof (cases "re_match (the (re_compile re_less)) line")
  case None
  then show ?thesis by (simp add: less_than_check_def spacing_ok)
next
  case (Some m)
  have "length (group_text m 1) < length (elided_lines cl ! nat linenum)"
    using column_in_line [OF spacing_columns(1) Some] assms(2) by simp
  then obtain l ln e where "CloseExpression cl linenum (length (group_text m 1)) = Some (l, ln, e)"
    using CloseExpression_on_line [OF assms(1)] by blast
  with Some show ?thesis by (simp add: less_than_check_def spacing_ok)
qed

lemma greater_than_check_on_line:
  assumes "line_in cl linenum" and "length line \<le> length (elided_lines cl ! nat linenum)"
  shows "accounts_for filename linenum (greater_than_check filename cl linenum line)"
proof (cases "re_match (the (re_compile re_greater)) line")
  case None
  then show ?thesis by (simp add: greater_than_check_def spacing_ok)
next
  case (Some m)
  have "length (group_text m 1) < length (elided_lines cl ! nat linenum)"
    using column_in_line [OF spacing_columns(2) Some] assms(2) by simp
  then obtain l ln e where "ReverseCloseExpression cl linenum (length (group_text m 1)) = Some (l, ln, e)"
    using ReverseCloseExpression_on_line [OF assms(1)] by blast
  with Some show ?thesis by (simp add: greater_than_check_def spacing_ok)
qed

interpretation operator_spacing: line_check CheckOperatorSpacing
proof
  fix cl linenum filename
  assume l: "line_in cl linenum"
  obtain line where line: "blot_operators (elided_lines cl ! nat linenum) = Some line"
    "length line \<le> length (elided_lines cl ! nat linenum)" using blot_operators_returns by blast
  obtain less greater where "less_than_check filename cl linenum line = Some less"
    "greater_than_check filename cl linenum line = Some greater"
    "list_all (proper_report filename linenum) (less @ greater)"
    using less_than_check_on_line [OF l line(2)] greater_than_check_on_line [OF l line(2)]
    by (metis accounts_forE list_all_append)
  with l line(1) show "accounts_for filename linenum (CheckOperatorSpacing filename cl linenum)"
    by (auto simp: CheckOperatorSpacing_def spacing_ok split: option.splits)
qed

interpretation parenthesis_spacing: line_check CheckParenthesisSpacing
  by unfold_locales (auto simp: CheckParenthesisSpacing_def spacing_ok split: option.splits)

interpretation comma_spacing: line_check CheckCommaSpacing
  by unfold_locales (simp add: CheckCommaSpacing_def spacing_ok unraw_ok)

lemma trailing_loop_returns: "list_all (line_in cl) is \<Longrightarrow> \<exists>t. trailing_loop cl before is = Some t"
  by (induction "is" arbitrary: before) (auto simp: elided_ok)

lemma brace_before_check_on_line:
  assumes "line_in cl linenum"
  shows "accounts_for filename linenum (brace_before_check filename cl linenum (elided_lines cl ! nat linenum))"
proof (cases "re_match (the (re_compile re_brace_before)) (elided_lines cl ! nat linenum)")
  case None
  then show ?thesis by (simp add: brace_before_check_def spacing_ok)
next
  case (Some m)
  obtain line ln e where c: "CloseExpression cl linenum (length (group_text m 1)) = Some (line, ln, e)"
    "e = - 1 \<or> line_in cl ln" using CloseExpression_on_line [OF assms column_in_line [OF spacing_columns(3) Some]] by metis
  have "0 \<le> ln" using CloseExpression_lost [OF c(1)] c(2) assms by (auto simp: line_in_def)
  then have "list_all (line_in cl) [ln + 1..min (ln + 3) (NumLines cl - 1) - 1]"
    using assms by (auto simp: line_in_def list_all_iff)
  then obtain t where "trailing_loop cl (if e > - 1 then py_from line e else []) [ln + 1..min (ln + 3) (NumLines cl - 1) - 1] = Some t"
    using trailing_loop_returns by blast
  with Some c(1) show ?thesis by (simp add: brace_before_check_def spacing_ok)
qed

interpretation braces_spacing: line_check CheckBracesSpacing
  by unfold_locales
    (auto simp: CheckBracesSpacing_def spacing_ok intro!: accounts_for_bind brace_before_check_on_line)

lemma head_end_loop_returns: "list_all (line_in cl) is \<Longrightarrow> \<exists>i. head_end_loop cl k is = Some i"
  by (induction "is") (auto simp: spacing_ok cleansed_ok)

lemma CheckSectionSpacing_on_line:
  assumes "line_in cl linenum" and "0 \<le> class_starting_linenum c"
  shows "accounts_for filename linenum (CheckSectionSpacing c filename cl linenum)"
proof (cases "last_line c - class_starting_linenum c \<le> 24 \<or> linenum \<le> class_starting_linenum c")
  case False
  then have "list_all (line_in cl) [class_starting_linenum c..linenum - 1]" "line_in cl (linenum - 1)"
    using assms by (auto simp: line_in_def list_all_iff)
  moreover from this(1) obtain i where
    "head_end_loop cl (class_starting_linenum c) [class_starting_linenum c..linenum - 1] = Some i"
    using head_end_loop_returns by blast
  ultimately show ?thesis
    using False assms(1)
    by (auto simp: CheckSectionSpacing_def spacing_ok cleansed_ok function_patterns_compiled re_compiled split: option.splits)
qed (simp add: CheckSectionSpacing_def accounting)

lemma previous_loop_finds:
  assumes "list_all (line_in cl) is"
  shows "previous_loop cl is = Some (case find (\<lambda>i. \<not> IsBlankLine (elided_lines cl ! nat i)) is of
    None \<Rightarrow> ([], - 1) | Some i \<Rightarrow> (elided_lines cl ! nat i, i))"
  using assms by (induction "is") (auto simp: elided_ok)

text \<open>
  The previous line that is not blank: the search returns on every line of the file. It gives the
  nearest line above with something on it, or the empty string and -1 when all of them are blank.
\<close>

theorem GetPreviousNonBlankLine_nearest:
  assumes "line_in cl linenum"
  shows "\<exists>line i. GetPreviousNonBlankLine cl linenum = Some (line, i) \<and>
    (if i = - 1 then line = [] \<and> (\<forall>j. 0 \<le> j \<longrightarrow> j < linenum \<longrightarrow> IsBlankLine (elided_lines cl ! nat j))
     else 0 \<le> i \<and> i < linenum \<and> line = elided_lines cl ! nat i \<and> \<not> IsBlankLine line \<and>
       (\<forall>j. i < j \<longrightarrow> j < linenum \<longrightarrow> IsBlankLine (elided_lines cl ! nat j)))"
proof -
  let ?P = "\<lambda>i. \<not> IsBlankLine (elided_lines cl ! nat i)" and ?is = "rev [0..linenum - 1]"
  have g: "GetPreviousNonBlankLine cl linenum = Some (case find ?P ?is of
      None \<Rightarrow> ([], - 1) | Some i \<Rightarrow> (elided_lines cl ! nat i, i))"
    unfolding GetPreviousNonBlankLine_def
    by (rule previous_loop_finds) (use assms earlier_lines_in in simp)
  show ?thesis
  proof (cases "find ?P ?is")
    case None
    then have "GetPreviousNonBlankLine cl linenum = Some ([], - 1)" using g by simp
    moreover have "IsBlankLine (elided_lines cl ! nat j)" if "0 \<le> j" "j < linenum" for j
      using that None by (auto simp: find_None_iff)
    ultimately show ?thesis by auto
  next
    case (Some i)
    then obtain k where k: "k < length ?is" "?P (?is ! k)" "i = ?is ! k" "\<forall>j < k. \<not> ?P (?is ! j)"
      by (auto simp: find_Some_iff)
    have at: "?is ! j = linenum - 1 - int j" if "j < length ?is" for j
    proof -
      have j: "j < nat linenum" using that by simp
      then have k: "0 + int (nat linenum - Suc j) = linenum - 1 - int j" by linarith
      then have "[0..linenum - 1] ! (nat linenum - Suc j) = linenum - 1 - int j"
        using nth_upto [of 0 "nat linenum - Suc j" "linenum - 1"] by linarith
      with j show ?thesis by (simp add: rev_nth)
    qed
    have "IsBlankLine (elided_lines cl ! nat j)" if "i < j" "j < linenum" for j
    proof -
      have n: "nat (linenum - 1 - j) < k" using that at [OF k(1)] k(3) by auto
      then have "?is ! nat (linenum - 1 - j) = linenum - 1 - int (nat (linenum - 1 - j))"
        using k(1) by (intro at) (rule less_trans)
      then have "?is ! nat (linenum - 1 - j) = j" using that by linarith
      with n k(4) show ?thesis by auto
    qed
    with k at g Some show ?thesis by (auto simp: k(3))
  qed
qed

theorem GetPreviousNonBlankLine_nearest_witness:
  "GetPreviousNonBlankLine (plain_file [''a;'', '' '', ''{'']) 2 = Some (''a;'', 0) \<and> \<not> IsBlankLine ''a;''"
proof -
  have "line_in (plain_file [''a;'', '' '', ''{'']) 2" by (simp add: plain_file_line)
  moreover have "GetPreviousNonBlankLine (plain_file [''a;'', '' '', ''{'']) 2 = Some (''a;'', 0)" by code_simp
  ultimately show ?thesis using GetPreviousNonBlankLine_nearest by fastforce
qed

end
