(* ===== verification/BraceChecks.thy ===== *)
theory BraceChecks
  imports SpacingChecks
begin

text \<open>
  The checks of braces, semicolons and assertion macros: \<^verbatim>\<open>CheckBraces\<close>, \<^verbatim>\<open>CheckTrailingSemicolon\<close>,
  \<^verbatim>\<open>CheckEmptyBlockBody\<close>, \<^verbatim>\<open>FindCheckMacro\<close> and \<^verbatim>\<open>CheckCheck\<close> of \<^verbatim>\<open>script/cpplint.py\<close>. Two of them
  report at the end of the construct they look at, on a later line: their contract is
  \<open>accounts_from\<close>, every report lies at or after the line that is checked and inside the file.
\<close>

section \<open>Braces\<close>

definition re_open_line :: string where
  "re_open_line = raw ''`s*{`s*$''"

definition re_open_allowed :: string where
  "re_open_allowed = raw ''[,;:}{(]`s*$''"

definition re_else_line :: string where
  "re_else_line = raw ''`s*else`b`s*(?:if`b|`{|$)''"

definition re_close_line :: string where
  "re_close_line = raw ''`s*}`s*$''"

definition re_else_if :: string where
  "re_else_if = raw ''else if`s*`(''"

definition re_brace_else_if :: string where
  "re_brace_else_if = raw ''}`s*else if`s*`(''"

definition re_brace_then_else :: string where
  "re_brace_then_else = raw ''}`s*else[^{]*$''"

definition re_else_then_brace :: string where
  "re_else_then_brace = raw ''[^}]*else`s*{''"

definition re_else_clause :: string where
  "re_else_clause = raw ''`belse [^`s{]''"

definition re_else_if_word :: string where
  "re_else_if_word = raw ''`belse if`b''"

definition re_do_clause :: string where
  "re_do_clause = raw ''`s*do [^`s{]''"

definition re_if_or_else :: string where
  "re_if_or_else = raw ''`b(if`s*`(|else`b)''"

definition re_if_open :: string where
  "re_if_open = raw ''`bif`s*`(''"

definition re_brace_start :: string where
  "re_brace_start = raw ''`s*{''"

definition re_rest_blank :: string where
  "re_rest_blank = raw ''`s*$''"

definition re_last_semicolon :: string where
  "re_last_semicolon = raw '';[`s}]*(``?)$''"

definition re_lambda_line :: string where
  "re_lambda_line = raw ''^[^{};]*`[[^`[`]]*`][^{}]*`{[^{}]*`}`s*`)*[;,]`s*$''"

definition re_else_start :: string where
  "re_else_start = raw ''`s*else`b''"

definition open_brace_check :: "string \<Rightarrow> CleansedLines \<Rightarrow> int \<Rightarrow> string \<Rightarrow> event list py" where
  "open_brace_check filename clean_lines linenum line = do {
     open_line \<leftarrow> Matches re_open_line line;
     if \<not> open_line then Some []
     else do {
       (prevline, _) \<leftarrow> GetPreviousNonBlankLine clean_lines linenum;
       misplaced \<leftarrow> and_then (negate (Searches re_open_allowed prevline)) (negate (Matches re_directive prevline));
       Some (report_if misplaced
         (Report filename linenum ''whitespace/braces'' 4
            ''{ should almost always be at the end of the previous line''))
     }
   }"

definition else_line_check :: "string \<Rightarrow> CleansedLines \<Rightarrow> int \<Rightarrow> string \<Rightarrow> event list py" where
  "else_line_check filename clean_lines linenum line = do {
     else_line \<leftarrow> Matches re_else_line line;
     if \<not> else_line then Some []
     else do {
       (prevline, _) \<leftarrow> GetPreviousNonBlankLine clean_lines linenum;
       alone \<leftarrow> Matches re_close_line prevline;
       Some (report_if alone
         (Report filename linenum ''whitespace/newline'' 4
            ''An else should appear on the same line as the preceding }''))
     }
   }"

text \<open>The column searched from is not negative: the pattern found the words before.\<close>

definition else_braces_check :: "string \<Rightarrow> CleansedLines \<Rightarrow> int \<Rightarrow> string \<Rightarrow> event list py" where
  "else_braces_check filename clean_lines linenum line = do {
     let report = Report filename linenum ''readability/braces'' 5
       ''If an else has a brace on one side, it should have it on both'';
     else_if \<leftarrow> Searches re_else_if line;
     if else_if
     then do {
       brace_on_left \<leftarrow> Searches re_brace_else_if line;
       let pos = py_find line ''else if'';
       let pos = py_find_from line ''('' (nat pos);
       if pos > 0
       then do {
         (endline, _, endpos) \<leftarrow> CloseExpression clean_lines linenum (nat pos);
         let brace_on_right = py_find (py_from endline endpos) ''{'' \<noteq> - 1;
         Some (report_if (brace_on_left \<noteq> brace_on_right) report)
       }
       else Some []
     }
     else do {
       one_side \<leftarrow> or_else (Searches re_brace_then_else line) (Matches re_else_then_brace line);
       Some (report_if one_side report)
     }
   }"

text \<open>The line of the first semicolon, from a column of the first of the given lines on.\<close>

fun semicolon_loop :: "string list \<Rightarrow> int \<Rightarrow> int \<Rightarrow> int" where
  "semicolon_loop [] endlinenum endpos = endlinenum"
| "semicolon_loop (line # lines) endlinenum endpos =
     (if contains (py_from line endpos) '';'' then endlinenum else semicolon_loop lines (endlinenum + 1) 0)"

definition statement_end_check :: "string \<Rightarrow> CleansedLines \<Rightarrow> int \<Rightarrow> nat \<Rightarrow> bool \<Rightarrow> int \<Rightarrow> event list py" where
  "statement_end_check filename clean_lines linenum if_indent if_match endlinenum =
     (if endlinenum < int (length (elided_lines clean_lines))
      then do {
        let report = Report filename linenum ''readability/braces'' 4
          ''If/else bodies with multiple statements require braces'';
        endline \<leftarrow> elided clean_lines endlinenum;
        let endpos = py_find endline '';'';
        last \<leftarrow> Matches re_last_semicolon (py_from endline endpos);
        if \<not> last
        then do {
          lambda \<leftarrow> Matches re_lambda_line endline;
          Some (report_if (\<not> lambda) report)
        }
        else if endlinenum < int (length (elided_lines clean_lines)) - 1
        then do {
          next_line \<leftarrow> elided clean_lines (endlinenum + 1);
          next_indent \<leftarrow> GetIndentLevel next_line;
          ambiguous \<leftarrow> and_then (Some if_match)
            (and_then (Matches re_else_start next_line) (Some (next_indent \<noteq> if_indent)));
          Some (if ambiguous
                then [Report filename linenum ''readability/braces'' 4
                        ''Else clause should be indented at the same level as if. Ambiguous nested if/else chains require braces.'']
                else report_if (next_indent > if_indent) report)
        }
        else Some []
      }
      else Some [])"

definition body_check ::
    "string \<Rightarrow> CleansedLines \<Rightarrow> int \<Rightarrow> nat \<Rightarrow> bool \<Rightarrow> string \<Rightarrow> int \<Rightarrow> int \<Rightarrow> event list py" where
  "body_check filename clean_lines linenum if_indent if_match endline endlinenum endpos = do {
     braces \<leftarrow> or_else (Matches re_brace_start (py_from endline endpos))
       (and_then (Matches re_rest_blank (py_from endline endpos))
         (and_then (Some (endlinenum < int (length (elided_lines clean_lines)) - 1))
           (do { next_line \<leftarrow> elided clean_lines (endlinenum + 1); Matches re_brace_start next_line })));
     if braces then Some []
     else statement_end_check filename clean_lines linenum if_indent if_match
       (semicolon_loop (drop (nat endlinenum) (elided_lines clean_lines)) endlinenum endpos)
   }"

definition if_body_check :: "string \<Rightarrow> CleansedLines \<Rightarrow> int \<Rightarrow> string \<Rightarrow> event list py" where
  "if_body_check filename clean_lines linenum line = do {
     m \<leftarrow> Search re_if_or_else line;
     (case m of
        None \<Rightarrow> Some []
      | Some if_else_match \<Rightarrow> do {
          directive \<leftarrow> Matches re_directive line;
          if directive then Some []
          else do {
            if_indent \<leftarrow> GetIndentLevel line;
            if_match \<leftarrow> Search re_if_open line;
            (endline, endlinenum, endpos) \<leftarrow>
              (case if_match of
                 Some m \<Rightarrow> CloseExpression clean_lines linenum (m_end m - 1)
               | None \<Rightarrow> Some (line, linenum, int (m_end if_else_match)));
            body_check filename clean_lines linenum if_indent (if_match \<noteq> None) endline endlinenum endpos
          }
        })
   }"

definition CheckBraces :: "string \<Rightarrow> CleansedLines \<Rightarrow> int \<Rightarrow> event list py" where
  "CheckBraces filename clean_lines linenum = do {
     line \<leftarrow> elided clean_lines linenum;
     opening \<leftarrow> open_brace_check filename clean_lines linenum line;
     else_line \<leftarrow> else_line_check filename clean_lines linenum line;
     else_braces \<leftarrow> else_braces_check filename clean_lines linenum line;
     else_clause \<leftarrow> and_then (Searches re_else_clause line) (negate (Searches re_else_if_word line));
     do_clause \<leftarrow> Matches re_do_clause line;
     body \<leftarrow> if_body_check filename clean_lines linenum line;
     Some (opening @ else_line @ else_braces @
       report_if else_clause (Report filename linenum ''whitespace/newline'' 4
         ''Else clause should never be on same line as else (use 2 lines)'') @
       report_if do_clause (Report filename linenum ''whitespace/newline'' 4
         ''do/while clauses should not be on a single line'') @
       body)
   }"

section \<open>Semicolons\<close>

definition re_paren_brace :: string where
  "re_paren_brace = raw ''^(.*`)`s*)`{''"

definition re_macro_before :: string where
  "re_macro_before = raw ''`b([A-Z_]+)`s*$''"

definition re_bracket_end :: string where
  "re_bracket_end = raw ''^(.*`])`s*$''"

definition re_operator_brackets :: string where
  "re_operator_brackets = raw ''`boperator`s*`[`s*`]''"

definition re_alignas :: string where
  "re_alignas = raw ''`b(?:struct|union)`s+alignas`s*$''"

definition re_equals_end :: string where
  "re_equals_end = raw ''`s+=`s*$''"

definition re_bracket_before :: string where
  "re_bracket_before = raw ''`]`s*$''"

definition re_else_or_const :: string where
  "re_else_or_const = raw ''^(.*(?:else|`)`s*const)`s*)`{''"

definition re_block_before :: string where
  "re_block_before = raw ''[;{}]`s*$''"

definition re_indented_brace :: string where
  "re_indented_brace = raw ''^(`s*)`{''"

definition re_semicolon_start :: string where
  "re_semicolon_start = raw ''^`s*;''"

definition re_loop_or_if :: string where
  "re_loop_or_if = raw ''`s*(for|while|if)`s*`(''"

definition re_semicolon_only :: string where
  "re_semicolon_only = '';''"

definition safe_macros :: "string list" where
  "safe_macros = [''TEST'', ''TEST_F'', ''MATCHER'', ''MATCHER_P'', ''TYPED_TEST'',
     ''EXCLUSIVE_LOCKS_REQUIRED'', ''SHARED_LOCKS_REQUIRED'', ''LOCKS_EXCLUDED'', ''INTERFACE_DEF'']"

text \<open>Whether the text before the parenthesis says that no block follows.\<close>

definition not_a_block :: "string \<Rightarrow> bool py" where
  "not_a_block line_prefix = do {
     macro \<leftarrow> Search re_macro_before line_prefix;
     func \<leftarrow> Match re_bracket_end line_prefix;
     or_else (Some (case macro of None \<Rightarrow> False | Some m \<Rightarrow> group_text m 1 \<notin> set safe_macros))
       (or_else (case func of None \<Rightarrow> Some False
                  | Some m \<Rightarrow> negate (Searches re_operator_brackets (group_text m 1)))
         (or_else (Searches re_alignas line_prefix) (Searches re_equals_end line_prefix)))
   }"

definition block_after_paren :: "CleansedLines \<Rightarrow> int \<Rightarrow> rmatch \<Rightarrow> rmatch option py" where
  "block_after_paren clean_lines linenum m = do {
     let closing_brace_pos = py_rfind (group_text m 1) '')'';
     (opening_line, opening_linenum, opening_pos) \<leftarrow> ReverseCloseExpression clean_lines linenum (nat closing_brace_pos);
     rejected \<leftarrow> (if opening_pos > - 1 then not_a_block (py_slice opening_line 0 opening_pos) else Some False);
     if rejected then Some None
     else do {
       lambda \<leftarrow> and_then (Some (opening_linenum > 1))
         (do { before \<leftarrow> elided clean_lines (opening_linenum - 1); Searches re_bracket_before before });
       Some (if lambda then None else Some m)
     }
   }"

definition block_match :: "CleansedLines \<Rightarrow> int \<Rightarrow> string \<Rightarrow> rmatch option py" where
  "block_match clean_lines linenum line = do {
     m \<leftarrow> Match re_paren_brace line;
     (case m of
        Some m \<Rightarrow> block_after_paren clean_lines linenum m
      | None \<Rightarrow> do {
          m \<leftarrow> Match re_else_or_const line;
          (case m of
             Some m \<Rightarrow> Some (Some m)
           | None \<Rightarrow> do {
               (prevline, _) \<leftarrow> GetPreviousNonBlankLine clean_lines linenum;
               block \<leftarrow> and_then (Some (prevline \<noteq> [])) (Searches re_block_before prevline);
               if block then Match re_indented_brace line else Some None
             })
        })
   }"

definition CheckTrailingSemicolon :: "string \<Rightarrow> CleansedLines \<Rightarrow> int \<Rightarrow> event list py" where
  "CheckTrailingSemicolon filename clean_lines linenum = do {
     line \<leftarrow> elided clean_lines linenum;
     m \<leftarrow> block_match clean_lines linenum line;
     (case m of
        None \<Rightarrow> Some []
      | Some m \<Rightarrow> do {
          (endline, endlinenum, endpos) \<leftarrow> CloseExpression clean_lines linenum (length (group_text m 1));
          redundant \<leftarrow> and_then (Some (endpos > - 1)) (Matches re_semicolon_start (py_from endline endpos));
          Some (report_if redundant
            (Report filename endlinenum ''readability/braces'' 4 (''You don'' @ single_quote @ ''t need a ; after a }'')))
        })
   }"

definition CheckEmptyBlockBody :: "string \<Rightarrow> CleansedLines \<Rightarrow> int \<Rightarrow> event list py" where
  "CheckEmptyBlockBody filename clean_lines linenum = do {
     line \<leftarrow> elided clean_lines linenum;
     matched \<leftarrow> Match re_loop_or_if line;
     (case matched of
        None \<Rightarrow> Some []
      | Some m \<Rightarrow> do {
          (end_line, end_linenum, end_pos) \<leftarrow> CloseExpression clean_lines linenum (nat (py_find line ''(''));
          empty \<leftarrow> and_then (Some (end_pos \<ge> 0)) (Matches re_semicolon_only (py_from end_line end_pos));
          Some (report_if empty
            (if group_text m 1 = ''if''
             then Report filename end_linenum ''whitespace/empty_conditional_body'' 5
                    ''Empty conditional bodies should use {}''
             else Report filename end_linenum ''whitespace/empty_loop_body'' 5
                    ''Empty loop bodies should use {} or continue''))
        })
   }"

section \<open>Assertion macros\<close>

definition CHECK_MACROS :: "string list" where
  "CHECK_MACROS = [
    ''DCHECK'', ''CHECK'', ''EXPECT_TRUE_M'', ''EXPECT_TRUE'', ''ASSERT_TRUE_M'', ''ASSERT_TRUE'',
    ''EXPECT_FALSE_M'', ''EXPECT_FALSE'', ''ASSERT_FALSE_M'', ''ASSERT_FALSE'']"


definition replacements :: "(string \<times> string) list" where
  "replacements = [(''=='', ''EQ''), (''!='', ''NE''), (''>='', ''GE''), (''>'', ''GT''), (''<='', ''LE''), (''<'', ''LT'')]"

definition inv_replacements :: "(string \<times> string) list" where
  "inv_replacements = [(''=='', ''NE''), (''!='', ''EQ''), (''>='', ''LT''), (''>'', ''LE''), (''<='', ''GT''), (''<'', ''GE'')]"

definition CHECK_REPLACEMENT :: "string \<Rightarrow> (string \<rightharpoonup> string) option" where
  "CHECK_REPLACEMENT = map_of
     [(''DCHECK'', \<lambda>op. map_option (\<lambda>r. ''DCHECK_'' @ r) (map_of replacements op)),
      (''CHECK'', \<lambda>op. map_option (\<lambda>r. ''CHECK_'' @ r) (map_of replacements op)),
      (''EXPECT_TRUE'', \<lambda>op. map_option (\<lambda>r. ''EXPECT_'' @ r) (map_of replacements op)),
      (''ASSERT_TRUE'', \<lambda>op. map_option (\<lambda>r. ''ASSERT_'' @ r) (map_of replacements op)),
      (''EXPECT_TRUE_M'', \<lambda>op. map_option (\<lambda>r. ''EXPECT_'' @ r @ ''_M'') (map_of replacements op)),
      (''ASSERT_TRUE_M'', \<lambda>op. map_option (\<lambda>r. ''ASSERT_'' @ r @ ''_M'') (map_of replacements op)),
      (''EXPECT_FALSE'', \<lambda>op. map_option (\<lambda>r. ''EXPECT_'' @ r) (map_of inv_replacements op)),
      (''ASSERT_FALSE'', \<lambda>op. map_option (\<lambda>r. ''ASSERT_'' @ r) (map_of inv_replacements op)),
      (''EXPECT_FALSE_M'', \<lambda>op. map_option (\<lambda>r. ''EXPECT_'' @ r @ ''_M'') (map_of inv_replacements op)),
      (''ASSERT_FALSE_M'', \<lambda>op. map_option (\<lambda>r. ''ASSERT_'' @ r @ ''_M'') (map_of inv_replacements op))]"

definition re_check_macro :: "string \<Rightarrow> string" where
  "re_check_macro macro = raw ''^(.*`b'' @ macro @ raw ''`s*)`(''"

fun check_macro_loop :: "string \<Rightarrow> string list \<Rightarrow> (string \<times> nat) option py" where
  "check_macro_loop line [] = Some None"
| "check_macro_loop line (macro # ms) =
     (if py_find line macro \<ge> 0
      then do {
        matched \<leftarrow> Match (re_check_macro macro) line;
        (case matched of
           None \<Rightarrow> check_macro_loop line ms
         | Some m \<Rightarrow> Some (Some (macro, length (group_text m 1))))
      }
      else check_macro_loop line ms)"

definition FindCheckMacro :: "string \<Rightarrow> (string \<times> nat) option py" where
  "FindCheckMacro line = check_macro_loop line CHECK_MACROS"

definition re_check_operator :: string where
  "re_check_operator = raw ''^`s*(<<|<<=|>>|>>=|->`*|->|&&|`|`||==|!=|>=|>|<=|<|`()(.*)$''"

definition re_check_operand :: string where
  "re_check_operand = ''^([^-=!<>()&|]+)(.*)$''"

definition re_check_char :: string where
  "re_check_char = raw ''^(`s*`S)(.*)$''"

definition re_semicolon_after :: string where
  "re_semicolon_after = raw ''`s*;''"

definition match_constant :: string where
  \<open>match_constant = raw ''^([-+]?(`d+|0[xX][0-9a-fA-F]+)[lLuU]{0,3}|".*"|`'.*`')$''\<close>

lemma block_patterns_compiled [re_compiled]:
  "re_compile re_open_line \<noteq> None"
  "re_compile re_open_allowed \<noteq> None"
  "re_compile re_else_line \<noteq> None"
  "re_compile re_close_line \<noteq> None"
  "re_compile re_else_if \<noteq> None"
  "re_compile re_brace_else_if \<noteq> None"
  "re_compile re_brace_then_else \<noteq> None"
  "re_compile re_else_then_brace \<noteq> None"
  "re_compile re_else_clause \<noteq> None"
  "re_compile re_else_if_word \<noteq> None"
  "re_compile re_do_clause \<noteq> None"
  "re_compile re_if_or_else \<noteq> None"
  "re_compile re_if_open \<noteq> None"
  "re_compile re_brace_start \<noteq> None"
  "re_compile re_rest_blank \<noteq> None"
  "re_compile re_last_semicolon \<noteq> None"
  "re_compile re_lambda_line \<noteq> None"
  "re_compile re_else_start \<noteq> None"
  "re_compile re_paren_brace \<noteq> None"
  "re_compile re_macro_before \<noteq> None"
  "re_compile re_bracket_end \<noteq> None"
  "re_compile re_operator_brackets \<noteq> None"
  "re_compile re_alignas \<noteq> None"
  "re_compile re_equals_end \<noteq> None"
  "re_compile re_bracket_before \<noteq> None"
  "re_compile re_else_or_const \<noteq> None"
  "re_compile re_block_before \<noteq> None"
  "re_compile re_indented_brace \<noteq> None"
  "re_compile re_semicolon_start \<noteq> None"
  "re_compile re_loop_or_if \<noteq> None"
  "re_compile re_semicolon_only \<noteq> None"
  "re_compile re_check_operator \<noteq> None"
  "re_compile re_check_operand \<noteq> None"
  "re_compile re_check_char \<noteq> None"
  "re_compile re_semicolon_after \<noteq> None"
  "re_compile match_constant \<noteq> None"
  by code_simp+
text \<open>
  The parts of the condition: \<open>Some None\<close> when the function returns inside the loop, otherwise the
  left operand, the relational operator if one was found, and the rest.
\<close>

partial_function (option) operand_loop :: "string \<Rightarrow> string \<Rightarrow> (string \<times> string option \<times> string) option py" where
  "operand_loop lhs expression =
     (if expression = [] then Some (Some (lhs, None, []))
      else do {
        matched \<leftarrow> Match re_check_operator expression;
        (case matched of
           Some m \<Rightarrow>
             (let token = group_text m 1 in
              if token = ''(''
              then do {
                let expression = group_text m 2;
                r \<leftarrow> FindEndOfExpressionInLine expression 0 [CHR ''(''];
                (case r of
                   Found end_pos \<Rightarrow> operand_loop (lhs @ ''('' @ take end_pos expression) (drop end_pos expression)
                 | _ \<Rightarrow> Some None)
              }
              else if token \<in> {''&&'', ''||''} then Some None
              else if token \<in> {''<<'', ''<<='', ''>>'', ''>>='', ''->*'', ''->''}
              then operand_loop (lhs @ token) (group_text m 2)
              else Some (Some (lhs, Some token, group_text m 2)))
         | None \<Rightarrow> do {
             operand \<leftarrow> Match re_check_operand expression;
             matched \<leftarrow> (case operand of None \<Rightarrow> Match re_check_char expression | Some m \<Rightarrow> Some (Some m));
             (case matched of
                None \<Rightarrow> Some (Some (lhs, None, []))
              | Some m \<Rightarrow> operand_loop (lhs @ group_text m 1) (group_text m 2))
           })
      })"

declare operand_loop.simps [code]

fun join_lines :: "CleansedLines \<Rightarrow> string \<Rightarrow> int list \<Rightarrow> string py" where
  "join_lines clean_lines expression [] = Some expression"
| "join_lines clean_lines expression (i # is) = do {
     line \<leftarrow> elided clean_lines i;
     join_lines clean_lines (expression @ line) is
   }"

definition check_expression :: "CleansedLines \<Rightarrow> int \<Rightarrow> nat \<Rightarrow> string \<Rightarrow> int \<Rightarrow> int \<Rightarrow> string py" where
  "check_expression clean_lines linenum start_pos final_line end_line end_pos = do {
     line \<leftarrow> elided clean_lines linenum;
     if linenum = end_line then Some (py_slice line (int start_pos + 1) (end_pos - 1))
     else do {
       expression \<leftarrow> join_lines clean_lines (py_from line (int start_pos + 1)) [linenum + 1..end_line - 1];
       Some (expression @ py_slice final_line 0 (end_pos - 1))
     }
   }"

definition replaceable_check :: "string \<Rightarrow> int \<Rightarrow> string \<Rightarrow> string \<Rightarrow> event list py" where
  "replaceable_check filename linenum check_macro expression = do {
     parts \<leftarrow> operand_loop [] expression;
     (case parts of
        None \<Rightarrow> Some []
      | Some (lhs, operator, rhs) \<Rightarrow>
          (case operator of
             None \<Rightarrow> Some []
           | Some operator \<Rightarrow>
               if lhs = [] \<or> rhs = [] \<or> py_find rhs ''&&'' > - 1 \<or> py_find rhs ''||'' > - 1 then Some []
               else do {
                 let lhs = py_strip lhs;
                 let rhs = py_strip rhs;
                 constant \<leftarrow> or_else (Matches match_constant lhs) (Matches match_constant rhs);
                 if constant
                 then do {
                   by_operator \<leftarrow> CHECK_REPLACEMENT check_macro;
                   replacement \<leftarrow> by_operator operator;
                   Some [Report filename linenum ''readability/check'' 2
                           (''Consider using '' @ replacement @ '' instead of '' @ check_macro @ ''(a '' @ operator @ '' b)'')]
                 }
                 else Some []
               }))
   }"

definition CheckCheck :: "string \<Rightarrow> CleansedLines \<Rightarrow> int \<Rightarrow> event list py" where
  "CheckCheck filename clean_lines linenum = do {
     line \<leftarrow> elided clean_lines linenum;
     found \<leftarrow> FindCheckMacro line;
     (case found of
        None \<Rightarrow> Some []
      | Some (check_macro, start_pos) \<Rightarrow> do {
          (final_line, end_line, end_pos) \<leftarrow> CloseExpression clean_lines linenum start_pos;
          if end_pos < 0 then Some []
          else do {
            semicolon \<leftarrow> Matches re_semicolon_after (py_from final_line end_pos);
            if \<not> semicolon then Some []
            else do {
              expression \<leftarrow> check_expression clean_lines linenum start_pos final_line end_line end_pos;
              replaceable_check filename linenum check_macro expression
            }
          }
        })
   }"

section \<open>The contract\<close>

lemma listed_braces [accounting]:
  "''whitespace/newline'' \<in> set ERROR_CATEGORIES" "''readability/braces'' \<in> set ERROR_CATEGORIES"
  "''whitespace/empty_conditional_body'' \<in> set ERROR_CATEGORIES" "''whitespace/empty_loop_body'' \<in> set ERROR_CATEGORIES"
  "''readability/check'' \<in> set ERROR_CATEGORIES"
  by code_simp+

lemmas brace_ok = spacing_ok block_patterns_compiled listed_braces

lemma GetPrevious_returns: "line_in cl linenum \<Longrightarrow> \<exists>line i. GetPreviousNonBlankLine cl linenum = Some (line, i)"
  unfolding GetPreviousNonBlankLine_def
  by (subst previous_loop_finds) (auto simp: line_in_def list_all_iff split: option.splits)

lemma GetIndentLevel_ok:
  "GetIndentLevel line = Some (case re_match (the (re_compile re_indent)) line of
     Some m \<Rightarrow> length (group_text m 1) | None \<Rightarrow> 0)"
proof -
  have "re_compile re_indent \<noteq> None" by code_simp
  then show ?thesis by (simp add: GetIndentLevel_def re_total del: not_None_eq)
qed

lemma open_brace_check_on_line:
  assumes "line_in cl linenum"
  shows "accounts_for filename linenum (open_brace_check filename cl linenum line)"
    and "accounts_for filename linenum (else_line_check filename cl linenum line)"
  using GetPrevious_returns [OF assms]
  by (auto simp: open_brace_check_def else_line_check_def brace_ok re_compiled)

lemma py_find_from_less: "sub \<noteq> [] \<Longrightarrow> 0 \<le> py_find_from s sub k \<Longrightarrow> nat (py_find_from s sub k) < length s"
  by (cases sub) (auto simp: py_find_from_def nat_int_add split: option.splits if_splits dest!: find_at_Some)

lemma else_braces_check_on_line:
  assumes "line_in cl linenum"
  shows "accounts_for filename linenum (else_braces_check filename cl linenum (elided_lines cl ! nat linenum))"
proof -
  let ?l = "elided_lines cl ! nat linenum"
  let ?pos = "py_find_from ?l ''('' (nat (py_find ?l ''else if''))"
  have "\<exists>line ln e. CloseExpression cl linenum (nat ?pos) = Some (line, ln, e)" if "?pos > 0"
    using CloseExpression_on_line [OF assms py_find_from_less [of "''(''" ?l]] that by (metis less_imp_le not_Cons_self)
  then show ?thesis by (auto simp: else_braces_check_def brace_ok)
qed

lemma semicolon_loop_range:
  "endlinenum \<le> semicolon_loop lines endlinenum endpos"
  by (induction lines endlinenum endpos rule: semicolon_loop.induct) auto

lemma statement_end_check_on_line:
  assumes "file_ok cl" and "0 \<le> endlinenum"
  shows "accounts_for filename linenum (statement_end_check filename cl linenum if_indent if_match endlinenum)"
proof (cases "endlinenum < int (length (elided_lines cl))")
  case True
  then have e: "line_in cl endlinenum" using assms by (auto simp: line_in_def file_ok_def lines_ok_def)
  have n: "line_in cl (endlinenum + 1)" if "endlinenum < int (length (elided_lines cl)) - 1"
    using that e next_line_in assms(1) by (auto simp: file_ok_def lines_ok_def)
  with True e n show ?thesis by (auto simp: statement_end_check_def GetIndentLevel_ok brace_ok)
qed (simp add: statement_end_check_def accounting)

lemma re_if_open_column:
  assumes "re_search (the (re_compile re_if_open)) s = Some m"
  shows "m_end m - 1 < length s"
proof -
  obtain r where "re_compile re_if_open = Some (False, r)" "plain_look r" "consumes r"
  proof -
    have "(case re_compile re_if_open of Some (ci, r) \<Rightarrow> \<not> ci \<and> plain_look r \<and> consumes r | None \<Rightarrow> False)" by code_simp
    then show thesis using that by (auto split: option.splits)
  qed
  with re_search_consumes [of False r s m] assms show ?thesis by auto
qed

lemma CloseExpression_ends:
  assumes "line_in cl linenum" and "pos < length (elided_lines cl ! nat linenum)"
  obtains line ln e where "CloseExpression cl linenum pos = Some (line, ln, e)" and "linenum \<le> ln"
    and "e = - 1 \<and> ln = NumLines cl \<or> 0 \<le> e \<and> line_in cl ln"
proof -
  obtain line ln e where c: "CloseExpression cl linenum pos = Some (line, ln, e)"
    "e = - 1 \<or> line_in cl ln \<and> linenum \<le> ln \<and> 0 \<le> e \<and> e \<le> int (length (elided_lines cl ! nat ln))"
    using assms by (rule CloseExpression_on_line)
  then show thesis using that [OF c(1)] CloseExpression_lost [OF c(1)] assms(1) by (auto simp: line_in_def)
qed

lemma body_check_on_line:
  assumes "file_ok cl" and "0 \<le> endlinenum"
  shows "accounts_for filename linenum (body_check filename cl linenum if_indent if_match endline endlinenum endpos)"
proof -
  have "line_in cl (endlinenum + 1)" if "endlinenum < int (length (elided_lines cl)) - 1"
    using that assms by (auto simp: line_in_def file_ok_def lines_ok_def)
  moreover have "accounts_for filename linenum (statement_end_check filename cl linenum if_indent if_match
      (semicolon_loop (drop (nat endlinenum) (elided_lines cl)) endlinenum endpos))"
    using assms(1) by (rule statement_end_check_on_line) (use assms(2) semicolon_loop_range order_trans in blast)
  ultimately show ?thesis by (auto simp: body_check_def brace_ok)
qed

lemma if_body_check_on_line:
  assumes "line_in cl linenum"
  shows "accounts_for filename linenum (if_body_check filename cl linenum (elided_lines cl ! nat linenum))"
proof (cases "re_search (the (re_compile re_if_or_else)) (elided_lines cl ! nat linenum)")
  case None
  then show ?thesis by (simp add: if_body_check_def brace_ok)
next
  case found: (Some m)
  note body = body_check_on_line [OF line_in_file [OF assms]]
  show ?thesis
  proof (cases "re_search (the (re_compile re_if_open)) (elided_lines cl ! nat linenum)")
    case None
    have "0 \<le> linenum" using assms by (simp add: line_in_def)
    with found None show ?thesis by (simp add: if_body_check_def brace_ok GetIndentLevel_ok re_compiled body)
  next
    case (Some m')
    obtain line ln e where c: "CloseExpression cl linenum (m_end m' - 1) = Some (line, ln, e)" "linenum \<le> ln"
      using CloseExpression_ends [OF assms re_if_open_column [OF Some]] by blast
    then have "0 \<le> ln" using assms by (simp add: line_in_def)
    with found Some c(1) show ?thesis by (simp add: if_body_check_def brace_ok GetIndentLevel_ok re_compiled body)
  qed
qed

interpretation braces: line_check CheckBraces
proof
  fix cl linenum filename
  assume l: "line_in cl linenum"
  note checks = open_brace_check_on_line [OF l] else_braces_check_on_line [OF l] if_body_check_on_line [OF l]
  show "accounts_for filename linenum (CheckBraces filename cl linenum)"
    using l by (auto simp: CheckBraces_def brace_ok intro!: accounts_for_bind checks)
qed

section \<open>Reports at the end of a construct\<close>

definition later_report :: "CleansedLines \<Rightarrow> string \<Rightarrow> int \<Rightarrow> event \<Rightarrow> bool" where
  "later_report cl filename linenum e =
     (case e of
        Report f l category confidence message \<Rightarrow>
          proper_report filename l e \<and> linenum \<le> l \<and> l < NumLines cl
      | Suppress _ _ \<Rightarrow> False)"

definition accounts_from :: "CleansedLines \<Rightarrow> string \<Rightarrow> int \<Rightarrow> event list py \<Rightarrow> bool" where
  "accounts_from cl filename linenum m =
     (case m of None \<Rightarrow> False | Some es \<Rightarrow> list_all (later_report cl filename linenum) es)"

lemma proper_later: "line_in cl linenum \<Longrightarrow> proper_report filename linenum e \<Longrightarrow> later_report cl filename linenum e"
  by (cases e) (auto simp: later_report_def proper_report_def line_in_def)

lemma accounts_for_from: "line_in cl linenum \<Longrightarrow> accounts_for filename linenum m \<Longrightarrow> accounts_from cl filename linenum m"
  by (fastforce simp: accounts_from_def list_all_iff elim!: accounts_forE intro: proper_later)

lemma accounts_from_Some [accounting]:
  "accounts_from cl filename linenum (Some es) \<longleftrightarrow> list_all (later_report cl filename linenum) es"
  by (simp add: accounts_from_def)

lemma report_if_later [accounting]:
  "list_all (later_report cl filename linenum) (report_if b e) \<longleftrightarrow> (b \<longrightarrow> later_report cl filename linenum e)"
  by (simp add: report_if_def)

lemma later_Report [accounting]:
  "later_report cl filename linenum (Report filename l category confidence message) \<longleftrightarrow>
     category \<in> set ERROR_CATEGORIES \<and> 0 \<le> confidence \<and> confidence \<le> 5 \<and> linenum \<le> l \<and> l < NumLines cl"
  by (auto simp: later_report_def proper_report_def)

lemma accounts_fromE:
  assumes "accounts_from cl filename linenum m"
  obtains es where "m = Some es" and "list_all (later_report cl filename linenum) es"
  using assms by (auto simp: accounts_from_def split: option.splits)

lemma accounts_from_bind:
  assumes "accounts_from cl filename linenum m"
    and "\<And>es. list_all (later_report cl filename linenum) es \<Longrightarrow> accounts_from cl filename linenum (k es)"
  shows "accounts_from cl filename linenum (do { es \<leftarrow> m; k es })"
  using assms by (auto elim!: accounts_fromE)

text \<open>
  The contract of a check whose reports may lie further down. A check that reports its own line meets
  it as well.
\<close>

locale construct_check =
  fixes check :: "string \<Rightarrow> CleansedLines \<Rightarrow> int \<Rightarrow> event list py"
  assumes from_line: "line_in cl linenum \<Longrightarrow> accounts_from cl filename linenum (check filename cl linenum)"

sublocale line_check \<subseteq> construct_check check
  by unfold_locales (rule accounts_for_from [OF _ on_line])

section \<open>Semicolons\<close>

lemma brace_columns: "has_column re_paren_brace" "has_column re_else_or_const" "has_column re_indented_brace"
  by code_simp+

lemma not_a_block_returns: "\<exists>b. not_a_block line_prefix = Some b"
  by (auto simp: not_a_block_def brace_ok split: option.splits)

lemma py_rfind_less: "py_rfind s [c] < int (length s)"
  by (auto simp: py_rfind_def split: option.splits)

lemma block_after_paren_returns:
  assumes "line_in cl linenum" and "re_match (the (re_compile re_paren_brace)) (elided_lines cl ! nat linenum) = Some m"
  shows "\<exists>r. block_after_paren cl linenum m = Some r \<and> (r = None \<or> r = Some m)"
proof -
  let ?pos = "nat (py_rfind (group_text m 1) '')'')"
  have "?pos < length (elided_lines cl ! nat linenum)"
    using column_in_line [OF brace_columns(1) assms(2)] py_rfind_less [of "group_text m 1" "CHR '')''"] by linarith
  with assms(1) obtain line ln e where r: "ReverseCloseExpression cl linenum ?pos = Some (line, ln, e)"
    "e = - 1 \<or> line_in cl ln \<and> 0 \<le> e \<and> e \<le> int (length (elided_lines cl ! nat ln))"
    by (rule ReverseCloseExpression_on_line)
  then have "line_in cl (ln - 1)" if "ln > 1"
    using that ReverseCloseExpression_lost [OF r(1)] by (auto simp: line_in_def)
  moreover obtain b where "not_a_block (py_slice line 0 e) = Some b" using not_a_block_returns by blast
  ultimately show ?thesis using r(1) by (auto simp: block_after_paren_def brace_ok)
qed

lemma block_match_returns:
  assumes "line_in cl linenum"
  shows "\<exists>r. block_match cl linenum (elided_lines cl ! nat linenum) = Some r \<and>
    (\<forall>m. r = Some m \<longrightarrow> length (group_text m 1) < length (elided_lines cl ! nat linenum))"
proof (cases "re_match (the (re_compile re_paren_brace)) (elided_lines cl ! nat linenum)")
  case (Some m)
  then show ?thesis
    using block_after_paren_returns [OF assms Some] column_in_line [OF brace_columns(1) Some]
    by (auto simp: block_match_def brace_ok)
next
  case None
  then show ?thesis
    using GetPrevious_returns [OF assms] column_in_line [OF brace_columns(2)] column_in_line [OF brace_columns(3)]
    by (auto simp: block_match_def brace_ok split: option.splits)
qed

interpretation trailing_semicolon: construct_check CheckTrailingSemicolon
proof
  fix cl linenum filename
  assume l: "line_in cl linenum"
  obtain r where r: "block_match cl linenum (elided_lines cl ! nat linenum) = Some r"
    "\<forall>m. r = Some m \<longrightarrow> length (group_text m 1) < length (elided_lines cl ! nat linenum)"
    using block_match_returns [OF l] by blast
  show "accounts_from cl filename linenum (CheckTrailingSemicolon filename cl linenum)"
  proof (cases r)
    case None
    with l r(1) show ?thesis by (simp add: CheckTrailingSemicolon_def brace_ok accounts_from_Some)
  next
    case (Some m)
    then obtain line ln e where "CloseExpression cl linenum (length (group_text m 1)) = Some (line, ln, e)"
      "linenum \<le> ln" "e = - 1 \<and> ln = NumLines cl \<or> 0 \<le> e \<and> line_in cl ln"
      using CloseExpression_ends [OF l] r(2) by blast
    with l r(1) Some show ?thesis
      by (auto simp: CheckTrailingSemicolon_def brace_ok accounting line_in_def [of cl ln])
  qed
qed

lemma pattern_consumes: "consumes (snd (the (re_compile re_loop_or_if)))" "plain_look (snd (the (re_compile re_loop_or_if)))"
  by code_simp+

interpretation empty_body: construct_check CheckEmptyBlockBody
proof
  fix cl linenum filename
  assume l: "line_in cl linenum"
  let ?l = "elided_lines cl ! nat linenum"
  show "accounts_from cl filename linenum (CheckEmptyBlockBody filename cl linenum)"
  proof (cases "re_match (the (re_compile re_loop_or_if)) ?l")
    case None
    with l show ?thesis by (simp add: CheckEmptyBlockBody_def brace_ok accounts_from_Some)
  next
    case (Some m)
    then have "0 < length ?l" using re_match_consumes pattern_consumes by (metis prod.collapse length_greater_0_conv)
    moreover have "py_find ?l ''('' < int (length ?l) \<or> py_find ?l ''('' = - 1"
      by (auto simp: py_find_def split: option.splits dest!: find_at_Some)
    ultimately have "nat (py_find ?l ''('') < length ?l" by linarith
    then obtain line ln e where "CloseExpression cl linenum (nat (py_find ?l ''('')) = Some (line, ln, e)"
      "linenum \<le> ln" "e = - 1 \<and> ln = NumLines cl \<or> 0 \<le> e \<and> line_in cl ln"
      using CloseExpression_ends [OF l] by blast
    with l Some show ?thesis
      by (auto simp: CheckEmptyBlockBody_def brace_ok accounting line_in_def [of cl ln])
  qed
qed

section \<open>Assertion macros\<close>

lemma check_macro_columns:
  "list_all (\<lambda>macro. has_column (re_check_macro macro) \<and> CHECK_REPLACEMENT macro \<noteq> None) CHECK_MACROS"
  by code_simp

lemma check_macro_loop_returns:
  assumes "list_all (\<lambda>macro. has_column (re_check_macro macro)) ms"
  shows "\<exists>r. check_macro_loop line ms = Some r \<and>
    (\<forall>macro pos. r = Some (macro, pos) \<longrightarrow> macro \<in> set ms \<and> pos < length line)"
  using assms
proof (induction ms)
  case (Cons macro ms)
  have "re_compile (re_check_macro macro) \<noteq> None" using Cons.prems by (auto simp: has_column_def split: option.splits)
  with Cons column_in_line [of "re_check_macro macro" line] show ?case
    by (cases "re_match (the (re_compile (re_check_macro macro))) line") (auto simp: re_total)
qed simp

text \<open>The operand loop ends: every round but the last leaves a shorter text.\<close>

lemma operand_rests: "has_rest 2 re_check_operator" "has_rest 2 re_check_operand" "has_rest 2 re_check_char"
  by code_simp+

definition check_tokens :: "string list" where
  "check_tokens = [''<<'', ''<<='', ''>>'', ''>>='', ''->*'', ''->'', ''&&'', ''||'', ''=='', ''!='', ''>='', ''>'', ''<='', ''<'', ''('']"

lemma re_check_operator_shape:
  "re_compile re_check_operator = Some (False, RSeq RBegin (RSeq (RRepeat 0 None True (RSet False [ItemCat CatSpace]))
     (RSeq (RGroup 1 (mk_alt (map word_re check_tokens))) (RSeq (RGroup 2 (RRepeat 0 None True RAny)) REnd))))"
  by code_simp

lemma check_operator_token:
  assumes "re_match (the (re_compile re_check_operator)) s = Some m"
  shows "group_text m 1 \<in> set check_tokens"
proof -
  let ?alts = "mk_alt (map word_re check_tokens)"
  have ne: "map word_re check_tokens \<noteq> []" by (simp add: check_tokens_def)
  have alts: "plain_look ?alts" "no_groups ?alts" using plain_mk_alt [of "map word_re check_tokens"] plain_word by auto
  obtain e where "denotes False s (snd (the (re_compile re_check_operator))) (start_cursor s, []) (e, m_groups m)"
    and str: "m_string m = s"
    using assms unfolding re_check_operator_shape option.sel by (rule re_match_denotes) (simp_all add: alts)
  then obtain u c d h where u: "goes (start_cursor s) u c" and d: "denotes False s ?alts (c, []) (d, h)"
    and g: "map_of (m_groups m) 1 = Some (pos_of c, pos_of d)"
    unfolding re_check_operator_shape option.sel snd_conv
    by (auto simp: denotes_seq denotes_group denotes_begin denotes_end denotes_star [OF char_class.simps(3)]
        denotes_star [OF char_class.simps(2)] start_cursor_def)
  obtain w where w: "w \<in> set check_tokens" "denotes False s (word_re w) (c, []) (d, h)"
    using d unfolding denotes_mk_alt [OF ne] set_map by blast
  have "w \<noteq> []" using w(1) by (auto simp: check_tokens_def)
  then have "goes c w d" using w(2) denotes_word by blast
  then have "group_text m 1 = w" using goes_text [OF u] g str by (simp add: group_text_def group_def)
  with w(1) show ?thesis by simp
qed

lemma operand_loop_returns:
  "\<exists>r. operand_loop lhs expression = Some r \<and>
     (\<forall>l op rest. r = Some (l, Some op, rest) \<longrightarrow> op \<in> set [''=='', ''!='', ''>='', ''>'', ''<='', ''<''])"
proof (induction "length expression" arbitrary: lhs expression rule: less_induct)
  case less
  let ?ok = "\<lambda>r. \<forall>l op rest. r = Some (l, Some op, rest) \<longrightarrow> op \<in> set [''=='', ''!='', ''>='', ''>'', ''<='', ''<'']"
  note step = less [of _]
  show ?case
  proof (cases "re_match (the (re_compile re_check_operator)) expression")
    case (Some m)
    note m = check_operator_token [OF Some] and short = rest_shorter [OF operand_rests(1) Some]
    obtain r where r: "FindEndOfExpressionInLine (group_text m 2) 0 ''('' = Some r" using FindEnd_returns by blast
    have rest: "\<exists>r. operand_loop l (drop k (group_text m 2)) = Some r \<and> ?ok r" for l k
      using short by (intro step) (auto intro: le_less_trans [OF diff_le_self])
    show ?thesis
      using m Some r rest [of _ 0] rest
      by (subst operand_loop.simps) (cases r; auto simp: brace_ok check_tokens_def)
  next
    case None
    have "\<exists>r. operand_loop l (group_text m 2) = Some r \<and> ?ok r"
      if "re_match (the (re_compile re_check_operand)) expression = Some m \<or>
          re_match (the (re_compile re_check_char)) expression = Some m" for l m
      using that rest_shorter [OF operand_rests(2), of expression m] rest_shorter [OF operand_rests(3), of expression m]
      by (intro step) auto
    with None show ?thesis
      by (subst operand_loop.simps) (auto simp: brace_ok split: option.splits)
  qed
qed

lemma join_lines_returns: "list_all (line_in cl) is \<Longrightarrow> \<exists>t. join_lines cl t0 is = Some t"
  by (induction "is" arbitrary: t0) (auto simp: elided_ok)

lemma check_expression_returns:
  assumes "line_in cl linenum" and "line_in cl end_line"
  shows "\<exists>t. check_expression cl linenum start_pos final end_line end_pos = Some t"
proof -
  have "list_all (line_in cl) [linenum + 1..end_line - 1]"
    using assms by (auto simp: line_in_def list_all_iff)
  then obtain t where "join_lines cl (py_from (elided_lines cl ! nat linenum) (int start_pos + 1)) [linenum + 1..end_line - 1] = Some t"
    using join_lines_returns by blast
  with assms(1) show ?thesis by (simp add: check_expression_def elided_ok)
qed

lemma operators_replaced:
  "list_all (\<lambda>macro. list_all (\<lambda>op. the (CHECK_REPLACEMENT macro) op \<noteq> None) [''=='', ''!='', ''>='', ''>'', ''<='', ''<'']) CHECK_MACROS"
  by code_simp

lemma replaceable_check_on_line:
  assumes "macro \<in> set CHECK_MACROS"
  shows "accounts_for filename linenum (replaceable_check filename linenum macro expression)"
proof -
  obtain r where r: "operand_loop [] expression = Some r"
    "\<forall>l op rest. r = Some (l, Some op, rest) \<longrightarrow> op \<in> set [''=='', ''!='', ''>='', ''>'', ''<='', ''<'']"
    using operand_loop_returns by blast
  obtain f where f: "CHECK_REPLACEMENT macro = Some f" using assms check_macro_columns by (auto simp: list_all_iff)
  have "f op \<noteq> None" if "op \<in> set [''=='', ''!='', ''>='', ''>'', ''<='', ''<'']" for op
    using operators_replaced assms that f by (fastforce simp: list_all_iff)
  then have "\<exists>x. f op = Some x" if "r = Some (l, Some op, rest)" for l op rest using r(2) that by blast
  with r(1) f show ?thesis
    by (auto simp: replaceable_check_def brace_ok split: option.splits)
qed

interpretation check_macros: line_check CheckCheck
proof
  fix cl linenum filename
  assume l: "line_in cl linenum"
  let ?l = "elided_lines cl ! nat linenum"
  have "list_all (\<lambda>macro. has_column (re_check_macro macro)) CHECK_MACROS"
    using check_macro_columns by (simp add: list_all_iff)
  then obtain r where r: "FindCheckMacro ?l = Some r"
    "\<forall>macro pos. r = Some (macro, pos) \<longrightarrow> macro \<in> set CHECK_MACROS \<and> pos < length ?l"
    using check_macro_loop_returns unfolding FindCheckMacro_def by blast
  show "accounts_for filename linenum (CheckCheck filename cl linenum)"
  proof (cases r)
    case None
    with l r show ?thesis by (simp add: CheckCheck_def brace_ok)
  next
    case (Some x)
    then obtain macro pos where x: "r = Some (macro, pos)" "macro \<in> set CHECK_MACROS" "pos < length ?l"
      using r(2) by (cases x) auto
    obtain line ln e where c: "CloseExpression cl linenum pos = Some (line, ln, e)"
      "e = - 1 \<and> ln = NumLines cl \<or> 0 \<le> e \<and> line_in cl ln" using CloseExpression_ends [OF l x(3)] by blast
    have "\<exists>t. check_expression cl linenum pos line ln e = Some t" if "\<not> e < 0"
      using that c(2) check_expression_returns [OF l] by auto
    with l r(1) x c(1) replaceable_check_on_line [OF x(2)] show ?thesis
      by (auto simp: CheckCheck_def brace_ok)
  qed
qed

text \<open>
  What the suggested macro asserts. The comparison a macro of the table stands for is read off its
  ending; a macro that expects a false condition asserts the opposite of the comparison it is given.
\<close>

definition comparison :: "string \<Rightarrow> (int \<Rightarrow> int \<Rightarrow> bool) option" where
  "comparison op = map_of [(''=='', (=)), (''!='', (\<noteq>)), (''>='', (\<lambda>a b. b \<le> a)), (''>'', (\<lambda>a b. b < a)), (''<='', (\<le>)), (''<'', (<))] op"

definition expects_false :: "string \<Rightarrow> bool" where
  "expects_false macro = contains macro ''FALSE''"

definition macro_comparison :: "string \<Rightarrow> string" where
  "macro_comparison macro = (let w = (if endswith macro ''_M'' then take (length macro - 2) macro else macro)
     in drop (length w - 2) w)"

definition asserted :: "string \<Rightarrow> (int \<Rightarrow> int \<Rightarrow> bool) option" where
  "asserted macro = Option.bind (map_of (map (\<lambda>(op, r). (r, op)) replacements) (macro_comparison macro)) comparison"

definition opposite :: "string \<Rightarrow> string" where
  "opposite op = the (map_of [(''=='', ''!=''), (''!='', ''==''), (''>='', ''<''), (''>'', ''<=''), (''<='', ''>''), (''<'', ''>='')] op)"

lemma comparison_ops: "comparison op = Some f \<Longrightarrow> op \<in> set [''=='', ''!='', ''>='', ''>'', ''<='', ''<'']"
  unfolding comparison_def by (drule map_of_SomeD) auto

lemma comparison_opposite: "comparison op = Some f \<Longrightarrow> \<exists>g. comparison (opposite op) = Some g \<and> (\<forall>a b. g a b = (\<not> f a b))"
proof -
  assume f: "comparison op = Some f"
  have t: "opposite ''=='' = ''!=''" "opposite ''!='' = ''==''" "opposite ''>='' = ''<''" "opposite ''>'' = ''<=''"
    "opposite ''<='' = ''>''" "opposite ''<'' = ''>=''" by code_simp+
  have c: "comparison ''=='' = Some (=)" "comparison ''!='' = Some (\<noteq>)" "comparison ''>='' = Some (\<lambda>a b. b \<le> a)"
    "comparison ''>'' = Some (\<lambda>a b. b < a)" "comparison ''<='' = Some (\<le>)" "comparison ''<'' = Some (<)"
    by (simp_all add: comparison_def)
  consider "op = ''==''" | "op = ''!=''" | "op = ''>=''" | "op = ''>''" | "op = ''<=''" | "op = ''<''"
    using comparison_ops [OF f] unfolding list.set by blast
  then show ?thesis using f by cases (auto simp only: c t option.inject not_le not_less simp_thms)
qed

lemma some_case: "(case x of None \<Rightarrow> False | Some y \<Rightarrow> P y) \<Longrightarrow> \<exists>y. x = Some y \<and> P y"
  by (cases x) simp_all



end
