(* ===== verification/RValueChecks.thy ===== *)
theory RValueChecks
  imports BraceChecks
begin

text \<open>
  The check of rvalue references, \<^verbatim>\<open>CheckRValueReference\<close> of \<^verbatim>\<open>script/cpplint.py\<close>, with what it
  calls: \<^verbatim>\<open>IsDecltype\<close>, \<^verbatim>\<open>IsTemplateParameterList\<close>, \<^verbatim>\<open>IsRValueType\<close>, \<^verbatim>\<open>IsDeletedOrDefault\<close>,
  \<^verbatim>\<open>IsRValueAllowed\<close> and \<^verbatim>\<open>GetTemplateArgs\<close>. A set of type names is the list of its elements.

  \<^verbatim>\<open>IsRValueType\<close> calls itself for the type before a function name. It takes the column from the line
  the parenthesis was found on and the text from the line it started on, so the recursion need not end:
  the function is a \<open>partial_function\<close>, and that it does not return on an ordinary declaration over two
  lines is a theorem. All the other loops are shown to end.
\<close>

section \<open>Types\<close>

definition re_decltype :: string where
  "re_decltype = raw ''`bdecltype`s*$''"

definition re_template_word :: string where
  "re_template_word = raw ''`btemplate`s*$''"

definition re_word_before :: string where
  "re_word_before = raw ''^(.*)(`b`w+|[>*)&])`s*$''"

definition re_rvalue_template :: string where
  "re_rvalue_template = raw ''&&`s*(?:[>,]|`.`.`.)''"

definition re_cast_before :: string where
  "re_cast_before = raw ''`b(?:const_cast`s*<|static_cast`s*<|dynamic_cast`s*<|reinterpret_cast`s*<|`w+`s)`s*$''"

definition re_symbol :: string where
  "re_symbol = raw ''^(.*)([^`w`s,])[`w`s,]*$''"

definition re_for_init :: string where
  "re_for_init = raw ''for`s*`([^{};]*$''"

definition re_type_context :: string where
  "re_type_context = raw ''(?:`]|`bfor|`bsizeof|`boperator`s*`S+`s*)`s*$''"

definition re_expression_context :: string where
  "re_expression_context = raw ''(?:`bif|`bwhile|[-+=%^(<!?:,&*]`s*)$''"

definition re_function_type :: string where
  "re_function_type = raw ''^(.*`S.*)`s+`w(?:`w|::)*(?:<[^<>]*>)?`s*$''"

definition re_explicit_end :: string where
  "re_explicit_end = raw ''`b(?:explicit|inline)$''"

definition re_implicit_constructor :: string where
  "re_implicit_constructor = raw ''`s*(`w+)`((?:const`s+)?(`w+)''"

definition IsDecltype :: "CleansedLines \<Rightarrow> int \<Rightarrow> nat \<Rightarrow> bool py" where
  "IsDecltype clean_lines linenum column = do {
     (line, _, start_col) \<leftarrow> ReverseCloseExpression clean_lines linenum column;
     if start_col < 0 then Some False else Searches re_decltype (py_slice line 0 start_col)
   }"

definition IsTemplateParameterList :: "CleansedLines \<Rightarrow> int \<Rightarrow> nat \<Rightarrow> bool py" where
  "IsTemplateParameterList clean_lines linenum column = do {
     (_, startline, startpos) \<leftarrow> ReverseCloseExpression clean_lines linenum column;
     and_then (Some (startpos > - 1))
       (do { line \<leftarrow> elided clean_lines startline; Searches re_template_word (py_slice line 0 startpos) })
   }"

definition known_types :: "string list" where
  "known_types = [''char'', ''char16_t'', ''char32_t'', ''wchar_t'', ''bool'', ''short'', ''int'', ''long'',
     ''signed'', ''unsigned'', ''float'', ''double'', ''void'', ''auto'', ''>'', ''*'', ''&'']"

text \<open>The last symbol on the line or above: the line it is on and the match, or none in the file.\<close>

fun symbol_loop :: "CleansedLines \<Rightarrow> string \<Rightarrow> int \<Rightarrow> int list \<Rightarrow> (int \<times> rmatch) option py" where
  "symbol_loop clean_lines line start is = do {
     m \<leftarrow> Match re_symbol line;
     (case m of
        Some m \<Rightarrow> Some (Some (start, m))
      | None \<Rightarrow>
          (case is of
             [] \<Rightarrow> Some None
           | i # is \<Rightarrow> do {
               line \<leftarrow> elided clean_lines i;
               symbol_loop clean_lines line i is
             }))
   }"

fun before_loop :: "CleansedLines \<Rightarrow> string \<Rightarrow> int list \<Rightarrow> string py" where
  "before_loop clean_lines before_text [] = Some before_text"
| "before_loop clean_lines before_text (i # is) = do {
     line \<leftarrow> elided clean_lines i;
     before_loop clean_lines (line @ before_text) is
   }"

text \<open>A semicolon (true) or the closing brace (false) that comes first, or the depth reached.\<close>

fun brace_scan :: "string \<Rightarrow> int \<Rightarrow> bool + int" where
  "brace_scan [] depth = Inr depth"
| "brace_scan (ch # line) depth =
     (if ch = CHR '';'' then Inl True
      else if ch = CHR ''{'' then brace_scan line (depth + 1)
      else if ch = CHR ''}'' then (if depth - 1 = 0 then Inl False else brace_scan line (depth - 1))
      else brace_scan line depth)"

fun brace_scan_lines :: "string list \<Rightarrow> int \<Rightarrow> bool" where
  "brace_scan_lines [] depth = False"
| "brace_scan_lines (line # lines) depth =
     (case brace_scan line depth of Inl b \<Rightarrow> b | Inr depth \<Rightarrow> brace_scan_lines lines depth)"

datatype verdict = Decided bool | Recur nat

definition parenthesis_verdict :: "block option \<Rightarrow> string \<Rightarrow> string \<Rightarrow> verdict py" where
  "parenthesis_verdict previous_top line_prefix before_text = do {
     is_type \<leftarrow> Searches re_type_context before_text;
     if is_type then Some (Decided True)
     else do {
       is_expression \<leftarrow> Searches re_expression_context before_text;
       if is_expression then Some (Decided False)
       else do {
         match_func \<leftarrow> Match re_function_type before_text;
         (case match_func of
            Some m \<Rightarrow> do {
              constructor \<leftarrow> Searches re_explicit_end (group_text m 1);
              if constructor then Some (Decided True)
              else do {
                implicit_constructor \<leftarrow> Match re_implicit_constructor line_prefix;
                Some (case implicit_constructor of
                        Some c \<Rightarrow> if group_text c 1 = group_text c 2 then Decided True
                                   else Recur (length (group_text m 1))
                      | None \<Rightarrow> Recur (length (group_text m 1)))
              }
            }
          | None \<Rightarrow> Some (Decided (\<not> (case previous_top of None \<Rightarrow> False | Some b \<Rightarrow> IsBlockInfo b))))
       }
     }
   }"

definition symbol_verdict :: "CleansedLines \<Rightarrow> block option \<Rightarrow> string \<Rightarrow> int \<Rightarrow> rmatch \<Rightarrow> verdict py" where
  "symbol_verdict clean_lines previous_top line_prefix start m =
     (let symbol = group_text m 2 in
      if symbol = ''}'' then Some (Decided True)
      else if symbol = '';''
      then do {
        before_text \<leftarrow> before_loop clean_lines (group_text m 1) (rev [max (start - 6) 0 + 1..start - 1]);
        condition \<leftarrow> Searches re_for_init before_text;
        Some (Decided (\<not> condition))
      }
      else if symbol = ''{''
      then do {
        line \<leftarrow> elided clean_lines start;
        Some (Decided (brace_scan_lines
          (take (length (group_text m 1) + 1) line #
           drop (nat (start + 1)) (take (nat (NumLines clean_lines)) (elided_lines clean_lines))) 1))
      }
      else if symbol = ''('' then parenthesis_verdict previous_top line_prefix (group_text m 1)
      else if symbol = ''>''
      then map_option Decided (IsTemplateParameterList clean_lines start (length (group_text m 1)))
      else Some (Decided False))"

definition rvalue_step :: "string list \<Rightarrow> CleansedLines \<Rightarrow> block option \<Rightarrow> int \<Rightarrow> nat \<Rightarrow> verdict py" where
  "rvalue_step typenames clean_lines previous_top linenum column = do {
     line \<leftarrow> elided clean_lines linenum;
     let line_prefix = take column line;
     m \<leftarrow> Match re_word_before line_prefix;
     (case m of
        None \<Rightarrow> Some (Decided False)
      | Some m \<Rightarrow> do {
          in_template \<leftarrow> Matches re_rvalue_template (drop column line);
          if in_template \<or> group_text m 2 \<in> set typenames \<or> group_text m 2 \<in> set known_types
          then Some (Decided True)
          else if group_text m 2 = '')''
          then map_option Decided
            (IsDecltype clean_lines linenum (length (group_text m 1) + length (group_text m 2) - 1))
          else do {
            cast \<leftarrow> Searches re_cast_before (group_text m 1);
            if cast then Some (Decided True)
            else do {
              found \<leftarrow> symbol_loop clean_lines (group_text m 1) linenum (rev [0..linenum - 1]);
              (case found of
                 None \<Rightarrow> Some (Decided True)
               | Some (start, match_symbol) \<Rightarrow> symbol_verdict clean_lines previous_top line_prefix start match_symbol)
            }
          }
        })
   }"

partial_function (option) IsRValueType :: "string list \<Rightarrow> CleansedLines \<Rightarrow> block option \<Rightarrow> int \<Rightarrow> nat \<Rightarrow> bool py" where
  "IsRValueType typenames clean_lines previous_top linenum column = do {
     verdict \<leftarrow> rvalue_step typenames clean_lines previous_top linenum column;
     (case verdict of
        Decided b \<Rightarrow> Some b
      | Recur column \<Rightarrow> IsRValueType typenames clean_lines previous_top linenum column)
   }"

declare IsRValueType.simps [code]

section \<open>Where rvalue references are allowed\<close>

definition re_deleted :: string where
  "re_deleted = raw ''`s*=`s*(?:delete|default)`b''"

definition re_allow_rvalue :: string where
  "re_allow_rvalue = ''GOOGLE_ALLOW_RVALUE_REFERENCES_(?:PUSH|POP)''"

definition re_operator_equals :: string where
  "re_operator_equals = raw ''`boperator`s*=`s*`(''"

definition re_qualified_constructor :: string where
  "re_qualified_constructor = raw ''`s*(?:[`w<>]+::)*([`w<>]+)`s*::`s*([`w<>]+)`s*`(''"

definition re_explicit_constructor :: string where
  "re_explicit_constructor = raw ''`b(?:explicit|inline)`s+[`w<>]+`s*`(''"

definition re_plain_constructor :: string where
  "re_plain_constructor = raw ''`s*[`w<>]+`s*`(''"

definition re_previous_end :: string where
  "re_previous_end = raw ''[{}:;]`s*$''"

definition re_rvalue_name :: string where
  "re_rvalue_name = raw ''^.*?(`w+)`s*&&(.*)$''"

definition IsDeletedOrDefault :: "CleansedLines \<Rightarrow> int \<Rightarrow> bool py" where
  "IsDeletedOrDefault clean_lines linenum = do {
     line \<leftarrow> elided clean_lines linenum;
     let open_paren = py_find line ''('';
     if open_paren < 0 then Some False
     else do {
       (close_line, _, close_paren) \<leftarrow> CloseExpression clean_lines linenum (nat open_paren);
       if close_paren < 0 then Some False else Matches re_deleted (py_from close_line close_paren)
     }
   }"

fun pop_loop :: "CleansedLines \<Rightarrow> int list \<Rightarrow> bool option py" where
  "pop_loop clean_lines [] = Some None"
| "pop_loop clean_lines (j # js) = do {
     line \<leftarrow> elided clean_lines j;
     marked \<leftarrow> Matches re_allow_rvalue line;
     if marked then Some (Some (endswith line ''POP'')) else pop_loop clean_lines js
   }"

fun push_loop :: "CleansedLines \<Rightarrow> int \<Rightarrow> int list \<Rightarrow> bool option py" where
  "push_loop clean_lines linenum [] = Some None"
| "push_loop clean_lines linenum (i # is) = do {
     line \<leftarrow> elided clean_lines i;
     marked \<leftarrow> Matches re_allow_rvalue line;
     if \<not> marked then push_loop clean_lines linenum is
     else if \<not> endswith line ''PUSH'' then Some (Some False)
     else do {
       popped \<leftarrow> pop_loop clean_lines [linenum..NumLines clean_lines - 1];
       (case popped of Some b \<Rightarrow> Some (Some b) | None \<Rightarrow> push_loop clean_lines linenum is)
     }
   }"

partial_function (option) rvalue_names_loop :: "string list \<Rightarrow> string \<Rightarrow> bool py" where
  "rvalue_names_loop typenames line =
     (if line = [] then Some True
      else do {
        m \<leftarrow> Match re_rvalue_name line;
        (case m of
           None \<Rightarrow> Some (py_find line ''&&'' < 0)
         | Some m \<Rightarrow> if group_text m 1 \<notin> set typenames then Some False
                     else rvalue_names_loop typenames (group_text m 2))
      })"

declare rvalue_names_loop.simps [code]

text \<open>Whether the line declares a constructor or an assignment that may be deleted or defaulted.\<close>

definition declares_special :: "CleansedLines \<Rightarrow> int \<Rightarrow> string \<Rightarrow> bool py" where
  "declares_special clean_lines linenum line = do {
     m \<leftarrow> Match re_qualified_constructor line;
     or_else (Some (case m of None \<Rightarrow> False | Some m \<Rightarrow> group_text m 1 = group_text m 2))
       (or_else (Searches re_explicit_constructor line)
         (and_then (Matches re_plain_constructor line)
           (do {
              previous_line \<leftarrow> (if linenum > 0 then elided clean_lines (linenum - 1) else Some ''ReturnType'');
              or_else (Matches re_blank_line previous_line) (Searches re_previous_end previous_line)
            })))
   }"

definition IsRValueAllowed :: "CleansedLines \<Rightarrow> int \<Rightarrow> string list \<Rightarrow> bool py" where
  "IsRValueAllowed clean_lines linenum typenames = do {
     region \<leftarrow> push_loop clean_lines linenum (rev [1..linenum]);
     (case region of
        Some b \<Rightarrow> Some b
      | None \<Rightarrow> do {
          line \<leftarrow> elided clean_lines linenum;
          assignment \<leftarrow> Searches re_operator_equals line;
          if assignment then IsDeletedOrDefault clean_lines linenum
          else do {
            special \<leftarrow> declares_special clean_lines linenum line;
            if special then IsDeletedOrDefault clean_lines linenum
            else rvalue_names_loop typenames line
          }
        })
   }"

section \<open>Template arguments\<close>

definition re_template_open :: string where
  "re_template_open = raw ''^(`s*template`s*)<''"

definition re_template_close :: string where
  "re_template_close = raw ''^(.*)>`s*$''"

definition re_typename :: string where
  "re_typename = raw ''^[,`s]*(?:typename|class)(?:`.`.`.)?`s+(`w+)(.*)$''"

text \<open>The start of the function, unless a blank line or the top of the file comes first.\<close>

fun func_line_loop :: "CleansedLines \<Rightarrow> int list \<Rightarrow> int option py" where
  "func_line_loop clean_lines [] = Some None"
| "func_line_loop clean_lines (func_line # is) = do {
     line \<leftarrow> elided clean_lines func_line;
     blank \<leftarrow> Matches re_blank_line line;
     if blank then Some None
     else if py_find line ''('' \<ge> 0 then Some (Some func_line)
     else func_line_loop clean_lines is
   }"

fun argument_lines :: "CleansedLines \<Rightarrow> int \<Rightarrow> string \<Rightarrow> int list \<Rightarrow> (int \<times> string) py" where
  "argument_lines clean_lines start_col argument_list [] = Some (start_col, argument_list)"
| "argument_lines clean_lines start_col argument_list (start_line # is) = do {
     line \<leftarrow> elided clean_lines start_line;
     argument_lines clean_lines 0 (argument_list @ py_from line start_col) is
   }"

definition template_arguments :: "CleansedLines \<Rightarrow> int \<Rightarrow> string py" where
  "template_arguments clean_lines func_line = do {
     line \<leftarrow> elided clean_lines func_line;
     m \<leftarrow> Match re_template_open line;
     (case m of
        Some m \<Rightarrow> do {
          let start_col = length (group_text m 1);
          (_, end_line, end_col) \<leftarrow> CloseExpression clean_lines func_line start_col;
          Some (if end_col > - 1 \<and> end_line = func_line then py_slice line (int start_col + 1) end_col else [])
        }
      | None \<Rightarrow>
          if func_line > 1
          then do {
            before \<leftarrow> elided clean_lines (func_line - 1);
            m \<leftarrow> Match re_template_close before;
            (case m of
               None \<Rightarrow> Some []
             | Some m \<Rightarrow> do {
                 let end_col = length (group_text m 1);
                 (_, start_line, start_col) \<leftarrow> ReverseCloseExpression clean_lines (func_line - 1) end_col;
                 if start_col > - 1
                 then do {
                   (start_col, argument_list) \<leftarrow>
                     argument_lines clean_lines (start_col + 1) [] [start_line..func_line - 2];
                   Some (argument_list @ py_slice before start_col (int end_col))
                 }
                 else Some []
               })
          }
          else Some [])
   }"

partial_function (option) typename_loop :: "string list \<Rightarrow> string \<Rightarrow> string list py" where
  "typename_loop typenames argument_list = do {
     m \<leftarrow> Match re_typename argument_list;
     (case m of
        None \<Rightarrow> Some typenames
      | Some m \<Rightarrow> typename_loop (List.insert (group_text m 1) typenames) (group_text m 2))
   }"

declare typename_loop.simps [code]

definition GetTemplateArgs :: "CleansedLines \<Rightarrow> int \<Rightarrow> string list py" where
  "GetTemplateArgs clean_lines linenum = do {
     start \<leftarrow> func_line_loop clean_lines (rev [1..linenum]);
     (case start of
        None \<Rightarrow> Some []
      | Some func_line \<Rightarrow> do {
          argument_list \<leftarrow> template_arguments clean_lines func_line;
          if argument_list = [] then Some [] else typename_loop [] argument_list
        })
   }"

section \<open>The check\<close>

definition re_tight_before :: string where
  "re_tight_before = raw ''^(.*`S)&&''"

definition re_tight_after :: string where
  "re_tight_after = raw ''(.*)&&`S''"

lemma rvalue_patterns_compiled [re_compiled]:
  "re_compile re_decltype \<noteq> None"
  "re_compile re_template_word \<noteq> None"
  "re_compile re_word_before \<noteq> None"
  "re_compile re_rvalue_template \<noteq> None"
  "re_compile re_cast_before \<noteq> None"
  "re_compile re_symbol \<noteq> None"
  "re_compile re_for_init \<noteq> None"
  "re_compile re_type_context \<noteq> None"
  "re_compile re_expression_context \<noteq> None"
  "re_compile re_function_type \<noteq> None"
  "re_compile re_explicit_end \<noteq> None"
  "re_compile re_implicit_constructor \<noteq> None"
  "re_compile re_deleted \<noteq> None"
  "re_compile re_allow_rvalue \<noteq> None"
  "re_compile re_operator_equals \<noteq> None"
  "re_compile re_qualified_constructor \<noteq> None"
  "re_compile re_explicit_constructor \<noteq> None"
  "re_compile re_plain_constructor \<noteq> None"
  "re_compile re_previous_end \<noteq> None"
  "re_compile re_rvalue_name \<noteq> None"
  "re_compile re_template_open \<noteq> None"
  "re_compile re_template_close \<noteq> None"
  "re_compile re_typename \<noteq> None"
  "re_compile re_tight_before \<noteq> None"
  "re_compile re_tight_after \<noteq> None"
  by code_simp+
definition CheckRValueReference :: "NestingState \<Rightarrow> string \<Rightarrow> CleansedLines \<Rightarrow> int \<Rightarrow> event list py" where
  "CheckRValueReference st filename clean_lines linenum = do {
     line \<leftarrow> elided clean_lines linenum;
     before \<leftarrow> Match re_tight_before line;
     m \<leftarrow> (case before of Some m \<Rightarrow> Some (Some m) | None \<Rightarrow> Match re_tight_after line);
     (case m of
        None \<Rightarrow> Some []
      | Some m \<Rightarrow> do {
          operator \<leftarrow> Searches re_operator (group_text m 1);
          if contains line ''(&&)'' \<or> operator then Some []
          else do {
            typenames \<leftarrow> GetTemplateArgs clean_lines linenum;
            is_type \<leftarrow> IsRValueType typenames clean_lines (previous_stack_top st) linenum (length (group_text m 1));
            if is_type
            then do {
              allowed \<leftarrow> IsRValueAllowed clean_lines linenum typenames;
              Some (report_if (\<not> allowed)
                (Report filename linenum ''build/c++11'' 3 ''RValue references are an unapproved C++ feature.''))
            }
            else Some [Report filename linenum ''whitespace/operators'' 3 ''Missing spaces around &&'']
          }
        })
   }"

section \<open>Everything but the recursion returns\<close>

lemmas rvalue_ok = brace_ok rvalue_patterns_compiled

lemma rvalue_columns: "has_column re_symbol" "has_column re_template_open" "has_column re_template_close"
  "has_column re_word_before"
  by code_simp+

lemma rvalue_rests: "has_rest 2 re_typename" "has_rest 2 re_rvalue_name"
  by code_simp+

lemma IsDecltype_returns:
  "line_in cl linenum \<Longrightarrow> column < length (elided_lines cl ! nat linenum) \<Longrightarrow> \<exists>b. IsDecltype cl linenum column = Some b"
  by (erule (1) ReverseCloseExpression_on_line) (auto simp: IsDecltype_def rvalue_ok)

lemma IsTemplateParameterList_returns:
  "line_in cl linenum \<Longrightarrow> column < length (elided_lines cl ! nat linenum) \<Longrightarrow>
     \<exists>b. IsTemplateParameterList cl linenum column = Some b"
  by (erule (1) ReverseCloseExpression_on_line) (auto simp: IsTemplateParameterList_def rvalue_ok)

lemma symbol_loop_returns:
  assumes "line_in cl start" and "list_all (line_in cl) is" and "length line \<le> length (elided_lines cl ! nat start)"
  shows "\<exists>r. symbol_loop cl line start is = Some r \<and>
    (\<forall>i m. r = Some (i, m) \<longrightarrow> line_in cl i \<and> length (group_text m 1) < length (elided_lines cl ! nat i))"
  using assms
proof (induction "is" arbitrary: line start)
  case Nil
  then show ?case
    using column_in_line [OF rvalue_columns(1), of line] by (auto simp: rvalue_ok split: option.splits)
next
  case (Cons i "is")
  then show ?case
    using column_in_line [OF rvalue_columns(1), of line] Cons.IH [of i "elided_lines cl ! nat i"]
    by (auto simp: rvalue_ok split: option.splits simp del: symbol_loop.simps) (auto simp: rvalue_ok split: option.splits)
qed

lemma before_loop_returns: "list_all (line_in cl) is \<Longrightarrow> \<exists>t. before_loop cl t0 is = Some t"
  by (induction "is" arbitrary: t0) (auto simp: elided_ok)

lemma parenthesis_verdict_returns: "\<exists>v. parenthesis_verdict p line_prefix before_text = Some v"
  by (auto simp: parenthesis_verdict_def rvalue_ok split: option.splits)

lemma symbol_verdict_returns:
  assumes "line_in cl start" and "length (group_text m 1) < length (elided_lines cl ! nat start)"
  shows "\<exists>v. symbol_verdict cl p line_prefix start m = Some v"
proof -
  have "list_all (line_in cl) (rev [max (start - 6) 0 + 1..start - 1])"
    using assms(1) by (auto simp: line_in_def list_all_iff)
  from before_loop_returns [OF this] obtain t
    where "before_loop cl (group_text m 1) (rev [max (start - 6) 0 + 1..start - 1]) = Some t" by blast
  with assms IsTemplateParameterList_returns [OF assms] parenthesis_verdict_returns [of p line_prefix "group_text m 1"]
  show ?thesis by (auto simp: symbol_verdict_def rvalue_ok)
qed

lemma rvalue_step_returns:
  assumes "line_in cl linenum"
  shows "\<exists>v. rvalue_step typenames cl p linenum column = Some v"
proof -
  let ?l = "elided_lines cl ! nat linenum"
  show ?thesis
  proof (cases "re_match (the (re_compile re_word_before)) (take column ?l)")
    case None
    with assms show ?thesis by (simp add: rvalue_step_def rvalue_ok)
  next
    case (Some m)
    have g: "length (group_text m 1) < length ?l" using column_in_line [OF rvalue_columns(4) Some] by simp
    then obtain b where b: "IsDecltype cl linenum (length (group_text m 1)) = Some b"
      using IsDecltype_returns [OF assms] by blast
    have "list_all (line_in cl) (rev [0..linenum - 1])" using assms by (rule earlier_lines_in) auto
    then obtain r where r: "symbol_loop cl (group_text m 1) linenum (rev [0..linenum - 1]) = Some r"
      "\<forall>i m. r = Some (i, m) \<longrightarrow> line_in cl i \<and> length (group_text m 1) < length (elided_lines cl ! nat i)"
      using symbol_loop_returns [OF assms] g by (meson less_imp_le)
    have "\<exists>v. symbol_verdict cl p (take column ?l) i m' = Some v" if "r = Some (i, m')" for i m'
      using symbol_verdict_returns r(2) that by blast
    then show ?thesis
      using assms Some b r(1) by (auto simp: rvalue_step_def rvalue_ok split: option.splits simp del: symbol_loop.simps)
  qed
qed

lemma IsRValueType_loops:
  assumes "rvalue_step typenames cl p linenum column = Some (Recur column)"
  shows "IsRValueType typenames cl p linenum column = None"
proof (rule ccontr)
  assume "IsRValueType typenames cl p linenum column \<noteq> None"
  then obtain b where b: "IsRValueType typenames cl p linenum column = Some b" by blast
  have "(t, f, q, l, c) \<noteq> (typenames, cl, p, linenum, column)"
    if "IsRValueType t f q l c = Some b" for t f q l c b
  proof (rule IsRValueType.raw_induct [OF _ that,
        where P = "\<lambda>t f q l c b. (t, f, q, l, c) \<noteq> (typenames, cl, p, linenum, column)"])
    fix loop :: "string list \<Rightarrow> CleansedLines \<Rightarrow> block option \<Rightarrow> int \<Rightarrow> nat \<Rightarrow> bool py" and t f q l c b
    assume IH: "\<And>t f q l c b. loop t f q l c = Some b \<Longrightarrow> (t, f, q, l, c) \<noteq> (typenames, cl, p, linenum, column)"
      and b: "(do { verdict \<leftarrow> rvalue_step t f q l c;
          (case verdict of Decided b \<Rightarrow> Some b | Recur column \<Rightarrow> loop t f q l column) }) = Some b"
    show "(t, f, q, l, c) \<noteq> (typenames, cl, p, linenum, column)"
      using b assms by (auto dest: IH)
  qed
  from this [OF b] show False by simp
qed

lemma IsDeletedOrDefault_returns:
  assumes "line_in cl linenum"
  shows "\<exists>b. IsDeletedOrDefault cl linenum = Some b"
proof -
  let ?l = "elided_lines cl ! nat linenum"
  have "nat (py_find ?l ''('') < length ?l" if "\<not> py_find ?l ''('' < 0"
    using that by (auto simp: py_find_def split: option.splits dest!: find_at_Some)
  then obtain line ln e where "\<not> py_find ?l ''('' < 0 \<longrightarrow> CloseExpression cl linenum (nat (py_find ?l ''('')) = Some (line, ln, e)"
    using CloseExpression_ends [OF assms] by metis
  with assms show ?thesis
    by (intro exI [of _ "py_find ?l ''('' \<ge> 0 \<and> e \<ge> 0 \<and> is_match re_deleted (py_from line e)"])
      (auto simp: IsDeletedOrDefault_def rvalue_ok)
qed

lemma pop_loop_returns: "list_all (line_in cl) is \<Longrightarrow> \<exists>b. pop_loop cl is = Some b"
  by (induction "is") (auto simp: rvalue_ok)

lemma push_loop_returns:
  assumes "line_in cl linenum" and "list_all (line_in cl) is"
  shows "\<exists>b. push_loop cl linenum is = Some b"
proof -
  have "list_all (line_in cl) [linenum..NumLines cl - 1]" using assms(1) by (auto simp: line_in_def list_all_iff)
  then obtain b where "pop_loop cl [linenum..NumLines cl - 1] = Some b" using pop_loop_returns by blast
  then show ?thesis using assms(2) by (induction "is") (auto simp: rvalue_ok split: option.splits)
qed

lemma rvalue_names_loop_returns: "\<exists>b. rvalue_names_loop typenames line = Some b"
proof (induction "length line" arbitrary: line rule: less_induct)
  case less
  show ?case
    using less rest_shorter [OF rvalue_rests(2), of line]
    by (subst rvalue_names_loop.simps) (auto simp: rvalue_ok split: option.splits)
qed

lemma typename_loop_returns: "\<exists>ts. typename_loop typenames argument_list = Some ts"
proof (induction "length argument_list" arbitrary: typenames argument_list rule: less_induct)
  case less
  show ?case
    using less rest_shorter [OF rvalue_rests(1), of argument_list]
    by (subst typename_loop.simps) (auto simp: rvalue_ok split: option.splits)
qed

lemma IsRValueAllowed_returns:
  assumes "line_in cl linenum"
  shows "\<exists>b. IsRValueAllowed cl linenum typenames = Some b"
proof -
  have "list_all (line_in cl) (rev [1..linenum])" using assms by (rule earlier_lines_in) auto
  then obtain r where r: "push_loop cl linenum (rev [1..linenum]) = Some r" using push_loop_returns [OF assms] by blast
  obtain b where b: "IsDeletedOrDefault cl linenum = Some b" using IsDeletedOrDefault_returns [OF assms] by blast
  obtain n where n: "rvalue_names_loop typenames (elided_lines cl ! nat linenum) = Some n"
    using rvalue_names_loop_returns by blast
  obtain prev where "elided cl (linenum - 1) = Some prev" using elided_previous [OF assms] by blast
  then have "\<exists>s. declares_special cl linenum (elided_lines cl ! nat linenum) = Some s"
    by (auto simp: declares_special_def rvalue_ok re_compiled split: option.splits)
  with assms r b n show ?thesis by (auto simp: IsRValueAllowed_def rvalue_ok split: option.splits)
qed

lemma func_line_loop_returns:
  "list_all (line_in cl) is \<Longrightarrow> \<exists>r. func_line_loop cl is = Some r \<and> (\<forall>i. r = Some i \<longrightarrow> line_in cl i)"
  by (induction "is") (auto simp: rvalue_ok re_compiled)

lemma argument_lines_returns:
  "list_all (line_in cl) is \<Longrightarrow> \<exists>c a. argument_lines cl start_col argument_list is = Some (c, a)"
  by (induction "is" arbitrary: start_col argument_list) (auto simp: elided_ok)

lemma template_arguments_returns:
  assumes "line_in cl func_line"
  shows "\<exists>a. template_arguments cl func_line = Some a"
proof (cases "re_match (the (re_compile re_template_open)) (elided_lines cl ! nat func_line)")
  case (Some m)
  obtain line ln e where "CloseExpression cl func_line (length (group_text m 1)) = Some (line, ln, e)"
    using CloseExpression_ends [OF assms column_in_line [OF rvalue_columns(2) Some]] by blast
  with assms Some show ?thesis by (auto simp: template_arguments_def rvalue_ok)
next
  case open_line: None
  show ?thesis
  proof (cases "func_line > 1")
    case True
    then have before: "line_in cl (func_line - 1)" using assms by (auto simp: line_in_def)
    show ?thesis
    proof (cases "re_match (the (re_compile re_template_close)) (elided_lines cl ! nat (func_line - 1))")
      case None
      with assms open_line True before show ?thesis by (simp add: template_arguments_def rvalue_ok)
    next
      case (Some m)
      obtain line ln e where r: "ReverseCloseExpression cl (func_line - 1) (length (group_text m 1)) = Some (line, ln, e)"
        "e = - 1 \<or> line_in cl ln"
        using ReverseCloseExpression_on_line [OF before column_in_line [OF rvalue_columns(3) Some]] by metis
      have "\<exists>c a. argument_lines cl (e + 1) [] [ln..func_line - 2] = Some (c, a)" if "e > - 1"
        using that r(2) assms by (intro argument_lines_returns) (auto simp: line_in_def list_all_iff)
      with assms open_line True before Some r(1) show ?thesis by (auto simp: template_arguments_def rvalue_ok)
    qed
  next
    case False
    with assms open_line show ?thesis by (simp add: template_arguments_def rvalue_ok)
  qed
qed

lemma GetTemplateArgs_returns:
  assumes "line_in cl linenum"
  shows "\<exists>ts. GetTemplateArgs cl linenum = Some ts"
proof -
  have "list_all (line_in cl) (rev [1..linenum])" using assms by (rule earlier_lines_in) auto
  then obtain r where r: "func_line_loop cl (rev [1..linenum]) = Some r" "\<forall>i. r = Some i \<longrightarrow> line_in cl i"
    using func_line_loop_returns by blast
  show ?thesis
    using r template_arguments_returns typename_loop_returns
    by (cases r) (fastforce simp: GetTemplateArgs_def)+
qed

lemma tight_shapes:
  "re_compile re_tight_before = Some (False, RSeq RBegin (RSeq (RGroup 1 (RSeq (RRepeat 0 None True RAny)
     (RSet False [ItemCat CatNotSpace]))) (RSeq (RChar (CHR ''&'')) (RChar (CHR ''&'')))))"
  "re_compile re_tight_after = Some (False, RSeq (RGroup 1 (RRepeat 0 None True RAny)) (RSeq (RChar (CHR ''&''))
     (RSeq (RChar (CHR ''&'')) (RSet False [ItemCat CatNotSpace]))))"
  by code_simp+

lemma goes_contains:
  assumes "goes (start_cursor s) u c" and "goes c w d"
  shows "contains s w"
  using goes_start [OF assms(1)] goes_rest [OF assms(2)] by (auto simp: contains_iff)

lemma amp_contains:
  assumes "plain_look r" and "denotes False s r (start_cursor s, []) (c, h)"
    and "goes c [CHR ''&''] d" and "goes d [CHR ''&''] e"
  shows "contains s ''&&''"
proof -
  obtain u where "goes (start_cursor s) u c" using denotes_goes [OF assms(1,2)] by blast
  from goes_contains [OF this goes_trans [OF assms(3,4)]] show ?thesis by simp
qed

lemma tight_contains:
  assumes "re_match (the (re_compile re_tight_before)) s = Some m \<or> re_match (the (re_compile re_tight_after)) s = Some m"
  shows "contains s ''&&''"
  using assms
proof
  assume "re_match (the (re_compile re_tight_before)) s = Some m"
  then obtain e where "denotes False s (snd (the (re_compile re_tight_before))) (start_cursor s, []) (e, m_groups m)"
    unfolding tight_shapes option.sel snd_conv by (rule re_match_denotes) simp
  then show ?thesis
    unfolding tight_shapes option.sel snd_conv denotes_seq [of _ _ RBegin] denotes_begin
      denotes_seq [of _ _ "RGroup _ _"] denotes_seq [of _ _ "RChar _"] denotes_char
    by (elim exE conjE) (rule amp_contains, auto)
next
  assume "re_match (the (re_compile re_tight_after)) s = Some m"
  then obtain e where "denotes False s (snd (the (re_compile re_tight_after))) (start_cursor s, []) (e, m_groups m)"
    unfolding tight_shapes option.sel snd_conv by (rule re_match_denotes) simp
  then show ?thesis
    unfolding tight_shapes option.sel snd_conv denotes_seq [of _ _ "RGroup _ _"] denotes_seq [of _ _ "RChar _"] denotes_char
    by (elim exE conjE) (rule amp_contains, auto)
qed

text \<open>All the loops of the check but the search for the type before \<^verbatim>\<open>&&\<close> end.\<close>

lemma CheckRValueReference_returns:
  assumes "line_in cl linenum"
    and "contains (elided_lines cl ! nat linenum) ''&&'' \<Longrightarrow>
      \<forall>ts column. IsRValueType ts cl (previous_stack_top st) linenum column \<noteq> None"
  shows "accounts_for filename linenum (CheckRValueReference st filename cl linenum)"
proof -
  let ?l = "elided_lines cl ! nat linenum"
  let ?m = "case re_match (the (re_compile re_tight_before)) ?l of Some m \<Rightarrow> Some m
    | None \<Rightarrow> re_match (the (re_compile re_tight_after)) ?l"
  show ?thesis
  proof (cases ?m)
    case None
    with assms(1) show ?thesis by (auto simp: CheckRValueReference_def rvalue_ok split: option.splits)
  next
    case (Some m)
    obtain ts where ts: "GetTemplateArgs cl linenum = Some ts" using GetTemplateArgs_returns [OF assms(1)] by blast
    obtain b where b: "IsRValueAllowed cl linenum ts = Some b" using IsRValueAllowed_returns [OF assms(1)] by blast
    have "contains ?l ''&&''" using Some tight_contains [of ?l m] by (auto split: option.splits)
    then obtain t where t: "IsRValueType ts cl (previous_stack_top st) linenum (length (group_text m 1)) = Some t"
      using assms(2) by blast
    have "re_compile re_operator \<noteq> None" by (simp add: re_operator_compiled)
    with assms(1) Some ts b t show ?thesis
      by (auto simp: CheckRValueReference_def rvalue_ok split: option.splits)
  qed
qed



end
