(* ===== verification/CastChecks.thy ===== *)
theory CastChecks
  imports RValueChecks
begin

text \<open>
  The checks of casts and of reference parameters of \<^verbatim>\<open>script/cpplint.py\<close>: \<^verbatim>\<open>CheckCStyleCast\<close>,
  \<^verbatim>\<open>CheckCasts\<close> and \<^verbatim>\<open>CheckForNonConstReference\<close> with the patterns of types it uses. The check of
  reference parameters is shown to satisfy the contract of a line check. The check of casts reads the
  character after the closing bracket of a cast whose address is taken without asking whether there is
  one: it is shown to satisfy the contract on all lines but those, and to raise on those.
\<close>

section \<open>C style casts\<close>

definition re_cast_keyword :: string where
  "re_cast_keyword = raw ''.*`b(?:sizeof|alignof|alignas|[_A-Z][_A-Z0-9]*)`s*$''"

definition re_cast_macro :: string where
  "re_cast_macro = raw ''.*`b[_A-Z][_A-Z0-9]*`s*`((?:`([^()]*`)|[^()])*$''"

definition re_unnamed :: string where
  "re_unnamed = raw ''^`s*(?:;|const`b|throw`b|final`b|override`b|[=>{),]|->)''"

definition re_template_end :: string where
  "re_template_end = raw ''^`s*>''"

definition re_assigned :: string where
  "re_assigned = raw ''^`s=`s*(`S+)`s*;''"

definition re_paren_end :: string where
  "re_paren_end = raw ''.*`)`s*$''"

definition re_basic_cast :: string where
  "re_basic_cast = raw ''`((int|float|double|bool|char|u?int(16|32|64))`)''"

definition re_string_cast :: string where
  \<open>re_string_cast = raw ''`((char`s?`*+`s?)`)`s*"''\<close>

definition re_pointer_cast :: string where
  "re_pointer_cast = raw ''`((`w+`s?`*+`s?)`)''"

definition re_conversion :: string where
  "re_conversion = raw ''(`bnew`s+|`S<`s*(?:const`s+)?)?`b(int|float|double|bool|char|int32|uint32|int64|uint64)(`([^)].*)''"

definition re_array_after :: string where
  "re_array_after = raw ''`([^()]+`)`s*`[''"

definition re_funcptr :: string where
  "re_funcptr = raw ''`((?:[^() ]+::`s*`*`s*)?[^() ]+`)`s*`(''"

definition re_address_cast :: string where
  "re_address_cast = raw ''(?:[^`w]&`(([^)*][^)]*)`)[`w(])|(?:[^`w]&(static|dynamic|down|reinterpret)_cast`b)''"

definition re_address_open :: string where
  "re_address_open = raw ''^(.*&(?:static|dynamic|down|reinterpret)_cast`b)<''"

definition re_dereference :: string where
  "re_dereference = raw ''`s*(?:->|`[)''"

definition re_alias :: "string \<Rightarrow> string" where
  "re_alias matched_type = raw ''`s*using`s+`S+`s*=`s*'' @ matched_type"

definition re_placement_new :: "string \<Rightarrow> string" where
  "re_placement_new matched_type = raw ''new`(`S+`)`s*'' @ matched_type"

lemma cast_patterns_compiled [re_compiled]:
  "re_compile re_cast_keyword \<noteq> None"
  "re_compile re_cast_macro \<noteq> None"
  "re_compile re_unnamed \<noteq> None"
  "re_compile re_template_end \<noteq> None"
  "re_compile re_assigned \<noteq> None"
  "re_compile re_paren_end \<noteq> None"
  "re_compile re_basic_cast \<noteq> None"
  "re_compile re_string_cast \<noteq> None"
  "re_compile re_pointer_cast \<noteq> None"
  "re_compile re_conversion \<noteq> None"
  "re_compile re_array_after \<noteq> None"
  "re_compile re_funcptr \<noteq> None"
  "re_compile re_address_cast \<noteq> None"
  "re_compile re_address_open \<noteq> None"
  "re_compile re_dereference \<noteq> None"
  by code_simp+

text \<open>\<^verbatim>\<open>match.start(n)\<close>.\<close>

definition group_start :: "rmatch \<Rightarrow> nat \<Rightarrow> int" where
  "group_start m n =
     (if n = 0 then int (m_start m)
      else case map_of (m_groups m) n of None \<Rightarrow> - 1 | Some (a, b) \<Rightarrow> int a)"

text \<open>An unnamed parameter looks like a cast: whether to report it, after the filters of the code.\<close>

definition unnamed_parameter :: "CleansedLines \<Rightarrow> int \<Rightarrow> string \<Rightarrow> rmatch \<Rightarrow> string \<Rightarrow> bool py" where
  "unnamed_parameter clean_lines linenum line m remainder = do {
     template_argument \<leftarrow> Matches re_template_end remainder;
     if template_argument then Some False
     else do {
       matched_zero \<leftarrow> Match re_assigned remainder;
       if (case matched_zero of None \<Rightarrow> False | Some z \<Rightarrow> group_text z 1 \<noteq> ''0'') then Some False
       else do {
         function_pointer \<leftarrow> Matches re_paren_end (take (m_start m) line);
         if function_pointer then Some False
         else do {
           raw_line \<leftarrow> py_index (raw_lines clean_lines) linenum;
           Some (\<not> contains raw_line ''/*'')
         }
       }
     }
   }"

text \<open>The truth value the function returns, and what it reports.\<close>

definition CheckCStyleCast ::
    "string \<Rightarrow> string \<Rightarrow> string \<Rightarrow> CleansedLines \<Rightarrow> int \<Rightarrow> (bool \<times> event list) py" where
  "CheckCStyleCast cast_type pattern filename clean_lines linenum = do {
     line \<leftarrow> elided clean_lines linenum;
     m \<leftarrow> Search pattern line;
     (case m of
        None \<Rightarrow> Some (False, [])
      | Some m \<Rightarrow> do {
          let context = py_slice line 0 (group_start m 1 - 1);
          keyword \<leftarrow> Matches re_cast_keyword context;
          if keyword then Some (False, [])
          else do {
            context \<leftarrow> (if linenum > 0
                        then before_loop clean_lines context (rev [max 0 (linenum - 5) + 1..linenum - 1])
                        else Some context);
            macro_argument \<leftarrow> Matches re_cast_macro context;
            if macro_argument then Some (False, [])
            else if endswith context '' operator++'' \<or> endswith context '' operator--'' then Some (False, [])
            else do {
              let remainder = drop (m_end m) line;
              unnamed \<leftarrow> Matches re_unnamed remainder;
              if unnamed
              then do {
                reported \<leftarrow> unnamed_parameter clean_lines linenum line m remainder;
                Some (reported, report_if reported
                  (Report filename linenum ''readability/function'' 3 ''All parameters should be named in a function''))
              }
              else Some (True,
                [Report filename linenum ''readability/casting'' 4
                  (''Using C-style cast.  Use '' @ cast_type @ ''<'' @ group_text m 1 @ ''>(...) instead'')])
            }
          }
        })
   }"

section \<open>Casts\<close>

text \<open>
  A conversion written as a function call. The result is \<open>None\<close> where the code returns from
  \<^verbatim>\<open>CheckCasts\<close>, and the reports otherwise.
\<close>

definition conversion_check :: "string \<Rightarrow> int \<Rightarrow> string \<Rightarrow> rmatch \<Rightarrow> event list option py" where
  "conversion_check filename linenum line m = do {
     let matched_type = group_text m 2;
     let matched_funcptr = group_text m 3;
     array \<leftarrow> Matches re_array_after matched_funcptr;
     if array then Some None
     else do {
       reported \<leftarrow> and_then (Some (group m 1 = None))
         (and_then (negate (and_then (Some (matched_funcptr \<noteq> []))
                      (or_else (Matches re_funcptr matched_funcptr) (Some (startswith matched_funcptr ''(*)'')))))
           (and_then (negate (Matches (re_alias matched_type) line))
             (negate (Searches (re_placement_new matched_type) line))));
       Some (Some (report_if reported
         (Report filename linenum ''readability/casting'' 4
           (''Using deprecated casting style.  Use static_cast<'' @ matched_type @ ''>(...) instead''))))
     }
   }"

text \<open>Whether the address is taken of something dereferenced from the cast.\<close>

definition dereferenced :: "CleansedLines \<Rightarrow> int \<Rightarrow> string \<Rightarrow> bool py" where
  "dereferenced clean_lines linenum line = do {
     m \<leftarrow> Match re_address_open line;
     (case m of
        None \<Rightarrow> Some False
      | Some m \<Rightarrow> do {
          (_, y1, x1) \<leftarrow> CloseExpression clean_lines linenum (length (group_text m 1));
          parenthesis \<leftarrow> and_then (Some (x1 \<ge> 0))
            (do { l \<leftarrow> elided clean_lines y1; c \<leftarrow> py_index l x1; Some (c = CHR ''('') });
          if \<not> parenthesis then Some False
          else do {
            (_, y2, x2) \<leftarrow> CloseExpression clean_lines y1 (nat x1);
            if x2 \<ge> 0
            then do {
              l \<leftarrow> elided clean_lines y2;
              extended_line \<leftarrow> (if y2 < NumLines clean_lines - 1
                then do { n \<leftarrow> elided clean_lines (y2 + 1); Some (py_from l x2 @ n) }
                else Some (py_from l x2));
              Matches re_dereference extended_line
            }
            else Some False
          }
        })
   }"

definition address_check :: "string \<Rightarrow> CleansedLines \<Rightarrow> int \<Rightarrow> string \<Rightarrow> event list py" where
  "address_check filename clean_lines linenum line = do {
     address \<leftarrow> Searches re_address_cast line;
     if \<not> address then Some []
     else do {
       parenthesis_error \<leftarrow> dereferenced clean_lines linenum line;
       Some [if parenthesis_error
             then Report filename linenum ''readability/casting'' 4
               ''Are you taking an address of something dereferenced from a cast?  Wrapping the dereferenced expression in parentheses will make the binding more obvious''
             else Report filename linenum ''runtime/casting'' 4
               ''Are you taking an address of a cast?  This is dangerous: could be a temp var.  Take the address before doing the cast, rather than after'']
     }
   }"

definition c_style_checks :: "bool \<Rightarrow> string \<Rightarrow> CleansedLines \<Rightarrow> int \<Rightarrow> event list py" where
  "c_style_checks expecting_function filename clean_lines linenum = do {
     basic \<leftarrow> (if expecting_function then Some []
               else do {
                 (_, es) \<leftarrow> CheckCStyleCast ''static_cast'' re_basic_cast filename clean_lines linenum;
                 Some es
               });
     (string_cast, strings) \<leftarrow> CheckCStyleCast ''const_cast'' re_string_cast filename clean_lines linenum;
     pointers \<leftarrow> (if string_cast then Some []
                  else do {
                    (_, es) \<leftarrow> CheckCStyleCast ''reinterpret_cast'' re_pointer_cast filename clean_lines linenum;
                    Some es
                  });
     Some (basic @ strings @ pointers)
   }"

definition CheckCasts :: "string \<Rightarrow> CleansedLines \<Rightarrow> int \<Rightarrow> event list py" where
  "CheckCasts filename clean_lines linenum = do {
     line \<leftarrow> elided clean_lines linenum;
     m \<leftarrow> Search re_conversion line;
     expecting_function \<leftarrow> ExpectingFunctionArgs clean_lines linenum;
     conversion \<leftarrow> (case m of
        Some m \<Rightarrow> if expecting_function then Some (Some []) else conversion_check filename linenum line m
      | None \<Rightarrow> Some (Some []));
     (case conversion of
        None \<Rightarrow> Some []
      | Some conversions \<Rightarrow> do {
          c_style \<leftarrow> c_style_checks expecting_function filename clean_lines linenum;
          addresses \<leftarrow> address_check filename clean_lines linenum line;
          Some (conversions @ c_style @ addresses)
        })
   }"

section \<open>Reference parameters\<close>

definition RE_PATTERN_IDENT :: string where
  "RE_PATTERN_IDENT = raw ''[_a-zA-Z]`w*''"

definition RE_PATTERN_TYPE :: string where
  "RE_PATTERN_TYPE = raw ''(?:const`s+)?(?:typename`s+|class`s+|struct`s+|union`s+|enum`s+)?(?:`w|`s*<(?:<(?:<[^<>]*>|[^<>])*>|[^<>])*>|::)+''"

definition re_qualified_start :: string where
  "re_qualified_start = raw ''`s*::(?:[`w<>]|::)+`s*&`s*`S''"

definition re_type_end :: string where
  "re_type_end = raw ''`b((?:const`s*)?(?:[`w<>]|::)+[`w<>])`s*$''"

definition re_type_start :: string where
  "re_type_start = raw ''`s*[a-zA-Z_]([`w<>]|::)+`s*&`s*`S''"

definition re_qualifier_end :: string where
  "re_qualifier_end = raw ''`b((?:const`s*)?(?:[`w<>]|::)+::)`s*$''"

definition re_paren_or_comma :: string where
  "re_paren_or_comma = raw ''[),]`s*$''"

definition re_colon_start :: string where
  "re_colon_start = raw ''^`s*:`s+`S''"

definition re_line_continued :: string where
  "re_line_continued = raw ''```s*$''"

definition whitelisted_functions :: string where
  "whitelisted_functions = raw ''(?:[sS]wap(?:<`w:+>)?|operator`s*[<>][<>]|static_assert|COMPILE_ASSERT)`s*`(''"

definition re_open_call :: string where
  "re_open_call = raw ''`S+`([^)]*$''"

definition re_function_bodies :: string where
  "re_function_bodies = ''{[^}]*}''"

definition re_spaces_angle :: string where
  "re_spaces_angle = '' *<''"

definition RE_PATTERN_REF_PARAM :: string where
  "RE_PATTERN_REF_PARAM = ''('' @ RE_PATTERN_TYPE @ raw ''(?:`s*(?:`bconst`b|[*]))*`s*&`s*'' @ RE_PATTERN_IDENT @
     raw '')`s*(?:=[^,()]+)?[,)]''"

definition RE_PATTERN_CONST_REF_PARAM :: string where
  "RE_PATTERN_CONST_REF_PARAM = raw ''(?:.*`s*`bconst`s*&`s*'' @ RE_PATTERN_IDENT @
     raw ''|const`s+'' @ RE_PATTERN_TYPE @ raw ''`s*&`s*'' @ RE_PATTERN_IDENT @ '')''"

lemma reference_patterns_compiled [re_compiled]:
  "re_compile RE_PATTERN_IDENT \<noteq> None"
  "re_compile RE_PATTERN_TYPE \<noteq> None"
  "re_compile re_qualified_start \<noteq> None"
  "re_compile re_type_end \<noteq> None"
  "re_compile re_type_start \<noteq> None"
  "re_compile re_qualifier_end \<noteq> None"
  "re_compile re_paren_or_comma \<noteq> None"
  "re_compile re_colon_start \<noteq> None"
  "re_compile re_line_continued \<noteq> None"
  "re_compile whitelisted_functions \<noteq> None"
  "re_compile re_open_call \<noteq> None"
  "re_compile re_function_bodies \<noteq> None"
  "re_compile re_spaces_angle \<noteq> None"
  "re_compile RE_PATTERN_REF_PARAM \<noteq> None"
  "re_compile RE_PATTERN_CONST_REF_PARAM \<noteq> None"
  by code_simp+

fun strip_lines :: "CleansedLines \<Rightarrow> int list \<Rightarrow> string py" where
  "strip_lines clean_lines [] = Some []"
| "strip_lines clean_lines (i # is) = do {
     line \<leftarrow> elided clean_lines i;
     rest \<leftarrow> strip_lines clean_lines is;
     Some (py_strip line @ rest)
   }"

text \<open>The line with the part of its type that is on the lines above.\<close>

definition joined_type :: "CleansedLines \<Rightarrow> int \<Rightarrow> string \<Rightarrow> string py" where
  "joined_type clean_lines linenum line =
     (if linenum > 1
      then do {
        qualified \<leftarrow> Matches re_qualified_start line;
        plain \<leftarrow> (if qualified then Some False else Matches re_type_start line);
        previous \<leftarrow> (if qualified
                     then do { l \<leftarrow> elided clean_lines (linenum - 1); Search re_type_end l }
                     else if plain
                     then do { l \<leftarrow> elided clean_lines (linenum - 1); Search re_qualifier_end l }
                     else Some None);
        (case previous of
           Some m \<Rightarrow> Some (group_text m 1 @ py_lstrip line)
         | None \<Rightarrow>
             (let endpos = py_rfind line ''>'' in
              if endpos > - 1
              then do {
                (_, startline, startpos) \<leftarrow> ReverseCloseExpression clean_lines linenum (nat endpos);
                if startpos > - 1 \<and> startline < linenum then strip_lines clean_lines [startline..linenum]
                else Some line
              }
              else Some line))
      }
      else Some line)"

text \<open>Whether the lines above are those of an initializer list.\<close>

fun initializer_above :: "CleansedLines \<Rightarrow> int list \<Rightarrow> bool py" where
  "initializer_above clean_lines [] = Some False"
| "initializer_above clean_lines (i # is) = do {
     previous_line \<leftarrow> elided clean_lines i;
     continues \<leftarrow> Searches re_paren_or_comma previous_line;
     if \<not> continues then Some False
     else do {
       colon \<leftarrow> Matches re_colon_start previous_line;
       if colon then Some True else initializer_above clean_lines is
     }
   }"

fun whitelisted_above :: "CleansedLines \<Rightarrow> int \<Rightarrow> int list \<Rightarrow> bool py" where
  "whitelisted_above clean_lines linenum [] = Some False"
| "whitelisted_above clean_lines linenum (i # is) = do {
     found \<leftarrow> and_then (Some (linenum > i))
       (do { l \<leftarrow> elided clean_lines (linenum - i - 1); Searches whitelisted_functions l });
     if found then Some True else whitelisted_above clean_lines linenum is
   }"

definition whitelisted :: "CleansedLines \<Rightarrow> int \<Rightarrow> string \<Rightarrow> bool py" where
  "whitelisted clean_lines linenum line = do {
     here \<leftarrow> Searches whitelisted_functions line;
     if here then Some True
     else do {
       call \<leftarrow> Searches re_open_call line;
       if call then Some False else whitelisted_above clean_lines linenum [0, 1]
     }
   }"

fun parameter_checks :: "string \<Rightarrow> int \<Rightarrow> string list \<Rightarrow> event list py" where
  "parameter_checks filename linenum [] = Some []"
| "parameter_checks filename linenum (parameter # parameters) = do {
     const_reference \<leftarrow> Matches RE_PATTERN_CONST_REF_PARAM parameter;
     tidy \<leftarrow> ReplaceAll re_spaces_angle ''<'' parameter;
     es \<leftarrow> parameter_checks filename linenum parameters;
     Some (report_if (\<not> const_reference)
       (Report filename linenum ''runtime/references'' 2
         (''Is this a non-const reference? If so, make const or use a pointer: '' @ tidy)) @ es)
   }"

text \<open>\<^verbatim>\<open>re.findall\<close> with one group in the pattern lists the texts of that group.\<close>

definition reference_checks :: "string \<Rightarrow> int \<Rightarrow> string \<Rightarrow> event list py" where
  "reference_checks filename linenum line = do {
     decls \<leftarrow> ReplaceAll re_function_bodies '' '' line;
     r \<leftarrow> re_compile RE_PATTERN_REF_PARAM;
     parameter_checks filename linenum (map (\<lambda>m. group_text m 1) (re_finditer r decls))
   }"

definition inside_function :: "NestingState \<Rightarrow> bool" where
  "inside_function st =
     (case previous_stack_top st of None \<Rightarrow> False | Some b \<Rightarrow> \<not> (is_class b \<or> is_namespace b))"

definition CheckForNonConstReference :: "NestingState \<Rightarrow> string \<Rightarrow> CleansedLines \<Rightarrow> int \<Rightarrow> event list py" where
  "CheckForNonConstReference st filename clean_lines linenum = do {
     line \<leftarrow> elided clean_lines linenum;
     if \<not> contains line ''&'' then Some []
     else do {
       inherited \<leftarrow> or_else (IsDerivedFunction clean_lines linenum) (IsOutOfLineMethodDefinition clean_lines linenum);
       if inherited then Some []
       else do {
         line \<leftarrow> joined_type clean_lines linenum line;
         if inside_function st then Some []
         else do {
           exempt \<leftarrow> or_else (if linenum > 0
                             then initializer_above clean_lines (rev [max 0 (linenum - 10) + 1..linenum - 1])
                             else Some False)
             (or_else (Searches re_line_continued line)
               (or_else (IsInitializerList clean_lines linenum) (whitelisted clean_lines linenum line)));
           if exempt then Some [] else reference_checks filename linenum line
         }
       }
     }
   }"

section \<open>The helpers return\<close>

lemma listed_casts [accounting]:
  "''readability/casting'' \<in> set ERROR_CATEGORIES" "''runtime/casting'' \<in> set ERROR_CATEGORIES"
  "''readability/function'' \<in> set ERROR_CATEGORIES" "''runtime/references'' \<in> set ERROR_CATEGORIES"
  by code_simp+

lemmas cast_ok = rvalue_ok cast_patterns_compiled reference_patterns_compiled listed_casts

lemma raw_ok: "line_in cl linenum \<Longrightarrow> py_index (raw_lines cl) linenum = Some (raw_lines cl ! nat linenum)"
  by (auto simp: line_in_def file_ok_def lines_ok_def py_index_in_range)

lemma lines_back_in: "line_in cl linenum \<Longrightarrow> list_all (line_in cl) (lines_back linenum)"
  unfolding lines_back_def by (rule earlier_lines_in) auto

lemma derived_loop_returns: "list_all (line_in cl) is \<Longrightarrow> \<exists>b. derived_loop cl is = Some b"
proof (induction "is")
  case (Cons i "is")
  then have i: "line_in cl i" by simp
  show ?case
  proof (cases "re_match (the (re_compile re_function_start)) (elided_lines cl ! nat i)")
    case None
    with Cons i show ?thesis by (simp add: cast_ok)
  next
    case (Some m)
    obtain l n e where "CloseExpression cl i (length (group_text m 1)) = Some (l, n, e)"
      using CloseExpression_on_line [OF i function_start_column [OF Some]] by blast
    with i Some show ?thesis by (auto simp: cast_ok)
  qed
qed auto

lemma out_of_line_loop_returns: "list_all (line_in cl) is \<Longrightarrow> \<exists>b. out_of_line_loop cl is = Some b"
  by (induction "is") (auto simp: cast_ok)

lemma initializer_loop_returns: "list_all (line_in cl) is \<Longrightarrow> \<exists>b. initializer_loop cl linenum is = Some b"
  by (induction "is") (auto simp: cast_ok split: option.splits)

lemma function_context_returns:
  assumes "line_in cl linenum"
  shows "\<exists>b. IsDerivedFunction cl linenum = Some b" and "\<exists>b. IsOutOfLineMethodDefinition cl linenum = Some b"
    and "\<exists>b. IsInitializerList cl linenum = Some b"
  unfolding IsDerivedFunction_def IsOutOfLineMethodDefinition_def IsInitializerList_def
  using assms by (auto intro!: derived_loop_returns out_of_line_loop_returns initializer_loop_returns lines_back_in earlier_lines_in)

lemma ExpectingFunctionArgs_returns:
  assumes "line_in cl linenum"
  shows "\<exists>b. ExpectingFunctionArgs cl linenum = Some b"
proof (cases "linenum \<ge> 2")
  case True
  then have "line_in cl (linenum - 1)" "line_in cl (linenum - 2)" using assms by (auto simp: line_in_def)
  with assms show ?thesis by (auto simp: ExpectingFunctionArgs_def cast_ok)
next
  case False
  with assms show ?thesis by (auto simp: ExpectingFunctionArgs_def cast_ok)
qed

section \<open>Reference parameters keep the contract\<close>

lemma strip_lines_returns: "list_all (line_in cl) is \<Longrightarrow> \<exists>t. strip_lines cl is = Some t"
  by (induction "is") (auto simp: elided_ok)

lemma joined_type_returns:
  assumes "line_in cl linenum"
  shows "\<exists>t. joined_type cl linenum (elided_lines cl ! nat linenum) = Some t"
proof (cases "linenum > 1 \<and> py_rfind (elided_lines cl ! nat linenum) ''>'' > - 1")
  case True
  let ?l = "elided_lines cl ! nat linenum"
  have "line_in cl (linenum - 1)" using assms True by (simp add: line_in_def)
  moreover have "nat (py_rfind ?l ''>'') < length ?l" using True py_rfind_less [of ?l "CHR ''>''"] by linarith
  then obtain line ln e where "ReverseCloseExpression cl linenum (nat (py_rfind ?l ''>'')) = Some (line, ln, e)"
    "e = - 1 \<or> line_in cl ln \<and> 0 \<le> e \<and> e \<le> int (length (elided_lines cl ! nat ln))"
    using ReverseCloseExpression_on_line [OF assms] by blast
  moreover have "\<exists>t. strip_lines cl [ln..linenum] = Some t" if "line_in cl ln" for ln
    using that assms by (intro strip_lines_returns) (auto simp: line_in_def list_all_iff)
  ultimately show ?thesis
    using assms by (auto simp: joined_type_def cast_ok split: option.splits)
next
  case False
  have "line_in cl (linenum - 1)" if "linenum > 1" using assms that by (simp add: line_in_def)
  with False assms show ?thesis by (auto simp: joined_type_def cast_ok split: option.splits)
qed

lemma initializer_above_returns: "list_all (line_in cl) is \<Longrightarrow> \<exists>b. initializer_above cl is = Some b"
  by (induction "is") (auto simp: cast_ok)

lemma whitelisted_returns:
  assumes "line_in cl linenum"
  shows "\<exists>b. whitelisted cl linenum line = Some b"
proof -
  have "line_in cl (linenum - i - 1)" if "linenum > i" "0 \<le> i" for i using assms that by (simp add: line_in_def)
  from this [of 0] this [of 1] show ?thesis by (auto simp: whitelisted_def cast_ok)
qed

lemma parameter_checks_on_line: "accounts_for filename linenum (parameter_checks filename linenum ps)"
  by (induction ps) (auto simp: cast_ok elim!: accounts_forE)

interpretation non_const_reference: line_check "CheckForNonConstReference st" for st
proof
  fix cl linenum filename
  assume l: "line_in cl linenum"
  note ctx = function_context_returns [OF l]
  have above: "\<exists>b. initializer_above cl (rev [max 0 (linenum - 10) + 1..linenum - 1]) = Some b"
    by (intro initializer_above_returns earlier_lines_in [OF l]) auto
  obtain r where "re_compile RE_PATTERN_REF_PARAM = Some r" using reference_patterns_compiled by blast
  then have checks: "accounts_for filename linenum (reference_checks filename linenum line)" for line
    by (simp add: reference_checks_def cast_ok parameter_checks_on_line)
  obtain t where t: "joined_type cl linenum (elided_lines cl ! nat linenum) = Some t"
    using joined_type_returns [OF l] by blast
  show "accounts_for filename linenum (CheckForNonConstReference st filename cl linenum)"
    using ctx above checks t whitelisted_returns [OF l, of t] l
    by (auto simp: CheckForNonConstReference_def cast_ok)
qed

section \<open>Casts keep the contract but for one line\<close>

lemma CheckCStyleCast_on_line:
  assumes "line_in cl linenum" and "re_compile pattern \<noteq> None"
  obtains b es where "CheckCStyleCast cast_type pattern filename cl linenum = Some (b, es)"
    and "list_all (proper_report filename linenum) es"
proof (cases "re_search (the (re_compile pattern)) (elided_lines cl ! nat linenum)")
  case None
  with assms show ?thesis by (intro that [of False "[]"]) (simp_all add: CheckCStyleCast_def cast_ok)
next
  case (Some m)
  let ?l = "elided_lines cl ! nat linenum" and ?is = "rev [max 0 (linenum - 5) + 1..linenum - 1]"
  let ?c = "py_slice ?l 0 (group_start m 1 - 1)"
  have "\<exists>t. before_loop cl ?c ?is = Some t"
    by (intro before_loop_returns earlier_lines_in [OF assms(1)]) auto
  then obtain t where t: "(if linenum > 0 then before_loop cl ?c ?is else Some ?c) = Some t" by (cases "linenum > 0") auto
  have "\<exists>b. unnamed_parameter cl linenum ?l m (drop (m_end m) ?l) = Some b"
    using assms(1) by (auto simp: unnamed_parameter_def cast_ok raw_ok split: option.splits)
  then obtain b where b: "unnamed_parameter cl linenum ?l m (drop (m_end m) ?l) = Some b" by blast
  have "\<exists>b es. CheckCStyleCast cast_type pattern filename cl linenum = Some (b, es) \<and>
      list_all (proper_report filename linenum) es"
    unfolding CheckCStyleCast_def using assms Some by (simp add: cast_ok t b ex_bool_eq del: One_nat_def)
  with that show ?thesis by blast
qed

lemma c_style_checks_on_line:
  assumes "line_in cl linenum"
  shows "accounts_for filename linenum (c_style_checks expecting_function filename cl linenum)"
proof -
  obtain b1 e1 where 1: "CheckCStyleCast ''static_cast'' re_basic_cast filename cl linenum = Some (b1, e1)"
    "list_all (proper_report filename linenum) e1" by (rule CheckCStyleCast_on_line [OF assms cast_patterns_compiled(7)])
  obtain b2 e2 where 2: "CheckCStyleCast ''const_cast'' re_string_cast filename cl linenum = Some (b2, e2)"
    "list_all (proper_report filename linenum) e2" by (rule CheckCStyleCast_on_line [OF assms cast_patterns_compiled(8)])
  obtain b3 e3 where 3: "CheckCStyleCast ''reinterpret_cast'' re_pointer_cast filename cl linenum = Some (b3, e3)"
    "list_all (proper_report filename linenum) e3" by (rule CheckCStyleCast_on_line [OF assms cast_patterns_compiled(9)])
  from 1 2 3 show ?thesis by (auto simp: c_style_checks_def cast_ok)
qed

definition conversion_types :: "string list" where
  "conversion_types = [''int'', ''float'', ''double'', ''bool'', ''char'', ''int32'', ''uint32'', ''int64'', ''uint64'']"

lemma conversion_group: "word_group 2 conversion_types re_conversion"
  by code_simp

lemma conversion_names_compiled:
  "list_all (\<lambda>t. re_compile (re_alias t) \<noteq> None \<and> re_compile (re_placement_new t) \<noteq> None) ([] # conversion_types)"
  by code_simp

lemma conversion_check_on_line:
  assumes "re_search (the (re_compile re_conversion)) line = Some m"
  obtains "conversion_check filename linenum line m = Some None"
  | es where "conversion_check filename linenum line m = Some (Some es)" and "list_all (proper_report filename linenum) es"
proof -
  have "group_text m 2 \<in> set ([] # conversion_types)"
    using word_group_text [OF conversion_group disjI1 [OF assms]] by (auto simp: group_text_def)
  then have "re_compile (re_alias (group_text m 2)) \<noteq> None" "re_compile (re_placement_new (group_text m 2)) \<noteq> None"
    using conversion_names_compiled unfolding list_all_iff by blast+
  then have "conversion_check filename linenum line m = Some None \<or>
      (\<exists>es. conversion_check filename linenum line m = Some (Some es) \<and> list_all (proper_report filename linenum) es)"
    by (simp add: conversion_check_def cast_ok)
  then show thesis using that by blast
qed

text \<open>A line with a cast whose address is taken, where the closing bracket of its type ends a line.\<close>

definition cut_cast :: "CleansedLines \<Rightarrow> int \<Rightarrow> bool" where
  "cut_cast cl linenum =
     (case re_match (the (re_compile re_address_open)) (elided_lines cl ! nat linenum) of
        None \<Rightarrow> False
      | Some m \<Rightarrow>
          (case CloseExpression cl linenum (length (group_text m 1)) of
             None \<Rightarrow> False
           | Some (_, y, x) \<Rightarrow> 0 \<le> x \<and> x = int (length (elided_lines cl ! nat y))))"

lemma address_open_column: "has_column re_address_open"
  by code_simp

lemma dereferenced_on_line:
  assumes "line_in cl linenum"
  shows "(\<exists>b. dereferenced cl linenum (elided_lines cl ! nat linenum) = Some b) \<and> \<not> cut_cast cl linenum \<or>
    dereferenced cl linenum (elided_lines cl ! nat linenum) = None \<and> cut_cast cl linenum"
proof (cases "re_match (the (re_compile re_address_open)) (elided_lines cl ! nat linenum)")
  case None
  with assms show ?thesis by (auto simp: dereferenced_def cut_cast_def cast_ok)
next
  case (Some m)
  obtain l y x where c: "CloseExpression cl linenum (length (group_text m 1)) = Some (l, y, x)"
    "x = - 1 \<or> line_in cl y \<and> linenum \<le> y \<and> 0 \<le> x \<and> x \<le> int (length (elided_lines cl ! nat y))"
    using CloseExpression_on_line [OF assms column_in_line [OF address_open_column Some]] by blast
  show ?thesis
  proof (cases "0 \<le> x \<and> x < int (length (elided_lines cl ! nat y))")
    case True
    then have y: "line_in cl y" "py_index (elided_lines cl ! nat y) x = Some (elided_lines cl ! nat y ! nat x)"
      using c(2) by (auto simp: py_index_in_range)
    obtain l2 y2 x2 where d: "CloseExpression cl y (nat x) = Some (l2, y2, x2)"
      "x2 = - 1 \<or> line_in cl y2 \<and> y \<le> y2 \<and> 0 \<le> x2 \<and> x2 \<le> int (length (elided_lines cl ! nat y2))"
      using CloseExpression_on_line [OF y(1), of "nat x"] True by (auto simp: nat_less_iff)
    have "line_in cl (y2 + 1)" if "line_in cl y2" "y2 < NumLines cl - 1" using that by (auto simp: line_in_def)
    with Some c(1) y d True show ?thesis
      by (auto simp: dereferenced_def cut_cast_def cast_ok)
  next
    case False
    then have "x < 0 \<or> x = int (length (elided_lines cl ! nat y)) \<and> line_in cl y" using c(2) by auto
    with Some c(1) assms show ?thesis
      by (auto simp: dereferenced_def cut_cast_def cast_ok py_index_def Let_def)
  qed
qed

lemma CheckCasts_returns:
  assumes "line_in cl linenum"
  shows "accounts_for filename linenum (CheckCasts filename cl linenum) \<or>
    cut_cast cl linenum \<and> CheckCasts filename cl linenum = None"
proof -
  let ?l = "elided_lines cl ! nat linenum"
  obtain b where b: "ExpectingFunctionArgs cl linenum = Some b" using ExpectingFunctionArgs_returns [OF assms] by blast
  obtain cs where cs: "c_style_checks b filename cl linenum = Some cs" "list_all (proper_report filename linenum) cs"
    using c_style_checks_on_line [OF assms] by (rule accounts_forE)
  have rest: "accounts_for filename linenum (do { as \<leftarrow> address_check filename cl linenum ?l; Some (es @ cs @ as) }) \<or>
      cut_cast cl linenum \<and> do { as \<leftarrow> address_check filename cl linenum ?l; Some (es @ cs @ as) } = None"
    if "list_all (proper_report filename linenum) es" for es
    using dereferenced_on_line [OF assms] cs that by (auto simp: address_check_def cast_ok split: if_splits)
  show ?thesis
  proof (cases "re_search (the (re_compile re_conversion)) ?l")
    case None
    with assms b cs rest [of "[]"] show ?thesis by (simp add: CheckCasts_def cast_ok)
  next
    case (Some m)
    show ?thesis
      by (rule conversion_check_on_line [OF Some, of filename linenum]; cases b)
        (use assms b cs rest rest [of "[]"] Some in \<open>simp_all add: CheckCasts_def cast_ok\<close>)
  qed
qed

text \<open>
  C39. The check of casts returns proper reports on every line, with one exception: where the address is
  taken of a cast and the closing bracket of the cast's type is the last character of its line the
  check may raise an \<^verbatim>\<open>IndexError\<close>, because it reads the character after the bracket.
\<close>

theorem CheckCasts_on_line:
  assumes "line_in cl linenum"
  shows "accounts_for filename linenum (CheckCasts filename cl linenum) \<or>
    cut_cast cl linenum \<and> CheckCasts filename cl linenum = None"
  using assms by (rule CheckCasts_returns)

theorem CheckCasts_on_line_witness:
  "cut_cast (plain_file [[], ''  f(&static_cast<int*>'', ''      (p));'']) 1 \<and>
   CheckCasts ''a.cc'' (plain_file [[], ''  f(&static_cast<int*>'', ''      (p));'']) 1 = None"
proof -
  let ?cl = "plain_file [[], ''  f(&static_cast<int*>'', ''      (p));'']"
  have "CheckCasts ''a.cc'' ?cl 1 = None" by code_simp
  moreover have "line_in ?cl 1" by (simp add: plain_file_line)
  ultimately show ?thesis using CheckCasts_on_line [of ?cl 1 "''a.cc''"] by (simp add: accounts_for_def)
qed

end
