(* ===== verification/ConstructChecks.thy ===== *)
theory ConstructChecks
  imports CastChecks
begin

text \<open>
  \<^verbatim>\<open>CheckForNonStandardConstructs\<close> of \<^verbatim>\<open>script/cpplint.py\<close>: storage classes, formats, forward
  declarations, and the constructors of the class the line is in. The arguments of a constructor are
  split at the commas and joined again where a comma is inside brackets; the loop that joins them reads
  past the end of the list when the brackets of the last argument do not balance, as in a default value
  with a shift. It is shown what the loop returns when it returns, and that the check keeps the contract
  of a line check on all lines where it does.
\<close>

section \<open>The check\<close>

definition re_printf_q :: string where
  \<open>re_printf_q = raw ''printf`s*`(.*".*%[-+ ]?`d*q''\<close>

definition re_printf_position :: string where
  \<open>re_printf_position = raw ''printf`s*`(.*".*%`d+`$''\<close>

definition re_undefined_escape :: string where
  \<open>re_undefined_escape = raw ''("|'' @ single_quote @ raw '').*``(%|`[|`(|{)''\<close>

definition re_storage_class :: string where
  "re_storage_class = raw ''`b(const|volatile|void|char|short|int|long|float|double|signed|unsigned|schar|u?int8|u?int16|u?int32|u?int64)`s+(register|static|extern|typedef)`b''"

definition re_endif_text :: string where
  "re_endif_text = raw ''`s*#`s*endif`s*[^/`s]+''"

definition re_inner_forward :: string where
  "re_inner_forward = raw ''`s*class`s+(`w+`s*::`s*)+`w+`s*;''"

definition re_min_max :: string where
  "re_min_max = raw ''(`w+|[+-]?`d+(`.`d*)?)`s*(<|>)`?=?`s*(`w+|[+-]?`d+)(`.`d*)?''"

definition re_string_member :: string where
  "re_string_member = raw ''^`s*const`s*string`s*&`s*`w+`s*;''"

definition re_initializer_list :: string where
  "re_initializer_list = raw ''`bstd`s*::`s*initializer_list`b''"

lemma construct_patterns_compiled [re_compiled]:
  "re_compile re_printf_q \<noteq> None"
  "re_compile re_printf_position \<noteq> None"
  "re_compile re_undefined_escape \<noteq> None"
  "re_compile re_storage_class \<noteq> None"
  "re_compile re_endif_text \<noteq> None"
  "re_compile re_inner_forward \<noteq> None"
  "re_compile re_min_max \<noteq> None"
  "re_compile re_string_member \<noteq> None"
  "re_compile re_initializer_list \<noteq> None"
  by code_simp+

text \<open>\<^verbatim>\<open>s.split('::')\<close>.\<close>

fun split_colons :: "string \<Rightarrow> string list" where
  "split_colons [] = [[]]"
| "split_colons (c # cs) =
     (if c = CHR '':'' \<and> startswith cs '':'' then [] # split_colons (drop 1 cs)
      else case split_colons cs of [] \<Rightarrow> [[c]] | w # ws \<Rightarrow> (c # w) # ws)"

definition re_constructor :: "string \<Rightarrow> string" where
  "re_constructor base_classname =
     raw ''`s+(?:inline`s+)?(explicit`s+)?(?:inline`s+)?'' @ re_escape base_classname @
     raw ''`s*`(((?:[^()]|`([^()]*`))*)`)''"

definition re_copy_argument :: "string \<Rightarrow> string" where
  "re_copy_argument base_classname =
     raw ''(const`s+)?'' @ re_escape base_classname @ raw ''(`s*<[^>]*>)?(`s+const)?`s*(?:<`w+>`s*)?&''"

text \<open>
  The loop over the arguments. The inner loop appends the next argument as long as a bracket of the
  current one is open, and raises \<^verbatim>\<open>IndexError\<close> when there is no next argument.
\<close>

definition open_bracket :: "string \<Rightarrow> bool" where
  "open_bracket arg \<longleftrightarrow> py_count arg ''<'' > py_count arg ''>'' \<or> py_count arg ''('' > py_count arg '')''"

fun collapse_arguments :: "string \<Rightarrow> string list \<Rightarrow> string list py" where
  "collapse_arguments constructor_arg [] = (if open_bracket constructor_arg then raise else Some [constructor_arg])"
| "collapse_arguments constructor_arg (arg # constructor_args) =
     (if open_bracket constructor_arg then collapse_arguments (constructor_arg @ '','' @ arg) constructor_args
      else map_option (\<lambda>args. constructor_arg # args) (collapse_arguments arg constructor_args))"

definition constructor_arguments :: "string \<Rightarrow> string list py" where
  "constructor_arguments parameters =
     (if parameters = [] then Some []
      else case split_on (CHR '','') parameters of
        [] \<Rightarrow> Some []
      | arg # args \<Rightarrow> collapse_arguments arg args)"

definition explicit_check :: "string \<Rightarrow> int \<Rightarrow> string \<Rightarrow> rmatch \<Rightarrow> event list py" where
  "explicit_check filename linenum base_classname m = do {
     let is_marked_explicit = (group_text m 1 \<noteq> []);
     constructor_args \<leftarrow> constructor_arguments (group_text m 2);
     let defaulted_args = filter (\<lambda>arg. contains arg ''='') constructor_args;
     let noarg_constructor = (constructor_args = [] \<or>
           length constructor_args = 1 \<and> py_strip (constructor_args ! 0) = ''void'');
     let onearg_constructor = (length constructor_args = 1 \<and> \<not> noarg_constructor \<or>
           length constructor_args \<ge> 1 \<and> \<not> noarg_constructor \<and>
             int (length defaulted_args) \<ge> int (length constructor_args) - 1);
     initializer_list_constructor \<leftarrow> and_then (Some onearg_constructor)
       (do { arg \<leftarrow> py_index constructor_args 0; Searches re_initializer_list arg });
     copy_constructor \<leftarrow> and_then (Some onearg_constructor)
       (do { arg \<leftarrow> py_index constructor_args 0; Matches (re_copy_argument base_classname) (py_strip arg) });
     Some (if \<not> is_marked_explicit \<and> onearg_constructor \<and> \<not> initializer_list_constructor \<and> \<not> copy_constructor
           then [if defaulted_args \<noteq> []
                 then Report filename linenum ''runtime/explicit'' 5
                   ''Constructors callable with one argument should be marked explicit.''
                 else Report filename linenum ''runtime/explicit'' 5
                   ''Single-parameter constructors should be marked explicit.'']
           else if is_marked_explicit \<and> \<not> onearg_constructor
           then [if noarg_constructor
                 then Report filename linenum ''runtime/explicit'' 5
                   ''Zero-parameter constructors should not be marked explicit.''
                 else Report filename linenum ''runtime/explicit'' 0
                   ''Constructors that require multiple arguments should not be marked explicit.'']
           else [])
   }"

definition base_classname :: "class_info \<Rightarrow> string" where
  "base_classname c = last (split_colons (class_name c))"

definition constructor_check :: "NestingState \<Rightarrow> string \<Rightarrow> int \<Rightarrow> string \<Rightarrow> event list py" where
  "constructor_check st filename linenum line =
     (case InnermostClass st of
        None \<Rightarrow> Some []
      | Some b \<Rightarrow>
          if \<not> seen_open_brace b then Some []
          else (case kind b of
            ClassInfo c \<Rightarrow> do {
              m \<leftarrow> Match (re_constructor (base_classname c)) line;
              (case m of None \<Rightarrow> Some [] | Some m \<Rightarrow> explicit_check filename linenum (base_classname c) m)
            }
          | _ \<Rightarrow> Some []))"

definition CheckForNonStandardConstructs :: "NestingState \<Rightarrow> string \<Rightarrow> CleansedLines \<Rightarrow> int \<Rightarrow> event list py" where
  "CheckForNonStandardConstructs st filename clean_lines linenum = do {
     line \<leftarrow> py_index (cleansed_lines clean_lines) linenum;
     q \<leftarrow> Searches re_printf_q line;
     position \<leftarrow> Searches re_printf_position line;
     undefined_escape \<leftarrow> Searches re_undefined_escape (py_replace line [backslash, backslash] []);
     line \<leftarrow> elided clean_lines linenum;
     storage \<leftarrow> Searches re_storage_class line;
     endif_text \<leftarrow> Matches re_endif_text line;
     inner \<leftarrow> Matches re_inner_forward line;
     min_max \<leftarrow> Searches re_min_max line;
     member \<leftarrow> Searches re_string_member line;
     constructors \<leftarrow> constructor_check st filename linenum line;
     Some (report_if q (Report filename linenum ''runtime/printf_format'' 3
             ''%q in format strings is deprecated.  Use %ll instead.'') @
           report_if position (Report filename linenum ''runtime/printf_format'' 2
             ''%N$ formats are unconventional.  Try rewriting to avoid them.'') @
           report_if undefined_escape (Report filename linenum ''build/printf_format'' 3
             ''%, [, (, and { are undefined character escapes.  Unescape them.'') @
           report_if storage (Report filename linenum ''build/storage_class'' 5
             ''Storage class (static, extern, typedef, etc) should be first.'') @
           report_if endif_text (Report filename linenum ''build/endif_comment'' 5
             ''Uncommented text after #endif is non-standard.  Use a comment.'') @
           report_if inner (Report filename linenum ''build/forward_decl'' 5
             ''Inner-style forward declarations are invalid.  Remove this line.'') @
           report_if min_max (Report filename linenum ''build/deprecated'' 3
             ''>? and <? (max and min) operators are non-standard and deprecated.'') @
           report_if member (Report filename linenum ''runtime/member_string_references'' 2
             ''const string& members are dangerous. It is much better to use alternatives, such as pointers or simple constants.'') @
           constructors)
   }"

section \<open>Joining the arguments\<close>

lemma py_join_Cons: "ws \<noteq> [] \<Longrightarrow> py_join sep (w # ws) = w @ sep @ py_join sep ws"
  by (cases ws) simp_all

lemma collapse_arguments_Some:
  "collapse_arguments arg args = Some r \<Longrightarrow>
     r \<noteq> [] \<and> list_all (\<lambda>a. \<not> open_bracket a) r \<and> py_join '','' r = py_join '','' (arg # args)"
proof (induction arg args arbitrary: r rule: collapse_arguments.induct)
  case (1 arg)
  then show ?case by (auto split: if_splits)
next
  case (2 cur arg args)
  show ?case
  proof (cases "open_bracket cur")
    case True
    with 2 have "r \<noteq> [] \<and> list_all (\<lambda>a. \<not> open_bracket a) r \<and> py_join '','' r = py_join '','' ((cur @ '','' @ arg) # args)"
      by simp
    then show ?thesis by (cases args) auto
  next
    case False
    with "2.prems" obtain r' where r: "r = cur # r'" "collapse_arguments arg args = Some r'" by auto
    with "2.IH"(2) [OF False r(2)] False show ?thesis by (simp add: py_join_Cons)
  qed
qed

lemma collapse_arguments_None:
  "collapse_arguments arg args = None \<Longrightarrow> \<exists>k. open_bracket (py_join '','' (drop k (arg # args)))"
proof (induction arg args rule: collapse_arguments.induct)
  case (1 arg)
  then show ?case by (auto intro: exI [of _ 0] split: if_splits)
next
  case (2 cur arg args)
  show ?case
  proof (cases "open_bracket cur")
    case True
    with 2 obtain k where k: "open_bracket (py_join '','' (drop k ((cur @ '','' @ arg) # args)))" by auto
    show ?thesis
    proof (cases k)
      case 0
      with k show ?thesis by (intro exI [of _ 0]) (cases args; simp)
    next
      case (Suc n)
      with k show ?thesis by (intro exI [of _ "Suc (Suc n)"]) simp
    qed
  next
    case False
    with 2 obtain k where "open_bracket (py_join '','' (drop k (arg # args)))" by auto
    then show ?thesis by (intro exI [of _ "Suc k"]) simp
  qed
qed

text \<open>
  Joining the arguments of a constructor loses nothing: the arguments joined with commas are the text
  between the parentheses, and none of them has more opening than closing brackets. The loop raises only
  when a tail of the arguments has more opening than closing brackets.
\<close>

theorem constructor_arguments_joined:
  "case constructor_arguments parameters of
     Some args \<Rightarrow> py_join '','' args = parameters \<and> list_all (\<lambda>a. \<not> open_bracket a) args
   | None \<Rightarrow> \<exists>k. open_bracket (py_join '','' (drop k (split_on (CHR '','') parameters)))"
proof (cases "parameters = []")
  case True
  then show ?thesis by (simp add: constructor_arguments_def)
next
  case False
  obtain arg args where s: "split_on (CHR '','') parameters = arg # args"
    using split_on_nonempty by (metis neq_Nil_conv)
  show ?thesis
    using False s collapse_arguments_Some [of arg args] collapse_arguments_None [of arg args]
      py_join_split_on [of "CHR '',''" parameters]
    by (auto simp: constructor_arguments_def split: option.splits)
qed

section \<open>The contract\<close>

definition name_char :: "char \<Rightarrow> bool" where
  "name_char c \<longleftrightarrow> re_word c \<or> c = CHR '':''"

lemma name_char_plain: "name_char c \<Longrightarrow> plain_char c"
proof -
  have "list_all (\<lambda>c. \<not> name_char c) (backslash # ''.^$|()[*+?{'')" by code_simp
  then show "name_char c \<Longrightarrow> plain_char c" by (auto simp: list_all_iff plain_char_def)
qed

lemma next_tok_plain: "plain_char c \<Longrightarrow> next_tok c s = Some (TItem (RChar c), s)"
  by (simp add: plain_char_def next_tok_def)

lemma tokens_escape:
  "list_all name_char w \<Longrightarrow>
     tokens (re_escape w @ s) = map_option (\<lambda>ts. map (\<lambda>c. TItem (RChar c)) w @ ts) (tokens s)"
proof (induction w)
  case Nil
  then show ?case by (cases "tokens s") (simp_all add: re_escape_def)
next
  case (Cons a w)
  have e: "re_escape (a # w) = (if re_word a \<and> a \<noteq> CHR ''_'' then [a] else [backslash, a]) @ re_escape w"
    by (simp add: re_escape_def)
  have "tokens (re_escape (a # w) @ s) = map_option (\<lambda>ts. TItem (RChar a) # ts) (tokens (re_escape w @ s))"
  proof (cases "re_word a \<and> a \<noteq> CHR ''_''")
    case True
    with Cons.prems show ?thesis by (simp add: e next_tok_plain name_char_plain)
  next
    case False
    then have "a = CHR ''_'' \<or> a = CHR '':''" using Cons.prems by (auto simp: name_char_def)
    moreover have "escape_tok (CHR ''_'') = Some (TItem (RChar (CHR ''_'')))" "escape_tok (CHR '':'') = Some (TItem (RChar (CHR '':'')))"
      by code_simp+
    ultimately have "escape_tok a = Some (TItem (RChar a))" by auto
    then have "next_tok backslash (a # u) = Some (TItem (RChar a), u)" for u by (simp add: next_tok_def)
    with False show ?thesis unfolding e by auto
  qed
  with Cons show ?case by (simp add: option.map_comp comp_def)
qed

lemma escape_head: "list_all name_char w \<Longrightarrow> c \<noteq> CHR ''?'' \<Longrightarrow> hd (re_escape w @ c # s) \<noteq> CHR ''?''"
  using name_char_plain by (cases w) (auto simp: re_escape_def plain_char_def backslash_def)

abbreviation space_set :: re where
  "space_set \<equiv> RSet False [ItemCat CatSpace]"

lemma constructor_prefix:
  "tokens (raw ''`s+(?:inline`s+)?(explicit`s+)?(?:inline`s+)?'') = Some (
     [TItem space_set, TQuant 1 None True] @
     [TOpenNoCapture] @ map (\<lambda>c. TItem (RChar c)) ''inline'' @ [TItem space_set, TQuant 1 None True, TClose, TQuant 0 (Some 1) True] @
     [TOpen] @ map (\<lambda>c. TItem (RChar c)) ''explicit'' @ [TItem space_set, TQuant 1 None True, TClose, TQuant 0 (Some 1) True] @
     [TOpenNoCapture] @ map (\<lambda>c. TItem (RChar c)) ''inline'' @ [TItem space_set, TQuant 1 None True, TClose, TQuant 0 (Some 1) True])"
  by code_simp

lemma constructor_suffix:
  "tokens (raw ''`s*`(((?:[^()]|`([^()]*`))*)`)'') = Some (
     [TItem space_set, TQuant 0 None True, TItem (RChar (CHR ''('')), TOpen, TOpenNoCapture,
      TItem (RSet True [ItemChar (CHR ''(''), ItemChar (CHR '')'')]), TBar, TItem (RChar (CHR ''('')),
      TItem (RSet True [ItemChar (CHR ''(''), ItemChar (CHR '')'')]), TQuant 0 None True, TItem (RChar (CHR '')'')),
      TClose, TQuant 0 None True, TClose, TItem (RChar (CHR '')''))])"
  by code_simp

lemma copy_prefix:
  "tokens (raw ''(const`s+)?'') = Some ([TOpen] @ map (\<lambda>c. TItem (RChar c)) ''const'' @
     [TItem space_set, TQuant 1 None True, TClose, TQuant 0 (Some 1) True])"
  by code_simp

lemma copy_suffix:
  "tokens (raw ''(`s*<[^>]*>)?(`s+const)?`s*(?:<`w+>`s*)?&'') = Some (
     [TOpen, TItem space_set, TQuant 0 None True, TItem (RChar (CHR ''<'')),
      TItem (RSet True [ItemChar (CHR ''>'')]), TQuant 0 None True, TItem (RChar (CHR ''>'')), TClose, TQuant 0 (Some 1) True,
      TOpen, TItem space_set, TQuant 1 None True] @ map (\<lambda>c. TItem (RChar c)) ''const'' @
     [TClose, TQuant 0 (Some 1) True, TItem space_set, TQuant 0 None True,
      TOpenNoCapture, TItem (RChar (CHR ''<'')), TItem (RSet False [ItemCat CatWord]), TQuant 1 None True,
      TItem (RChar (CHR ''>'')), TItem space_set, TQuant 0 None True, TClose, TQuant 0 (Some 1) True, TItem (RChar (CHR ''&''))])"
  by code_simp

lemma no_sets: "list_all (\<lambda>c. c \<noteq> CHR ''{'' \<and> c \<noteq> CHR ''['') (raw ''`s+(?:inline`s+)?(explicit`s+)?(?:inline`s+)?'')"
  "list_all (\<lambda>c. c \<noteq> CHR ''{'' \<and> c \<noteq> CHR ''['') (raw ''(const`s+)?'')"
  by code_simp+

lemma class_patterns_compiled:
  assumes "list_all name_char w"
  shows "re_compile (re_constructor w) \<noteq> None" and "re_compile (re_copy_argument w) \<noteq> None"
proof -
  have raws: "raw ''`s*`(((?:[^()]|`([^()]*`))*)`)'' = backslash # raw ''s*`(((?:[^()]|`([^()]*`))*)`)''"
    "raw ''(`s*<[^>]*>)?(`s+const)?`s*(?:<`w+>`s*)?&'' = CHR ''('' # raw ''`s*<[^>]*>)?(`s+const)?`s*(?:<`w+>`s*)?&''"
    by (simp_all add: raw_def)
  have heads: "hd (re_escape w @ raw ''`s*`(((?:[^()]|`([^()]*`))*)`)'') \<noteq> CHR ''?''"
    "hd (re_escape w @ raw ''(`s*<[^>]*>)?(`s+const)?`s*(?:<`w+>`s*)?&'') \<noteq> CHR ''?''"
    unfolding raws using escape_head [OF assms] by (simp_all add: backslash_def)
  show "re_compile (re_constructor w) \<noteq> None"
    unfolding re_compile_def re_constructor_def tokens_append [OF constructor_prefix no_sets(1) disjI2 [OF heads(1)]]
      tokens_escape [OF assms] constructor_suffix
    by (simp add: parse_toks_literal repeatable_def close_group_def)
  show "re_compile (re_copy_argument w) \<noteq> None"
    unfolding re_compile_def re_copy_argument_def tokens_append [OF copy_prefix no_sets(2) disjI2 [OF heads(2)]]
      tokens_escape [OF assms] copy_suffix
    by (simp add: parse_toks_literal repeatable_def close_group_def)
qed

lemma listed_constructs [accounting]:
  "''runtime/printf_format'' \<in> set ERROR_CATEGORIES" "''build/printf_format'' \<in> set ERROR_CATEGORIES"
  "''build/storage_class'' \<in> set ERROR_CATEGORIES" "''build/endif_comment'' \<in> set ERROR_CATEGORIES"
  "''build/forward_decl'' \<in> set ERROR_CATEGORIES" "''build/deprecated'' \<in> set ERROR_CATEGORIES"
  "''runtime/member_string_references'' \<in> set ERROR_CATEGORIES" "''runtime/explicit'' \<in> set ERROR_CATEGORIES"
  by code_simp+

lemmas construct_ok = cast_ok construct_patterns_compiled listed_constructs

text \<open>The names of the classes that are open consist of identifiers and colons.\<close>

definition class_names_ok :: "NestingState \<Rightarrow> bool" where
  "class_names_ok st = list_all (\<lambda>b. case kind b of ClassInfo c \<Rightarrow> list_all name_char (class_name c) | _ \<Rightarrow> True)
     (nesting_stack st)"

lemma split_colons_chars: "w \<in> set (split_colons s) \<Longrightarrow> set w \<subseteq> set s"
  by (induction s arbitrary: w rule: split_colons.induct)
    (auto split: if_splits list.splits dest: in_set_dropD, (fastforce dest: in_set_dropD)+)

lemma split_colons_nonempty: "split_colons s \<noteq> []"
  by (induction s rule: split_colons.induct) (auto split: list.splits)

lemma base_classname_ok: "list_all name_char (class_name c) \<Longrightarrow> list_all name_char (base_classname c)"
  using split_colons_chars [OF last_in_set [OF split_colons_nonempty, of "class_name c"]]
  by (auto simp: base_classname_def list_all_iff)

text \<open>
  The line declares a constructor of the innermost class, and the brackets of its last arguments do not
  balance.
\<close>

definition unbalanced_constructor :: "NestingState \<Rightarrow> string \<Rightarrow> bool" where
  "unbalanced_constructor st line =
     (case InnermostClass st of
        Some b \<Rightarrow>
          (case kind b of
             ClassInfo c \<Rightarrow>
               seen_open_brace b \<and>
               (case re_match (the (re_compile (re_constructor (base_classname c)))) line of
                  Some m \<Rightarrow> constructor_arguments (group_text m 2) = None | None \<Rightarrow> False)
           | _ \<Rightarrow> False)
      | None \<Rightarrow> False)"

lemma explicit_check_on_line:
  assumes "list_all name_char w" and "constructor_arguments (group_text m 2) = Some args"
  shows "accounts_for filename linenum (explicit_check filename linenum w m)"
  using assms(2) class_patterns_compiled [OF assms(1)]
  by (cases args) (simp_all add: explicit_check_def construct_ok py_index_def)

lemma constructor_check_on_line:
  assumes "class_names_ok st"
  shows "accounts_for filename linenum (constructor_check st filename linenum line) \<and> \<not> unbalanced_constructor st line \<or>
    constructor_check st filename linenum line = None \<and> unbalanced_constructor st line"
proof (cases "InnermostClass st")
  case None
  then show ?thesis by (simp add: constructor_check_def unbalanced_constructor_def accounting)
next
  case (Some b)
  then have "b \<in> set (nesting_stack st)" "is_class b" by (auto simp: InnermostClass_def find_Some_iff)
  then obtain c where c: "kind b = ClassInfo c" "list_all name_char (class_name c)"
    using assms by (auto simp: class_names_ok_def list_all_iff is_class_def split: block_kind.splits)
  note names = base_classname_ok [OF c(2)]
  let ?m = "re_match (the (re_compile (re_constructor (base_classname c)))) line"
  show ?thesis
  proof (cases "seen_open_brace b \<and> ?m \<noteq> None")
    case True
    then obtain m where m: "?m = Some m" by blast
    show ?thesis
      using Some c True m explicit_check_on_line [OF names, of m] class_patterns_compiled [OF names]
      by (cases "constructor_arguments (group_text m 2)")
        (simp_all add: constructor_check_def unbalanced_constructor_def construct_ok, simp add: explicit_check_def)
  next
    case False
    with Some c class_patterns_compiled [OF names] show ?thesis
      by (auto simp: constructor_check_def unbalanced_constructor_def construct_ok)
  qed
qed

lemma CheckForNonStandardConstructs_returns:
  assumes "line_in cl linenum" and "class_names_ok st"
  shows "if unbalanced_constructor st (elided_lines cl ! nat linenum)
    then CheckForNonStandardConstructs st filename cl linenum = None
    else accounts_for filename linenum (CheckForNonStandardConstructs st filename cl linenum)"
  using constructor_check_on_line [OF assms(2), of filename linenum "elided_lines cl ! nat linenum"] assms(1)
  by (auto simp: CheckForNonStandardConstructs_def construct_ok cleansed_ok elim!: accounts_forE)


definition inside_class :: NestingState where
  "inside_class = init_NestingState\<lparr>nesting_stack := [new_block 0 True (ClassInfo
     \<lparr>class_name = ''Foo'', class_starting_linenum = 1, is_derived = False, access = ''private'', is_struct = False,
      class_indent = 0, last_line = 3\<rparr>)]\<rparr>"


end
