(* ===== verification/IncludeChecks.thy ===== *)
theory IncludeChecks
  imports LineChecks FileInfo IncludeState
begin

text \<open>
  The checks of includes in \<^verbatim>\<open>script/cpplint.py\<close>: what kind of header an include names, the
  rules for one include line, and the headers a file should include for what it uses. The file
  system is the environment of \<open>FileInfo\<close> and a function that opens a file; the order in which
  Python 2 runs through a dictionary is a parameter.
\<close>

section \<open>Kinds of headers\<close>

definition CPP_HEADERS :: "string list" where
  "CPP_HEADERS = [
    ''algobase.h'', ''algo.h'', ''alloc.h'', ''builtinbuf.h'', ''bvector.h'', ''complex.h'',
    ''defalloc.h'', ''deque.h'', ''editbuf.h'', ''fstream.h'', ''function.h'', ''hash_map'',
    ''hash_map.h'', ''hash_set'', ''hash_set.h'', ''hashtable.h'', ''heap.h'', ''indstream.h'',
    ''iomanip.h'', ''iostream.h'', ''istream.h'', ''iterator.h'', ''list.h'', ''map.h'', ''multimap.h'',
    ''multiset.h'', ''ostream.h'', ''pair.h'', ''parsestream.h'', ''pfstream.h'', ''procbuf.h'',
    ''pthread_alloc'', ''pthread_alloc.h'', ''rope'', ''rope.h'', ''ropeimpl.h'', ''set.h'', ''slist'',
    ''slist.h'', ''stack.h'', ''stdiostream.h'', ''stl_alloc.h'', ''stl_relops.h'', ''streambuf.h'',
    ''stream.h'', ''strfile.h'', ''strstream.h'', ''tempbuf.h'', ''tree.h'', ''type_traits.h'',
    ''vector.h'', ''algorithm'', ''array'', ''atomic'', ''bitset'', ''chrono'', ''codecvt'',
    ''complex'', ''condition_variable'', ''deque'', ''exception'', ''forward_list'', ''fstream'',
    ''functional'', ''future'', ''initializer_list'', ''iomanip'', ''ios'', ''iosfwd'', ''iostream'',
    ''istream'', ''iterator'', ''limits'', ''list'', ''locale'', ''map'', ''memory'', ''mutex'',
    ''new'', ''numeric'', ''ostream'', ''queue'', ''random'', ''ratio'', ''regex'', ''set'',
    ''sstream'', ''stack'', ''stdexcept'', ''streambuf'', ''string'', ''strstream'', ''system_error'',
    ''thread'', ''tuple'', ''typeindex'', ''typeinfo'', ''type_traits'', ''unordered_map'',
    ''unordered_set'', ''utility'', ''valarray'', ''vector'', ''cassert'', ''ccomplex'', ''cctype'',
    ''cerrno'', ''cfenv'', ''cfloat'', ''cinttypes'', ''ciso646'', ''climits'', ''clocale'', ''cmath'',
    ''csetjmp'', ''csignal'', ''cstdalign'', ''cstdarg'', ''cstdbool'', ''cstddef'', ''cstdint'',
    ''cstdio'', ''cstdlib'', ''cstring'', ''ctgmath'', ''ctime'', ''cuchar'', ''cwchar'', ''cwctype'']"

definition THIRD_PARTY_HEADERS_PATTERN :: string where
  "THIRD_PARTY_HEADERS_PATTERN = raw ''^(?:[^/]*[A-Z][^/]*`.h|lua`.h|lauxlib`.h|lualib`.h)$''"

definition RE_FIRST_COMPONENT :: string where
  "RE_FIRST_COMPONENT = ''^[^-_.]+''"

fun drop_suffix_loop :: "string \<Rightarrow> string list \<Rightarrow> string py" where
  "drop_suffix_loop filename [] = Some (fst (splitext filename))"
| "drop_suffix_loop filename (ending # endings) = do {
     dropped \<leftarrow> (if endswith filename ending \<and> length filename > length ending
       then do {
         c \<leftarrow> py_index filename (- int (length ending) - 1);
         Some (c \<in> {CHR ''-'', CHR ''_''})
       }
       else Some False);
     if dropped then Some (py_upto filename (- int (length ending) - 1))
     else drop_suffix_loop filename endings
   }"

definition DropCommonSuffixes :: "string \<Rightarrow> string py" where
  "DropCommonSuffixes filename =
     drop_suffix_loop filename [''test.cc'', ''regtest.cc'', ''unittest.cc'', ''inl.h'', ''impl.h'', ''internal.h'']"

definition IsTestFilename :: "string \<Rightarrow> bool" where
  "IsTestFilename filename \<longleftrightarrow>
     endswith filename ''_test.cc'' \<or> endswith filename ''_unittest.cc'' \<or> endswith filename ''_regtest.cc''"

definition ClassifyInclude :: "os \<Rightarrow> string \<Rightarrow> string \<Rightarrow> bool \<Rightarrow> header_type py" where
  "ClassifyInclude env filename include is_system =
     (if is_system then Some (if include \<in> set CPP_HEADERS then CPP_SYS_HEADER else C_SYS_HEADER)
      else do {
        name \<leftarrow> RepositoryName env filename;
        target \<leftarrow> DropCommonSuffixes name;
        included \<leftarrow> DropCommonSuffixes include;
        let (target_dir, target_base) = path_split target;
        let (include_dir, include_base) = path_split included;
        if target_base = include_base \<and>
           (include_dir = target_dir \<or> include_dir = normpath (target_dir @ ''/../public''))
        then Some LIKELY_MY_HEADER
        else do {
          target_first_component \<leftarrow> Match RE_FIRST_COMPONENT target_base;
          include_first_component \<leftarrow> Match RE_FIRST_COMPONENT include_base;
          Some (case (target_first_component, include_first_component) of
                  (Some t, Some i) \<Rightarrow> if group_text t 0 = group_text i 0 then POSSIBLE_MY_HEADER else OTHER_HEADER
                | _ \<Rightarrow> OTHER_HEADER)
        }
      })"

section \<open>One include line\<close>

definition re_bare_header :: string where
  \<open>re_bare_header = raw ''#include`s*"([^/]+`.h)"''\<close>

text \<open>A header that is neither a duplicate nor excluded is recorded, and its place in the file is judged.\<close>

definition record_include ::
    "os \<Rightarrow> string \<Rightarrow> CleansedLines \<Rightarrow> int \<Rightarrow> string \<Rightarrow> bool \<Rightarrow> IncludeState \<Rightarrow> (IncludeState \<times> event list) py" where
  "record_include env filename clean_lines linenum include is_system st = do {
     st \<leftarrow> append_include include linenum st;
     header_type \<leftarrow> ClassifyInclude env filename include is_system;
     let (error_message, st) = CheckNextIncludeOrder header_type st;
     order \<leftarrow> (if error_message \<noteq> []
       then do {
         base_name \<leftarrow> BaseName env filename;
         Some [Report filename linenum ''build/include_order'' 4
                 (error_message @ ''. Should be: '' @ base_name @ ''.h, c system, c++ system, other.'')]
       }
       else Some []);
     let canonical_include = CanonicalizeAlphabeticalOrder include;
     in_order \<leftarrow> IsInAlphabeticalOrder st (elided_lines clean_lines) linenum canonical_include;
     let alpha = report_if (\<not> in_order)
       (Report filename linenum ''build/include_alpha'' 4
          ((''Include '' @ double_quote) @ include @ (double_quote @ '' not in alphabetical order'')));
     Some (SetLastHeader canonical_include st, order @ alpha)
   }"

definition CheckIncludeLine ::
    "os \<Rightarrow> string \<Rightarrow> CleansedLines \<Rightarrow> int \<Rightarrow> IncludeState \<Rightarrow> (IncludeState \<times> event list) py" where
  "CheckIncludeLine env filename clean_lines linenum st = do {
     line \<leftarrow> py_index (cleansed_lines clean_lines) linenum;
     m \<leftarrow> Match re_bare_header line;
     bare \<leftarrow> (case m of
        None \<Rightarrow> Some []
      | Some m \<Rightarrow> do {
          third_party \<leftarrow> Matches THIRD_PARTY_HEADERS_PATTERN (group_text m 1);
          Some (report_if (\<not> third_party)
            (Report filename linenum ''build/include'' 4 ''Include the directory when naming .h files''))
        });
     m \<leftarrow> Search RE_PATTERN_INCLUDE line;
     (case m of
        None \<Rightarrow> Some (st, bare)
      | Some m \<Rightarrow> do {
          let include = group_text m 2;
          let is_system = (group_text m 1 = ''<'');
          let duplicate_line = FindHeader st include;
          if duplicate_line \<ge> 0
          then Some (st, bare @ [Report filename linenum ''build/include'' 4
                 (double_quote @ include @ (double_quote @ '' already included at '') @ filename @ '':'' @ str_of_int duplicate_line)])
          else do {
            name \<leftarrow> (if endswith include ''.cc'' then RepositoryName env filename else Some []);
            if endswith include ''.cc'' \<and> dirname name \<noteq> dirname include
            then Some (st, bare @ [Report filename linenum ''build/include'' 4
                   ''Do not include .cc files from other packages''])
            else do {
              third_party \<leftarrow> Matches THIRD_PARTY_HEADERS_PATTERN include;
              if third_party then Some (st, bare)
              else do {
                (st, es) \<leftarrow> record_include env filename clean_lines linenum include is_system st;
                Some (st, bare @ es)
              }
            }
          }
        })
   }"
lemma include_patterns_compiled [re_compiled]:
  "re_compile THIRD_PARTY_HEADERS_PATTERN \<noteq> None"
  "re_compile RE_FIRST_COMPONENT \<noteq> None"
  "re_compile re_bare_header \<noteq> None"
  by code_simp+

section \<open>Include what you use\<close>

definition HEADERS_CONTAINING_TEMPLATES :: "(string \<times> string list) list" where
  "HEADERS_CONTAINING_TEMPLATES = [
    (''<deque>'', [''deque'']),
    (''<functional>'', [''unary_function'', ''binary_function'', ''plus'', ''minus'', ''multiplies'', ''divides'', ''modulus'', ''negate'', ''equal_to'', ''not_equal_to'', ''greater'', ''less'', ''greater_equal'', ''less_equal'', ''logical_and'', ''logical_or'', ''logical_not'', ''unary_negate'', ''not1'', ''binary_negate'', ''not2'', ''bind1st'', ''bind2nd'', ''pointer_to_unary_function'', ''pointer_to_binary_function'', ''ptr_fun'', ''mem_fun_t'', ''mem_fun'', ''mem_fun1_t'', ''mem_fun1_ref_t'', ''mem_fun_ref_t'', ''const_mem_fun_t'', ''const_mem_fun1_t'', ''const_mem_fun_ref_t'', ''const_mem_fun1_ref_t'', ''mem_fun_ref'']),
    (''<limits>'', [''numeric_limits'']), (''<list>'', [''list'']),
    (''<map>'', [''map'', ''multimap'']), (''<memory>'', [''allocator'']),
    (''<queue>'', [''queue'', ''priority_queue'']), (''<set>'', [''set'', ''multiset'']),
    (''<stack>'', [''stack'']), (''<string>'', [''char_traits'', ''basic_string'']),
    (''<tuple>'', [''tuple'']), (''<utility>'', [''pair'']), (''<vector>'', [''vector'']),
    (''<hash_map>'', [''hash_map'', ''hash_multimap'']),
    (''<hash_set>'', [''hash_set'', ''hash_multiset'']), (''<slist>'', [''slist''])]"

definition RE_PATTERN_STRING :: string where
  "RE_PATTERN_STRING = raw ''`bstring`b''"

definition re_flymake_cc :: string where
  "re_flymake_cc = raw ''_flymake`.cc$''"

definition algorithms :: "string list" where
  "algorithms = [''copy'', ''max'', ''min'', ''min_element'', ''sort'', ''swap'', ''transform'']"

text \<open>A pattern, the name it stands for and the header that declares it.\<close>

definition re_pattern_algorithm_header :: "(string \<times> string \<times> string) list" where
  "re_pattern_algorithm_header =
     map (\<lambda>t. (''[^>.]'' @ raw ''`b'' @ t @ raw ''(<.*?>)?`([^`)]'', t, ''<algorithm>'')) algorithms"

definition re_template :: "string \<Rightarrow> string" where
  "re_template t = raw ''(`<|`b)'' @ t @ raw ''`s*`<''"

definition re_pattern_templates :: "(string \<times> string \<times> string) list" where
  "re_pattern_templates =
     concat (map (\<lambda>(header, templates). map (\<lambda>t. (re_template t, t @ ''<>'', header)) templates)
               HEADERS_CONTAINING_TEMPLATES)"

definition cut_ending :: "string \<Rightarrow> string \<Rightarrow> string" where
  "cut_ending s ending = (if endswith s ending then take (length s - length ending) s else s)"

definition FilesBelongToSameModule :: "string \<Rightarrow> string \<Rightarrow> bool \<times> string" where
  "FilesBelongToSameModule filename_cc filename_h =
     (if \<not> endswith filename_cc ''.cc'' then (False, [])
      else (let cc = cut_ending filename_cc ''.cc'';
                cc = (if endswith cc ''_unittest'' then cut_ending cc ''_unittest'' else cut_ending cc ''_test'');
                cc = py_replace (py_replace cc ''/public/'' ''/'') ''/internal/'' ''/''
            in if \<not> endswith filename_h ''.h'' then (False, [])
               else (let h = cut_ending (cut_ending filename_h ''.h'') ''-inl'';
                         h = py_replace (py_replace h ''/public/'' ''/'') ''/internal/'' ''/'';
                         same = endswith cc h
                     in (same, if same then py_upto cc (- int (length h)) else []))))"

text \<open>
  A dictionary is an association list without repeated keys; \<^verbatim>\<open>d[k] = v\<close> keeps the place of a
  key that is already there, \<^verbatim>\<open>setdefault\<close> keeps its value.
\<close>

fun dict_set :: "string \<Rightarrow> 'v \<Rightarrow> (string \<times> 'v) list \<Rightarrow> (string \<times> 'v) list" where
  "dict_set k v [] = [(k, v)]"
| "dict_set k v ((k', v') # d) = (if k = k' then (k, v) # d else (k', v') # dict_set k v d)"

definition setdefault :: "string \<Rightarrow> 'v \<Rightarrow> (string \<times> 'v) list \<Rightarrow> (string \<times> 'v) list" where
  "setdefault k v d = (if map_of d k = None then dict_set k v d else d)"

fun read_includes :: "int \<Rightarrow> string list \<Rightarrow> (string \<times> int) list \<Rightarrow> (string \<times> int) list py" where
  "read_includes linenum [] include_dict = Some include_dict"
| "read_includes linenum (line # lines) include_dict = do {
     clean_line \<leftarrow> CleanseComments line;
     m \<leftarrow> Search RE_PATTERN_INCLUDE clean_line;
     read_includes (linenum + 1) lines
       (case m of None \<Rightarrow> include_dict | Some m \<Rightarrow> setdefault (group_text m 2) (linenum + 1) include_dict)
   }"

text \<open>\<open>open_file\<close> is \<^verbatim>\<open>io.open\<close>: the lines of a file, or None for an \<^verbatim>\<open>IOError\<close>.\<close>

definition UpdateIncludeState ::
    "(string \<Rightarrow> string list option) \<Rightarrow> string \<Rightarrow> (string \<times> int) list \<Rightarrow> (bool \<times> (string \<times> int) list) py" where
  "UpdateIncludeState open_file filename include_dict =
     (case open_file filename of
        None \<Rightarrow> Some (False, include_dict)
      | Some lines \<Rightarrow> do { d \<leftarrow> read_includes 0 lines include_dict; Some (True, d) })"

fun pattern_loop ::
    "(string \<times> string \<times> string) list \<Rightarrow> string \<Rightarrow> int \<Rightarrow> (string \<times> int \<times> string) list \<Rightarrow>
     (string \<times> int \<times> string) list py" where
  "pattern_loop [] line linenum required = Some required"
| "pattern_loop ((pattern, template, header) # ps) line linenum required = do {
     found \<leftarrow> Searches pattern line;
     pattern_loop ps line linenum (if found then dict_set header (linenum, template) required else required)
   }"

definition required_by :: "int \<Rightarrow> string \<Rightarrow> (string \<times> int \<times> string) list \<Rightarrow> (string \<times> int \<times> string) list py" where
  "required_by linenum line required =
     (if line = [] \<or> hd line = CHR ''#'' then Some required
      else do {
        matched \<leftarrow> Search RE_PATTERN_STRING line;
        let required =
          (case matched of
             None \<Rightarrow> required
           | Some m \<Rightarrow>
               (let prefix = take (m_start m) line in
                if endswith prefix ''std::'' \<or> \<not> endswith prefix ''::''
                then dict_set ''<string>'' (linenum, ''string'') required else required));
        required \<leftarrow> pattern_loop re_pattern_algorithm_header line linenum required;
        if \<not> contains line ''<'' then Some required
        else pattern_loop re_pattern_templates line linenum required
      })"

fun required_loop :: "int \<Rightarrow> string list \<Rightarrow> (string \<times> int \<times> string) list \<Rightarrow> (string \<times> int \<times> string) list py" where
  "required_loop linenum [] required = Some required"
| "required_loop linenum (line # lines) required = do {
     required \<leftarrow> required_by linenum line required;
     required_loop (linenum + 1) lines required
   }"

fun header_keys_loop ::
    "(string \<Rightarrow> string list option) \<Rightarrow> string \<Rightarrow> string list \<Rightarrow> bool \<Rightarrow> (string \<times> int) list \<Rightarrow>
     (bool \<times> (string \<times> int) list) py" where
  "header_keys_loop open_file abs_filename [] header_found include_dict = Some (header_found, include_dict)"
| "header_keys_loop open_file abs_filename (header # headers) header_found include_dict = do {
     let (same_module, common_path) = FilesBelongToSameModule abs_filename header;
     (found, include_dict) \<leftarrow>
       (if same_module then UpdateIncludeState open_file (common_path @ header) include_dict
        else Some (False, include_dict));
     header_keys_loop open_file abs_filename headers (header_found \<or> found) include_dict
   }"

definition CheckForIncludeWhatYouUse ::
    "os \<Rightarrow> (string \<Rightarrow> string list option) \<Rightarrow> (string list \<Rightarrow> string list) \<Rightarrow> string \<Rightarrow> CleansedLines \<Rightarrow>
     IncludeState \<Rightarrow> event list py" where
  "CheckForIncludeWhatYouUse env open_file dict_order filename clean_lines include_state = do {
     required \<leftarrow> required_loop 0 (take (nat (NumLines clean_lines)) (elided_lines clean_lines)) [];
     let include_dict = foldl (\<lambda>d (k, v). dict_set k v d) [] (concat (include_list include_state));
     abs_filename \<leftarrow> re_sub_with re_flymake_cc (\<lambda>_. ''.cc'') (FullName env filename);
     (header_found, include_dict) \<leftarrow>
       header_keys_loop open_file abs_filename (dict_order (map fst include_dict)) False include_dict;
     if endswith filename ''.cc'' \<and> \<not> header_found then Some []
     else Some (concat (map (\<lambda>h. case map_of required h of
             None \<Rightarrow> []
           | Some (linenum, template) \<Rightarrow>
               report_if (map_of include_dict (strip_chars (''<>'' @ double_quote) h) = None)
                 (Report filename linenum ''build/include_what_you_use'' 4
                    (''Add #include '' @ h @ '' for '' @ template)))
           (dict_order (map fst required))))
   }"
lemma use_patterns_compiled [re_compiled]:
  "re_compile RE_PATTERN_STRING \<noteq> None"
  "re_compile re_flymake_cc \<noteq> None"
  by code_simp+

section \<open>The speed-up\<close>

definition template_re :: "string \<Rightarrow> re" where
  "template_re t = RSeq (RGroup 1 (RAlt (RChar (CHR ''<'')) (RBoundary True)))
     (literal t [RRepeat 0 None True (RSet False [ItemCat CatSpace]), RChar (CHR ''<'')])"

lemma re_template_compiled:
  assumes "list_all plain_char t" and "t \<noteq> []"
  shows "re_compile (re_template t) = Some (False, template_re t)"
proof -
  have tail: "tokens (raw ''`s*`<'') = Some [TItem (RSet False [ItemCat CatSpace]), TQuant 0 None True,
      TItem (RChar (CHR ''<''))]" by code_simp
  have "tokens (re_template t) =
      map_option (\<lambda>ts. [TOpen, TItem (RChar (CHR ''<'')), TBar, TItem (RBoundary True), TClose] @ ts)
        (tokens (t @ raw ''`s*`<''))"
    by (simp add: re_template_def raw_def next_tok_def escape_tok_def category_escape_def control_escape_def
        re_digit_def code_def option.map_comp comp_def backslash_def)
  then show ?thesis
    using assms(2) by (simp add: tokens_literal [OF assms(1)] tail re_compile_def parse_toks_literal template_re_def
        literal_def repeatable_def close_group_def mk_seq_Cons)
qed

lemma template_needs_angle:
  assumes "re_search (False, template_re t) s = Some m"
  shows "CHR ''<'' \<in> set s"
proof -
  have "plain_look (template_re t)" by (simp add: template_re_def)
  with assms obtain u c d where u: "goes (start_cursor s) u c"
    and d: "denotes False s (template_re t) (c, []) (d, m_groups m)"
    by (rule re_search_denotes)
  from d obtain c1 g where alt: "denotes False s (RGroup 1 (RAlt (RChar (CHR ''<'')) (RBoundary True))) (c, []) (c1, g)"
    and lit: "denotes False s (literal t [RRepeat 0 None True (RSet False [ItemCat CatSpace]), RChar (CHR ''<'')])
      (c1, g) (d, m_groups m)"
    unfolding template_re_def denotes_seq by blast
  have "plain_look (RGroup 1 (RAlt (RChar (CHR ''<'')) (RBoundary True)))" by simp
  from denotes_goes [OF this alt] obtain w1 where w1: "goes c w1 c1" by blast
  obtain c2 c3 w where w: "goes c1 t c2" "goes c2 w c3" "goes c3 ''<'' d"
    using lit by (auto simp: denotes_literal denotes_seq denotes_char denotes_star [OF char_class.simps(3)])
  note all = goes_trans [OF goes_trans [OF goes_trans [OF goes_trans [OF u w1] w(1)] w(2)] w(3)]
  show ?thesis using goes_start [OF all] by auto
qed

lemma template_names: "list_all (\<lambda>(_, ts). list_all (\<lambda>t. list_all plain_char t \<and> t \<noteq> []) ts) HEADERS_CONTAINING_TEMPLATES"
  by code_simp

lemma in_re_pattern_templates:
  "(p, t, h) \<in> set re_pattern_templates \<Longrightarrow> \<exists>n. p = re_template n \<and> list_all plain_char n \<and> n \<noteq> []"
  using template_names by (fastforce simp: re_pattern_templates_def list_all_iff)

lemma pattern_loop_none:
  assumes "\<And>p t h. (p, t, h) \<in> set ps \<Longrightarrow> Searches p line = Some False"
  shows "pattern_loop ps line linenum required = Some required"
  using assms by (induction ps) fastforce+

text \<open>
  C35. Skipping the template patterns on lines without an angle bracket is only a speed-up, as the
  comment in the code says: on such a line none of the patterns matches, and running them all would
  leave the required headers as they are.
\<close>

theorem skipping_templates_is_sound:
  assumes "\<not> contains line ''<''"
  shows "pattern_loop re_pattern_templates line linenum required = Some required"
proof (rule pattern_loop_none)
  fix p t h
  assume "(p, t, h) \<in> set re_pattern_templates"
  then obtain n where n: "p = re_template n" "list_all plain_char n" "n \<noteq> []" using in_re_pattern_templates by blast
  have "CHR ''<'' \<notin> set line" using assms unfolding contains_iff by (metis append_Cons append_Nil split_list)
  then have "re_search (False, template_re n) line = None" using template_needs_angle by (metis not_None_eq)
  then show "Searches p line = Some False"
    by (simp add: Searches_def Search_def n(1) re_template_compiled [OF n(2,3)])
qed

theorem skipping_templates_is_sound_witness:
  "pattern_loop re_pattern_templates ''vector x;'' 3 [] = Some []"
  by (rule skipping_templates_is_sound) code_simp

section \<open>Modules\<close>

lemma cut_ending_append [simp]: "cut_ending (s @ e) e = s"
  by (simp add: cut_ending_def)

lemma py_replace_not_contained: "old \<noteq> [] \<Longrightarrow> \<not> contains s old \<Longrightarrow> py_replace s old new = s"
proof (induction s)
  case Nil
  then show ?case by (subst py_replace.simps) simp
next
  case (Cons c s)
  have "\<not> startswith (c # s) old" "\<not> contains s old"
    using Cons.prems(2) unfolding contains_iff startswith_iff by (metis append_Cons append_Nil)+
  with Cons show ?case by (subst py_replace.simps) simp
qed



section \<open>Include lines\<close>

lemma drop_suffix_loop_returns: "\<exists>r. drop_suffix_loop filename endings = Some r"
proof (induction endings)
  case (Cons e es)
  have "\<exists>c. py_index filename (- int (length e) - 1) = Some c" if "length filename > length e"
    using that by (auto simp: py_index_def Let_def)
  with Cons show ?case by auto
qed simp

lemma DropCommonSuffixes_returns: "\<exists>r. DropCommonSuffixes filename = Some r"
  unfolding DropCommonSuffixes_def by (rule drop_suffix_loop_returns)

lemma ClassifyInclude_returns:
  assumes "RepositoryName env filename = Some name"
  shows "\<exists>t. ClassifyInclude env filename include is_system = Some t"
proof -
  obtain t i where "DropCommonSuffixes name = Some t" "DropCommonSuffixes include = Some i"
    using DropCommonSuffixes_returns by blast
  with assms show ?thesis
    by (auto simp: ClassifyInclude_def check_ok re_compiled path_split_def split: option.splits prod.splits)
qed

text \<open>What the includes seen so far satisfy: no header twice, and a line number for each.\<close>

definition includes_ok :: "IncludeState \<Rightarrow> bool" where
  "includes_ok st \<longleftrightarrow> include_ok st \<and> distinct (map fst (concat (include_list st))) \<and>
     list_all (\<lambda>f. 0 \<le> snd f) (concat (include_list st))"

lemma init_includes_ok: "includes_ok init_IncludeState"
  by (simp add: includes_ok_def init_IncludeState_def include_ok_def)

lemma FindHeader_negative:
  "includes_ok st \<Longrightarrow> FindHeader st h < 0 \<longleftrightarrow> h \<notin> fst ` set (concat (include_list st))"
  unfolding includes_ok_def FindHeader_concat map_of_eq_None_iff [symmetric]
  by (auto simp: list_all_iff dest!: map_of_SomeD split: option.splits) (metis not_le snd_conv)

lemma re_include_line_compiled [re_compiled]: "re_compile re_include_line \<noteq> None"
  by code_simp

lemma CheckNextIncludeOrder_list [simp]:
  "include_list (snd (CheckNextIncludeOrder t st)) = include_list st"
  by (simp add: CheckNextIncludeOrder_def Let_def split: header_type.splits)

lemma SetLastHeader_list [simp]: "include_list (SetLastHeader h st) = include_list st"
  by (simp add: SetLastHeader_def)

lemma record_include_ok:
  assumes "includes_ok st" and "include \<notin> fst ` set (concat (include_list st))" and "0 \<le> linenum"
    and "RepositoryName env filename = Some name" and "line_in cl linenum"
  shows "\<exists>st' es. record_include env filename cl linenum include is_system st = Some (st', es) \<and> includes_ok st' \<and>
    concat (include_list st') = concat (include_list st) @ [(include, linenum)] \<and>
    list_all (proper_report filename linenum) es"
proof -
  obtain st1 where st1: "append_include include linenum st = Some st1"
    using append_include_ok assms(1) unfolding includes_ok_def by blast
  obtain t where t: "ClassifyInclude env filename include is_system = Some t"
    using ClassifyInclude_returns [OF assms(4)] by blast
  obtain msg st2 where st2: "CheckNextIncludeOrder t st1 = (msg, st2)" by (cases "CheckNextIncludeOrder t st1")
  obtain b where b: "BaseName env filename = Some b"
    using assms(4) by (auto simp: BaseName_def FileInfo_Split_def path_split_def split: prod.splits)
  obtain ordered where ordered: "IsInAlphabeticalOrder st2 (elided_lines cl) linenum (CanonicalizeAlphabeticalOrder include) = Some ordered"
  proof -
    have "elided_lines cl \<noteq> []" using assms(5) by (auto simp: line_in_def file_ok_def lines_ok_def)
    then have "\<exists>l. py_index (elided_lines cl) (linenum - 1) = Some l"
      using assms(3,5) by (auto simp: py_index_def line_in_def file_ok_def lines_ok_def Let_def)
    then have "\<exists>r. IsInAlphabeticalOrder st2 (elided_lines cl) linenum (CanonicalizeAlphabeticalOrder include) = Some r"
      by (auto simp: IsInAlphabeticalOrder_def check_ok re_compiled)
    then show thesis using that by blast
  qed
  have cats: "''build/include_order'' \<in> set ERROR_CATEGORIES" "''build/include_alpha'' \<in> set ERROR_CATEGORIES"
    by code_simp+
  have l2: "include_list st2 = include_list st1" using CheckNextIncludeOrder_list [of t st1] st2 by simp
  have "concat (include_list st2) = concat (include_list st) @ [(include, linenum)]"
    using concat_append_include [OF st1] l2 by simp
  moreover from this have "includes_ok (SetLastHeader h st2)" for h
    using assms(1-3) by (auto simp: includes_ok_def include_ok_def)
  ultimately show ?thesis
    using st1 t st2 b ordered cats by (auto simp: record_include_def accounting)
qed

lemma CheckIncludeLine_returns:
  assumes "includes_ok st" and "line_in cl linenum" and "RepositoryName env filename = Some name"
  shows "\<exists>st' es. CheckIncludeLine env filename cl linenum st = Some (st', es) \<and> includes_ok st' \<and>
    list_all (proper_report filename linenum) es \<and>
    (include_list st' = include_list st \<or>
     (\<exists>h. FindHeader st h < 0 \<and> concat (include_list st') = concat (include_list st) @ [(h, linenum)]))"
proof -
  let ?l = "cleansed_lines cl ! nat linenum"
  have l: "py_index (cleansed_lines cl) linenum = Some ?l"
    using assms(2) by (intro py_index_in_range) (auto simp: line_in_def file_ok_def lines_ok_def)
  have cat: "''build/include'' \<in> set ERROR_CATEGORIES" by code_simp
  obtain bare where bare: "(case re_match (the (re_compile re_bare_header)) ?l of
        None \<Rightarrow> Some []
      | Some m \<Rightarrow> do {
          third_party \<leftarrow> Matches THIRD_PARTY_HEADERS_PATTERN (group_text m 1);
          Some (report_if (\<not> third_party)
            (Report filename linenum ''build/include'' 4 ''Include the directory when naming .h files''))
        }) = Some bare" "list_all (proper_report filename linenum) bare"
    by (cases "re_match (the (re_compile re_bare_header)) ?l") (auto simp: check_ok re_compiled cat)
  show ?thesis
  proof (cases "re_search (the (re_compile RE_PATTERN_INCLUDE)) ?l")
    case None
    with l bare assms(1) show ?thesis by (simp add: CheckIncludeLine_def check_ok re_compiled)
  next
    case (Some m)
    let ?h = "group_text m 2"
    show ?thesis
    proof (cases "FindHeader st ?h \<ge> 0")
      case True
      with Some l bare assms(1) show ?thesis by (simp add: CheckIncludeLine_def check_ok re_compiled cat)
    next
      case False
      then have new: "?h \<notin> fst ` set (concat (include_list st))"
        using FindHeader_negative [OF assms(1), of ?h] by simp
      have "0 \<le> linenum" using assms(2) by (simp add: line_in_def)
      from record_include_ok [OF assms(1) new this assms(3,2), of "group_text m 1 = ''<''"] obtain st' es
        where r: "record_include env filename cl linenum ?h (group_text m 1 = ''<'') st = Some (st', es)"
          "includes_ok st'" "concat (include_list st') = concat (include_list st) @ [(?h, linenum)]"
          "list_all (proper_report filename linenum) es" by blast
      have f: "FindHeader st ?h < 0" using False by simp
      show ?thesis
        using Some l bare assms(1,3) r f cat unfolding CheckIncludeLine_def
        by (cases "endswith ?h ''.cc''"; cases "is_match THIRD_PARTY_HEADERS_PATTERN ?h";
            cases "dirname name = dirname ?h") (auto simp: check_ok re_compiled)
    qed
  qed
qed

text \<open>
  C32. Include lines are checked without an exception and the record of includes keeps its meaning: no
  header is in it twice. A header that is there already is reported with the line of its first
  inclusion and not recorded again; otherwise at most this header is added, at the end.
\<close>

theorem CheckIncludeLine_keeps_includes:
  assumes "includes_ok st" and "line_in cl linenum" and "RepositoryName env filename = Some name"
  shows "\<exists>st' es. CheckIncludeLine env filename cl linenum st = Some (st', es) \<and> includes_ok st' \<and>
    list_all (proper_report filename linenum) es \<and>
    (include_list st' = include_list st \<or>
     (\<exists>h. FindHeader st h < 0 \<and> concat (include_list st') = concat (include_list st) @ [(h, linenum)]))"
  using assms by (rule CheckIncludeLine_returns)

theorem CheckIncludeLine_keeps_includes_witness:
  "\<exists>st' es. CheckIncludeLine (sample_os ''/home/u/DN/.git'') ''a.cc'' (plain_file [[], ''#include <map>'']) 1 init_IncludeState =
       Some (st', es) \<and> includes_ok st' \<and> list_all (proper_report ''a.cc'' 1) es \<and>
     (include_list st' = include_list init_IncludeState \<or>
      (\<exists>h. FindHeader init_IncludeState h < 0 \<and>
        concat (include_list st') = concat (include_list init_IncludeState) @ [(h, 1)]))"
proof -
  have "\<not> Option.is_none (RepositoryName (sample_os ''/home/u/DN/.git'') ''a.cc'')" by code_simp
  then obtain name where "RepositoryName (sample_os ''/home/u/DN/.git'') ''a.cc'' = Some name"
    by (auto simp: Option.is_none_def)
  moreover have "includes_ok init_IncludeState"
    by (simp add: includes_ok_def) (simp add: init_IncludeState_def)
  ultimately show ?thesis
    by (intro CheckIncludeLine_keeps_includes) (simp_all add: plain_file_line)
qed

end
