(* ===== verification/LanguageChecks.thy ===== *)
theory LanguageChecks
  imports ConstructChecks IncludeChecks
begin

text \<open>
  \<^verbatim>\<open>CheckLanguage\<close> and \<^verbatim>\<open>CheckStyle\<close> of \<^verbatim>\<open>script/cpplint.py\<close>, which run most of the other checks of a line,
  and \<^verbatim>\<open>GetLineWidth\<close>. \<^verbatim>\<open>CheckLanguage\<close> also records the include of the line: it returns the new state of
  the includes beside its reports. The option \<^verbatim>\<open>--linelength\<close> is the argument \<open>max_length\<close>.
\<close>

section \<open>Language rules\<close>

definition re_conditional :: string where
  "re_conditional = raw ''^`s*#`s*(if|ifdef|ifndef|elif|else|endif)`b''"

definition re_short_port :: string where
  "re_short_port = raw ''`bshort port`b''"

definition re_unsigned_short_port :: string where
  "re_unsigned_short_port = raw ''`bunsigned short port`b''"

definition re_c_integer :: string where
  "re_c_integer = raw ''`b(short|long(?! +double)|long long)`b''"

definition re_unary_ampersand :: string where
  "re_unary_ampersand = raw ''`boperator`s*&`s*`(`s*`)''"

definition re_brace_if :: string where
  "re_brace_if = raw ''`}`s*if`s*`(''"

definition re_printf_call :: string where
  "re_printf_call = raw ''(?i)`b(string)?printf`s*`(''"

definition re_printf_argument :: string where
  "re_printf_argument = raw ''([`w.`->()]+)$''"

definition re_memset :: string where
  "re_memset = raw ''memset`s*`(([^,]*),`s*([^,]*),`s*0`s*`)''"

definition re_using_namespace :: string where
  "re_using_namespace = raw ''`busing namespace`b''"

definition re_array_declaration :: string where
  "re_array_declaration = raw ''`s*(.+::)?(`w+) [a-z]`w*`[(.+)];''"

definition re_size_separator :: string where
  "re_size_separator = raw ''`s|`+|`-|`*|`/|<<|>>]''"

definition re_sizeof :: string where
  "re_sizeof = raw ''sizeof`(.+`)''"

definition re_arraysize :: string where
  "re_arraysize = raw ''arraysize`(`w+`)''"

definition re_decimal :: string where
  "re_decimal = raw ''`d+''"

definition re_hexadecimal :: string where
  "re_hexadecimal = ''0[xX][0-9a-fA-F]+''"

definition re_k_constant :: string where
  "re_k_constant = raw ''k[A-Z0-9]`w*''"

definition re_scoped_k_constant :: string where
  "re_scoped_k_constant = raw ''(.+::)?k[A-Z0-9]`w*''"

definition re_scoped_constant :: string where
  "re_scoped_constant = ''(.+::)?[A-Z][A-Z0-9_]*''"

definition re_unnamed_namespace :: string where
  "re_unnamed_namespace = raw ''`bnamespace`s*{''"

text \<open>The search for the name of the function is given the flag \<^verbatim>\<open>re.I\<close>.\<close>

definition re_printf_name :: string where
  "re_printf_name = raw ''(?i)`b((?:string)?printf)`s*`(''"

definition re_memset_value :: string where
  \<open>re_memset_value = ''^'' @ single_quote @ single_quote @ ''|-?[0-9]+|0x[0-9A-Fa-f]$''\<close>

lemma language_patterns_compiled [re_compiled]:
  "re_compile re_conditional \<noteq> None"
  "re_compile re_short_port \<noteq> None"
  "re_compile re_unsigned_short_port \<noteq> None"
  "re_compile re_c_integer \<noteq> None"
  "re_compile re_unary_ampersand \<noteq> None"
  "re_compile re_brace_if \<noteq> None"
  "re_compile re_printf_call \<noteq> None"
  "re_compile re_printf_argument \<noteq> None"
  "re_compile re_memset \<noteq> None"
  "re_compile re_using_namespace \<noteq> None"
  "re_compile re_array_declaration \<noteq> None"
  "re_compile re_size_separator \<noteq> None"
  "re_compile re_sizeof \<noteq> None"
  "re_compile re_arraysize \<noteq> None"
  "re_compile re_decimal \<noteq> None"
  "re_compile re_hexadecimal \<noteq> None"
  "re_compile re_k_constant \<noteq> None"
  "re_compile re_scoped_k_constant \<noteq> None"
  "re_compile re_scoped_constant \<noteq> None"
  "re_compile re_unnamed_namespace \<noteq> None"
  "re_compile re_printf_name \<noteq> None"
  "re_compile re_memset_value \<noteq> None"
  by code_simp+

definition integer_check :: "string \<Rightarrow> int \<Rightarrow> string \<Rightarrow> event list py" where
  "integer_check filename linenum line = do {
     port \<leftarrow> Searches re_short_port line;
     if port
     then do {
       unsigned \<leftarrow> Searches re_unsigned_short_port line;
       Some (report_if (\<not> unsigned)
         (Report filename linenum ''runtime/int'' 4 (''Use '' @ double_quote @ ''unsigned short'' @ double_quote @ '' for ports, not '' @ double_quote @ ''short'' @ double_quote)))
     }
     else do {
       m \<leftarrow> Search re_c_integer line;
       Some (case m of
               None \<Rightarrow> []
             | Some m \<Rightarrow> [Report filename linenum ''runtime/int'' 4
                           (''Use int16/int64/etc, rather than the C type '' @ group_text m 1)])
     }
   }"

definition format_string_check :: "string \<Rightarrow> int \<Rightarrow> string \<Rightarrow> event list py" where
  "format_string_check filename linenum line = do {
     printf_args \<leftarrow> GetTextInside line re_printf_call;
     (case printf_args of
        None \<Rightarrow> Some []
      | Some printf_args \<Rightarrow>
          if printf_args = [] then Some []
          else do {
            m \<leftarrow> Match re_printf_argument printf_args;
            (case m of
               None \<Rightarrow> Some []
             | Some m \<Rightarrow>
                 if group_text m 1 = ''__VA_ARGS__'' then Some []
                 else do {
                   name \<leftarrow> Search re_printf_name line;
                   (case name of
                      None \<Rightarrow> raise
                    | Some n \<Rightarrow> Some [Report filename linenum ''runtime/printf'' 4
                        (''Potential format string bug. Do '' @ group_text n 1 @ ''('' @ double_quote @ ''%s'' @
                         double_quote @ '', '' @ group_text m 1 @ '') instead.'')])
                 })
          })
   }"

definition memset_check :: "string \<Rightarrow> int \<Rightarrow> string \<Rightarrow> event list py" where
  "memset_check filename linenum line = do {
     m \<leftarrow> Search re_memset line;
     (case m of
        None \<Rightarrow> Some []
      | Some m \<Rightarrow> do {
          constant \<leftarrow> Matches re_memset_value (group_text m 2);
          Some (report_if (\<not> constant)
            (Report filename linenum ''runtime/memset'' 4
               ((''Did you mean '' @ double_quote @ ''memset('') @ group_text m 1 @ '', 0, '' @ group_text m 2 @ ('')'' @ double_quote @ ''?''))))
        })
   }"

text \<open>Whether all the tokens of an array size are compile-time constants.\<close>

fun constant_tokens :: "bool \<Rightarrow> string list \<Rightarrow> bool py" where
  "constant_tokens skip_next [] = Some True"
| "constant_tokens skip_next (tok # toks) =
     (if skip_next then constant_tokens False toks
      else do {
        size \<leftarrow> or_else (Searches re_sizeof tok) (Searches re_arraysize tok);
        if size then constant_tokens False toks
        else do {
          let tok = rstrip_chars '')'' (lstrip_chars ''('' tok);
          constant \<leftarrow> or_else (Some (tok = []))
            (or_else (Matches re_decimal tok) (or_else (Matches re_hexadecimal tok)
              (or_else (Matches re_k_constant tok) (or_else (Matches re_scoped_k_constant tok)
                (Matches re_scoped_constant tok)))));
          if constant then constant_tokens False toks
          else if startswith tok ''sizeof'' then constant_tokens True toks
          else Some False
        }
      })"

definition array_check :: "string \<Rightarrow> int \<Rightarrow> string \<Rightarrow> event list py" where
  "array_check filename linenum line = do {
     m \<leftarrow> Match re_array_declaration line;
     (case m of
        None \<Rightarrow> Some []
      | Some m \<Rightarrow>
          if group_text m 2 \<noteq> ''return'' \<and> group_text m 2 \<noteq> ''delete'' \<and> py_find (group_text m 3) '']'' = - 1
          then do {
            r \<leftarrow> re_compile re_size_separator;
            is_const \<leftarrow> constant_tokens False (re_split r (group_text m 3));
            Some (report_if (\<not> is_const)
              (Report filename linenum ''runtime/arrays'' 1
                (''Do not use variable-length arrays.  Use an appropriately named ('' @ single_quote @ ''k'' @ single_quote @ '' followed by CamelCase) compile-time constant for the size.'')))
          }
          else Some [])
   }"

definition other_language_checks :: "string \<Rightarrow> string \<Rightarrow> int \<Rightarrow> string \<Rightarrow> event list py" where
  "other_language_checks file_extension filename linenum line = do {
     integers \<leftarrow> integer_check filename linenum line;
     ampersand \<leftarrow> Searches re_unary_ampersand line;
     brace_if \<leftarrow> Searches re_brace_if line;
     formats \<leftarrow> format_string_check filename linenum line;
     memsets \<leftarrow> memset_check filename linenum line;
     using_namespace \<leftarrow> Searches re_using_namespace line;
     arrays \<leftarrow> array_check filename linenum line;
     unnamed \<leftarrow> and_then (Some (file_extension = ''h''))
       (and_then (Searches re_unnamed_namespace line)
         (do { c \<leftarrow> py_index line (- 1); Some (c \<noteq> backslash) }));
     Some (integers @
       report_if ampersand (Report filename linenum ''runtime/operator'' 4
         ''Unary operator& is dangerous.  Do not use it.'') @
       report_if brace_if (Report filename linenum ''readability/braces'' 4
         (''Did you mean '' @ double_quote @ ''else if'' @ double_quote @ ''? If not, start a new line for '' @ double_quote @ ''if'' @ double_quote @ ''.'')) @
       formats @ memsets @
       report_if using_namespace (Report filename linenum ''build/namespaces'' 5
         ''Do not use namespace using-directives.  Use using-declarations instead.'') @
       arrays @
       report_if unnamed (Report filename linenum ''build/namespaces'' 4
         ''Do not use unnamed namespaces in header files.  See http://google-styleguide.googlecode.com/svn/trunk/cppguide.xml#Namespaces for more information.''))
   }"

definition CheckLanguage ::
    "os \<Rightarrow> string \<Rightarrow> string \<Rightarrow> CleansedLines \<Rightarrow> int \<Rightarrow> IncludeState \<Rightarrow> (IncludeState \<times> event list) py" where
  "CheckLanguage env file_extension filename clean_lines linenum include_state = do {
     line \<leftarrow> elided clean_lines linenum;
     if line = [] then Some (include_state, [])
     else do {
       include_line \<leftarrow> Searches RE_PATTERN_INCLUDE line;
       if include_line then CheckIncludeLine env filename clean_lines linenum include_state
       else do {
         m \<leftarrow> Match re_conditional line;
         include_state \<leftarrow> (case m of None \<Rightarrow> Some include_state | Some m \<Rightarrow> ResetSection (group_text m 1) include_state);
         casts \<leftarrow> CheckCasts filename clean_lines linenum;
         statics \<leftarrow> CheckGlobalStatic filename clean_lines linenum;
         printfs \<leftarrow> CheckPrintf filename clean_lines linenum;
         others \<leftarrow> other_language_checks file_extension filename linenum line;
         Some (include_state, casts @ statics @ printfs @ others)
       }
     }
   }"

section \<open>Style rules\<close>

text \<open>
  What \<^verbatim>\<open>unicodedata\<close> says of the code points below 256: they compose to themselves, none is wide and
  none combines with the character before it.
\<close>

definition unicodedata_normalize :: "string \<Rightarrow> string" where
  "unicodedata_normalize line = line"

definition east_asian_wide :: "char \<Rightarrow> bool" where
  "east_asian_wide uc = False"

definition unicodedata_combining :: "char \<Rightarrow> nat" where
  "unicodedata_combining uc = 0"

fun width_loop :: "int \<Rightarrow> string \<Rightarrow> int" where
  "width_loop width [] = width"
| "width_loop width (uc # ucs) =
     width_loop (if east_asian_wide uc then width + 2
                 else if unicodedata_combining uc = 0 then width + 1 else width) ucs"

definition GetLineWidth :: "string \<Rightarrow> int" where
  "GetLineWidth line = width_loop 0 (unicodedata_normalize line)"

text \<open>\<^verbatim>\<open>int(_line_length * 1.25)\<close>: the product is exact and the conversion drops the fraction.\<close>

definition extended_length :: "int \<Rightarrow> int" where
  "extended_length n = (if n \<ge> 0 then 5 * n div 4 else - (5 * (- n) div 4))"

definition scope_or_label_pattern :: string where
  "scope_or_label_pattern = raw ''`s*`w+`s*:`s*``?$''"

definition re_raw_string_line :: string where
  \<open>re_raw_string_line = raw ''^`s*""''\<close>

definition re_url_comment :: string where
  "re_url_comment = raw ''^`s*//.*http(s?)://`S*$''"

definition re_id_comment :: string where
  "re_id_comment = raw ''^// `$Id:.*#[0-9]+ `$$''"

lemma style_patterns_compiled [re_compiled]:
  "re_compile scope_or_label_pattern \<noteq> None"
  "re_compile re_raw_string_line \<noteq> None"
  "re_compile re_url_comment \<noteq> None"
  "re_compile re_id_comment \<noteq> None"
  by code_simp+

fun initial_spaces :: "string \<Rightarrow> nat" where
  "initial_spaces [] = 0"
| "initial_spaces (c # line) = (if c = CHR '' '' then Suc (initial_spaces line) else 0)"

definition indent_check :: "string \<Rightarrow> CleansedLines \<Rightarrow> int \<Rightarrow> string \<Rightarrow> string \<Rightarrow> event list py" where
  "indent_check filename clean_lines linenum line cleansed_line =
     (if line \<noteq> [] \<and> is_space (last line)
      then Some [Report filename linenum ''whitespace/end_of_line'' 4
                   ''Line ends in whitespace.  Consider deleting these extra spaces.'']
      else do {
        weird \<leftarrow> and_then (Some (initial_spaces line = 1 \<or> initial_spaces line = 3))
          (and_then (negate (Matches scope_or_label_pattern cleansed_line))
            (negate (do { raw_line \<leftarrow> py_index (raw_lines clean_lines) linenum;
                          and_then (Some (raw_line \<noteq> line)) (Matches re_raw_string_line line) })));
        Some (report_if weird (Report filename linenum ''whitespace/indent'' 3
          ''Weird number of spaces at line-start.  Are you using a 2-space indent?''))
      })"

definition is_header_guard :: "os \<Rightarrow> string option \<Rightarrow> string \<Rightarrow> string \<Rightarrow> string \<Rightarrow> bool py" where
  "is_header_guard env root_flag file_extension filename line =
     (if file_extension = ''h''
      then do {
        cppvar \<leftarrow> GetHeaderGuardCPPVariable env root_flag filename;
        Some (startswith line (''#ifndef '' @ cppvar) \<or> startswith line (''#define '' @ cppvar) \<or>
              startswith line (''#endif  // '' @ cppvar))
      }
      else Some False)"

definition line_length_check ::
    "os \<Rightarrow> string option \<Rightarrow> int \<Rightarrow> string \<Rightarrow> string \<Rightarrow> int \<Rightarrow> string \<Rightarrow> event list py" where
  "line_length_check env root_flag max_length file_extension filename linenum line = do {
     guard \<leftarrow> is_header_guard env root_flag file_extension filename line;
     checked \<leftarrow> and_then (Some (\<not> startswith line ''#include'' \<and> \<not> guard))
       (and_then (negate (Matches re_url_comment line)) (negate (Matches re_id_comment line)));
     let line_width = GetLineWidth line;
     Some (if \<not> checked then []
           else if line_width > extended_length max_length
           then [Report filename linenum ''whitespace/line_length'' 4
                   (''Lines should very rarely be longer than '' @ str_of_int (extended_length max_length) @ '' characters'')]
           else if line_width > max_length
           then [Report filename linenum ''whitespace/line_length'' 2
                   (''Lines should be <= '' @ str_of_int max_length @ '' characters long'')]
           else [])
   }"

text \<open>\<^verbatim>\<open>GetPreviousNonBlankLine\<close> is called once more when its line contains \<^verbatim>\<open>for\<close>; it has no effect.\<close>

definition many_commands :: "CleansedLines \<Rightarrow> int \<Rightarrow> string \<Rightarrow> bool py" where
  "many_commands clean_lines linenum cleansed_line =
     and_then (Some (py_count cleansed_line '';'' > 1 \<and> py_find cleansed_line ''for'' = - 1))
       (do {
          (prev_line, _) \<leftarrow> GetPreviousNonBlankLine clean_lines linenum;
          Some ((py_find prev_line ''for'' = - 1 \<or> py_find prev_line '';'' \<noteq> - 1) \<and>
            \<not> ((py_find cleansed_line ''case '' \<noteq> - 1 \<or> py_find cleansed_line ''default:'' \<noteq> - 1) \<and>
                py_find cleansed_line ''break;'' \<noteq> - 1))
        })"

fun run_checks :: "(string \<Rightarrow> CleansedLines \<Rightarrow> int \<Rightarrow> event list py) list \<Rightarrow> string \<Rightarrow> CleansedLines \<Rightarrow> int \<Rightarrow> event list py" where
  "run_checks [] filename clean_lines linenum = Some []"
| "run_checks (check # checks) filename clean_lines linenum = do {
     es \<leftarrow> check filename clean_lines linenum;
     fs \<leftarrow> run_checks checks filename clean_lines linenum;
     Some (es @ fs)
   }"

definition section_check :: "NestingState \<Rightarrow> string \<Rightarrow> CleansedLines \<Rightarrow> int \<Rightarrow> event list py" where
  "section_check st filename clean_lines linenum =
     (case InnermostClass st of
        None \<Rightarrow> Some []
      | Some b \<Rightarrow> (case kind b of ClassInfo c \<Rightarrow> CheckSectionSpacing c filename clean_lines linenum | _ \<Rightarrow> Some []))"

definition more_style_checks :: "NestingState \<Rightarrow> (string \<Rightarrow> CleansedLines \<Rightarrow> int \<Rightarrow> event list py) list" where
  "more_style_checks st = [CheckBraces, CheckTrailingSemicolon, CheckEmptyBlockBody, CheckAccess st, CheckSpacing st,
     CheckOperatorSpacing, CheckParenthesisSpacing, CheckCommaSpacing, CheckBracesSpacing, CheckSpacingForFunctionCall,
     CheckRValueReference st, CheckCheck, CheckAltTokens, section_check st]"

definition CheckStyle ::
    "os \<Rightarrow> string option \<Rightarrow> int \<Rightarrow> string \<Rightarrow> NestingState \<Rightarrow> string \<Rightarrow> CleansedLines \<Rightarrow> int \<Rightarrow> event list py" where
  "CheckStyle env root_flag max_length file_extension st filename clean_lines linenum = do {
     line \<leftarrow> unraw clean_lines linenum;
     cleansed_line \<leftarrow> elided clean_lines linenum;
     indents \<leftarrow> indent_check filename clean_lines linenum line cleansed_line;
     lengths \<leftarrow> line_length_check env root_flag max_length file_extension filename linenum line;
     many \<leftarrow> many_commands clean_lines linenum cleansed_line;
     more \<leftarrow> run_checks (more_style_checks st) filename clean_lines linenum;
     Some (report_if (py_find line [CHR 0x09] \<noteq> - 1)
             (Report filename linenum ''whitespace/tab'' 1 ''Tab found; better to use spaces'') @
           indents @ lengths @
           report_if many (Report filename linenum ''whitespace/newline'' 0 ''More than one command on the same line'') @
           more)
   }"

section \<open>The format string check finds the name of the function\<close>

definition printf_tail :: "re" where
  "printf_tail = RSeq (RRepeat 0 None True (RSet False [ItemCat CatSpace])) (RChar CHR ''('')"

lemma printf_shapes:
  "re_compile re_printf_call = Some (True, RSeq (RBoundary True)
     (RSeq (RRepeat 0 (Some 1) True (RGroup 1 (word_re ''string''))) (lits ''printf'' printf_tail)))"
  "re_compile re_printf_name = Some (True, RSeq (RBoundary True)
     (RSeq (RGroup 1 (RSeq (RRepeat 0 (Some 1) True (word_re ''string'')) (word_re ''printf''))) printf_tail))"
  by code_simp+

lemma denotes_printf_tail:
  "denotes True s printf_tail (c, g) (d, h) \<longleftrightarrow>
     h = g \<and> (\<exists>w e. list_all (set_match True False [ItemCat CatSpace]) w \<and> goes c w e \<and> spells True ''('' e d)"
proof -
  have "denotes True s (RChar (CHR ''('')) (c, g) (d, h) \<longleftrightarrow> h = g \<and> spells True ''('' c d" for c g
    by (subst denotes_class) (auto simp: spells_def list_all2_Cons1)
  then show ?thesis unfolding printf_tail_def denotes_seq denotes_star [OF char_class.simps(3)] by blast
qed

lemma fold_paren:
  assumes "fold_char True (CHR ''('') = fold_char True b"
  shows "b = CHR ''(''"
proof (cases "65 \<le> code b \<and> code b \<le> 90")
  case True
  then have "code (fold_char True b) = code b + 32" by (simp add: fold_char_def code_def)
  moreover have "code (fold_char True (CHR ''('')) = 40" by code_simp
  ultimately show ?thesis using True assms by simp
next
  case False
  then have "fold_char True b = b" by (auto simp: fold_char_def)
  moreover have "fold_char True (CHR ''('') = CHR ''(''" by code_simp
  ultimately show ?thesis using assms by simp
qed

lemma printf_found:
  assumes "re_search (the (re_compile re_printf_call)) s = Some m"
  shows "re_search (the (re_compile re_printf_name)) s \<noteq> None" and "0 < m_end m" and "s ! (m_end m - 1) = CHR ''(''"
proof -
  have plain: "plain_look (snd (the (re_compile re_printf_call)))" "plain_look (snd (the (re_compile re_printf_name)))"
    by code_simp+
  obtain u c d where u: "goes (start_cursor s) u c" and en: "m_end m = pos_of d"
    and d: "denotes True s (snd (the (re_compile re_printf_call))) (c, []) (d, m_groups m)"
    using assms plain(1) unfolding printf_shapes by (auto elim: re_search_denotes)
  obtain e h where opt: "at_boundary c" "denotes True s (RRepeat 0 (Some 1) True (RGroup 1 (word_re ''string''))) (c, []) (e, h)"
    and rest: "denotes True s (lits ''printf'' printf_tail) (e, h) (d, m_groups m)"
    using d unfolding printf_shapes option.sel snd_conv denotes_seq denotes_boundary by blast
  have str: "spells True ''string'' c e \<or> e = c"
    using opt(2) unfolding denotes_option denotes_group denotes_word_ci [OF list.distinct(2)] by blast
  obtain k where call: "spells True ''printf'' e k" "denotes True s printf_tail (k, h) (d, m_groups m)"
    using rest unfolding denotes_lits by blast
  have "denotes True s printf_tail (k, h') (d, h')" for h' using call(2) unfolding denotes_printf_tail by blast
  then have "denotes True s (snd (the (re_compile re_printf_name))) (c, []) (d, [(1, pos_of c, pos_of k)])"
    using opt(1) str call(1) unfolding printf_shapes option.sel snd_conv denotes_seq denotes_boundary denotes_option
      denotes_group denotes_word_ci [OF list.distinct(2)] by blast
  with u have "\<exists>u c y. goes (start_cursor s) u c \<and> denotes True s (snd (the (re_compile re_printf_name))) (c, []) y" by blast
  then have "Searches re_printf_name s = Some True"
    using Searches_iff [OF printf_shapes(2), of s] plain(2) unfolding printf_shapes option.sel snd_conv by simp
  then show "re_search (the (re_compile re_printf_name)) s \<noteq> None"
    by (auto simp: Searches_def Search_def printf_shapes(2))
  obtain w x b where w: "goes k w x" and b: "goes x [b] d" "fold_char True (CHR ''('') = fold_char True b"
    using call(2) unfolding denotes_printf_tail by (auto simp: spells_def list_all2_Cons1)
  have "\<exists>v. goes c v e" "\<exists>v. goes e v k" using str call(1) by (auto simp: spells_def intro: exI [of _ "[]"])
  then obtain U where U: "goes (start_cursor s) U x" using u w goes_trans by blast
  have paren: "b = CHR ''(''" using b(2) by (rule fold_paren)
  have pos: "pos_of d = Suc (pos_of x)" using goes_pos [OF b(1)] by simp
  then show "0 < m_end m" using en by simp
  have "text_between s (pos_of x) (Suc (pos_of x)) = [CHR ''('']" using goes_text [OF U b(1)] pos paren by simp
  then show "s ! (m_end m - 1) = CHR ''(''"
    using en pos by (cases "pos_of x < length s") (auto simp: text_between_def take_Suc_conv_app_nth)
qed

section \<open>The contract\<close>

lemma listed_language [accounting]:
  "''runtime/int'' \<in> set ERROR_CATEGORIES" "''runtime/operator'' \<in> set ERROR_CATEGORIES"
  "''runtime/memset'' \<in> set ERROR_CATEGORIES" "''build/namespaces'' \<in> set ERROR_CATEGORIES"
  "''runtime/arrays'' \<in> set ERROR_CATEGORIES" "''whitespace/end_of_line'' \<in> set ERROR_CATEGORIES"
  "''whitespace/indent'' \<in> set ERROR_CATEGORIES" "''whitespace/line_length'' \<in> set ERROR_CATEGORIES"
  "''whitespace/tab'' \<in> set ERROR_CATEGORIES"
  by code_simp+

lemmas language_ok = construct_ok language_patterns_compiled style_patterns_compiled listed_language

lemma GetTextInside_printf: "\<exists>t. GetTextInside line re_printf_call = Some t"
proof (cases "re_search (the (re_compile re_printf_call)) line")
  case None
  then show ?thesis by (simp add: GetTextInside_def language_ok)
next
  case (Some m)
  from printf_found [OF this] have "matching_punctuation (line ! (m_end m - 1)) \<noteq> None" "0 < m_end m"
    by (simp_all add: matching_punctuation_def)
  with Some show ?thesis by (auto simp: GetTextInside_def language_ok)
qed

lemma format_string_check_on_line: "accounts_for filename linenum (format_string_check filename linenum line)"
proof -
  obtain t where t: "GetTextInside line re_printf_call = Some t" using GetTextInside_printf by blast
  have "re_search (the (re_compile re_printf_name)) line \<noteq> None" if "t \<noteq> None"
    using that t printf_found(1) [of line] by (cases "re_search (the (re_compile re_printf_call)) line")
      (auto simp: GetTextInside_def language_ok)
  with t show ?thesis by (auto simp: format_string_check_def language_ok split: option.splits)
qed

lemma constant_tokens_returns: "\<exists>b. constant_tokens skip_next toks = Some b"
  by (induction skip_next toks rule: constant_tokens.induct) (auto simp: language_ok)

lemma array_check_on_line: "accounts_for filename linenum (array_check filename linenum line)"
proof (cases "re_match (the (re_compile re_array_declaration)) line")
  case None
  then show ?thesis by (simp add: array_check_def language_ok)
next
  case (Some m)
  obtain r where r: "re_compile re_size_separator = Some r" using language_patterns_compiled by blast
  obtain b where "constant_tokens False (re_split r (group_text m 3)) = Some b" using constant_tokens_returns by blast
  with Some r show ?thesis by (simp add: array_check_def language_ok)
qed

lemma other_language_checks_on_line:
  assumes "line \<noteq> []"
  shows "accounts_for filename linenum (other_language_checks file_extension filename linenum line)"
proof -
  have "accounts_for filename linenum (integer_check filename linenum line)"
    "accounts_for filename linenum (memset_check filename linenum line)"
    by (auto simp: integer_check_def memset_check_def language_ok split: option.splits)
  then show ?thesis
    using assms format_string_check_on_line [of filename linenum line] array_check_on_line [of filename linenum line]
    by (auto simp: other_language_checks_def language_ok py_index_last elim!: accounts_forE)
qed

lemma ResetSection_keeps: "includes_ok st \<Longrightarrow> \<exists>st'. ResetSection d st = Some st' \<and> includes_ok st'"
proof -
  assume st: "includes_ok st"
  have "list_all P (concat (butlast xs))" if "list_all P (concat xs)" for P and xs :: "(string \<times> int) list list"
    using that by (auto simp: list_all_iff dest: in_set_butlastD)
  moreover have "distinct (map fst (concat (butlast xs)))" if "distinct (map fst (concat xs))" for xs :: "(string \<times> int) list list"
    using that by (cases xs rule: rev_cases) auto
  ultimately show ?thesis using st by (auto simp: ResetSection_def includes_ok_def include_ok_def Let_def)
qed

lemma CheckLanguage_returns:
  assumes "line_in cl linenum" and "includes_ok st" and "RepositoryName env filename = Some name"
    and "\<not> cut_cast cl linenum"
  shows "\<exists>st' es. CheckLanguage env file_extension filename cl linenum st = Some (st', es) \<and> includes_ok st' \<and>
    list_all (proper_report filename linenum) es"
proof (cases "elided_lines cl ! nat linenum = [] \<or> is_found RE_PATTERN_INCLUDE (elided_lines cl ! nat linenum)")
  case True
  with assms CheckIncludeLine_returns [OF assms(2,1,3)] show ?thesis by (auto simp: CheckLanguage_def language_ok)
next
  case False
  let ?l = "elided_lines cl ! nat linenum"
  obtain st' where st': "(case re_match (the (re_compile re_conditional)) ?l of None \<Rightarrow> Some st
      | Some m \<Rightarrow> ResetSection (group_text m 1) st) = Some st'" "includes_ok st'"
    using assms(2) ResetSection_keeps by (cases "re_match (the (re_compile re_conditional)) ?l") auto
  have "accounts_for filename linenum (CheckCasts filename cl linenum)"
    using CheckCasts_returns [OF assms(1)] assms(4) by blast
  moreover have "accounts_for filename linenum (CheckGlobalStatic filename cl linenum)"
    "accounts_for filename linenum (CheckPrintf filename cl linenum)"
    using assms(1) by (rule global_static.on_line printf.on_line)+
  moreover have "accounts_for filename linenum (other_language_checks file_extension filename linenum ?l)"
    using False by (intro other_language_checks_on_line) simp
  ultimately show ?thesis
    using False st' assms(1) by (auto simp: CheckLanguage_def language_ok elim!: accounts_forE)
qed

section \<open>The style check runs its checks\<close>

text \<open>A list of checks keeps the contract when each of them does.\<close>

lemma run_checks_from:
  assumes "list_all (\<lambda>check. accounts_from cl filename linenum (check filename cl linenum)) checks"
  shows "accounts_from cl filename linenum (run_checks checks filename cl linenum)"
  using assms by (induction checks) (auto simp: accounting elim!: accounts_fromE)

lemma GetLineWidth_length: "GetLineWidth line = int (length line)"
proof -
  have "width_loop n line = n + int (length line)" for n
    by (induction line arbitrary: n) (simp_all add: east_asian_wide_def unicodedata_combining_def)
  then show ?thesis by (simp add: GetLineWidth_def unicodedata_normalize_def)
qed

text \<open>The classes that are open were declared on lines of the file.\<close>

definition classes_start :: "NestingState \<Rightarrow> bool" where
  "classes_start st = list_all (\<lambda>b. case kind b of ClassInfo c \<Rightarrow> 0 \<le> class_starting_linenum c | _ \<Rightarrow> True)
     (nesting_stack st)"

lemma section_check_on_line:
  assumes "line_in cl linenum" and "classes_start st"
  shows "accounts_for filename linenum (section_check st filename cl linenum)"
proof (cases "InnermostClass st")
  case None
  then show ?thesis by (simp add: section_check_def accounting)
next
  case (Some b)
  then have "b \<in> set (nesting_stack st)" by (auto simp: InnermostClass_def find_Some_iff)
  with Some assms CheckSectionSpacing_on_line [OF assms(1)] show ?thesis
    by (auto simp: section_check_def classes_start_def list_all_iff accounting split: block_kind.splits)
qed

text \<open>The search for the type before \<^verbatim>\<open>&&\<close> on this line comes to an end.\<close>

definition rvalue_search_ends :: "NestingState \<Rightarrow> CleansedLines \<Rightarrow> int \<Rightarrow> bool" where
  "rvalue_search_ends st cl linenum \<longleftrightarrow> contains (elided_lines cl ! nat linenum) ''&&'' \<longrightarrow>
     (\<forall>ts column. IsRValueType ts cl (previous_stack_top st) linenum column \<noteq> None)"

lemma more_style_checks_from:
  assumes l: "line_in cl linenum" and "classes_start st" and "rvalue_search_ends st cl linenum"
  shows "accounts_from cl filename linenum (run_checks (more_style_checks st) filename cl linenum)"
proof -
  have "accounts_for filename linenum (CheckRValueReference st filename cl linenum)"
    using assms(3) by (intro CheckRValueReference_returns [OF l]) (auto simp: rvalue_search_ends_def)
  then show ?thesis
    using accounts_for_from [OF l CheckAccess_on_line [OF l]] accounts_for_from [OF l section_check_on_line [OF l assms(2)]]
    by (intro run_checks_from) (simp add: more_style_checks_def accounts_for_from [OF l] braces.from_line [OF l]
        trailing_semicolon.from_line [OF l] empty_body.from_line [OF l] spacing.from_line [OF l]
        operator_spacing.from_line [OF l] parenthesis_spacing.from_line [OF l] comma_spacing.from_line [OF l]
        braces_spacing.from_line [OF l] function_call.from_line [OF l] check_macros.from_line [OF l]
        alt_token.from_line [OF l])
qed

lemma CheckStyle_returns:
  assumes l: "line_in cl linenum" and "classes_start st" and "rvalue_search_ends st cl linenum"
    and "file_extension = ''h'' \<Longrightarrow> \<exists>g. GetHeaderGuardCPPVariable env root_flag filename = Some g"
  shows "accounts_from cl filename linenum (CheckStyle env root_flag max_length file_extension st filename cl linenum)"
proof -
  let ?line = "lines_without_raw_strings cl ! nat linenum" and ?cleansed = "elided_lines cl ! nat linenum"
  have indents: "accounts_from cl filename linenum (indent_check filename cl linenum ?line ?cleansed)"
    using l by (intro accounts_for_from [OF l]) (auto simp: indent_check_def language_ok raw_ok)
  have lengths: "accounts_from cl filename linenum
      (line_length_check env root_flag max_length file_extension filename linenum ?line)"
    using assms(4) by (intro accounts_for_from [OF l])
      (cases "file_extension = ''h''"; auto simp: line_length_check_def is_header_guard_def language_ok)
  have "\<exists>many. many_commands cl linenum ?cleansed = Some many"
    using GetPrevious_returns [OF l] by (auto simp: many_commands_def language_ok)
  then obtain many where many: "many_commands cl linenum ?cleansed = Some many" by blast
  show ?thesis
    using indents lengths more_style_checks_from [OF assms(1-3), of filename] l many
    by (auto simp: CheckStyle_def language_ok accounting unraw_ok line_in_def elim!: accounts_fromE)
qed

end
