(* ===== verification/NestingInvariant.thy ===== *)
theory NestingInvariant
  imports LanguageChecks
begin

text \<open>
  The invariant of the nesting state, and that \<^verbatim>\<open>NestingState.Update\<close> of \<^verbatim>\<open>script/cpplint.py\<close> returns on
  every line of a file and keeps it: the loops over the namespaces, the template arguments and the braces
  of a line end, the patterns that the names of classes and namespaces are put into are well formed, and
  what conditional compilation saves and restores keeps the invariant too.
\<close>

section \<open>Text that consists of names\<close>

primrec names_only :: "re \<Rightarrow> bool" where
  "names_only REmpty \<longleftrightarrow> True"
| "names_only (RChar a) \<longleftrightarrow> name_char a"
| "names_only RAny \<longleftrightarrow> False"
| "names_only (RSet neg its) \<longleftrightarrow> \<not> neg \<and> list_all (\<lambda>it. it = ItemCat CatWord \<or> it = ItemChar (CHR '':'')) its"
| "names_only RBegin \<longleftrightarrow> True"
| "names_only REnd \<longleftrightarrow> True"
| "names_only (RBoundary b) \<longleftrightarrow> True"
| "names_only (RSeq r1 r2) \<longleftrightarrow> names_only r1 \<and> names_only r2"
| "names_only (RAlt r1 r2) \<longleftrightarrow> names_only r1 \<and> names_only r2"
| "names_only (RRepeat mn mx gr r) \<longleftrightarrow> names_only r"
| "names_only (RGroup k r) \<longleftrightarrow> names_only r"
| "names_only (RLook b r) \<longleftrightarrow> True"
| "names_only (RBackref k) \<longleftrightarrow> False"

definition reads_names :: "cursor \<Rightarrow> cursor \<Rightarrow> bool" where
  "reads_names c d \<longleftrightarrow> (\<exists>w. list_all name_char w \<and> goes c w d)"

lemma reads_names_refl [simp]: "reads_names c c"
  by (auto simp: reads_names_def intro: exI [of _ "[]"])

lemma reads_names_trans: "reads_names c d \<Longrightarrow> reads_names d e \<Longrightarrow> reads_names c e"
  unfolding reads_names_def by (metis goes_trans list_all_append)

lemma reads_one_name: "name_char b \<Longrightarrow> rest_of c = b # u \<Longrightarrow> reads_names c (Suc (pos_of c), Some b, u)"
  unfolding reads_names_def by (intro exI [of _ "[b]"]) (simp add: goes_def)

lemma rounds_names:
  assumes "rounds (denotes ci s r) mn mx x z" and "\<And>x y. denotes ci s r x y \<Longrightarrow> reads_names (fst x) (fst y)"
  shows "reads_names (fst x) (fst z)"
  using assms
proof (induction rule: rounds.induct)
  case (least mx x y mn z)
  then show ?case using reads_names_trans by blast
next
  case (more mx x y z)
  then show ?case using reads_names_trans by blast
qed simp_all

lemma denotes_names: "names_only r \<Longrightarrow> denotes False s r x y \<Longrightarrow> reads_names (fst x) (fst y)"
proof (induction r arbitrary: x y)
  case (RChar a)
  then show ?case by (auto simp: denotes.simps fold_char_def intro: reads_one_name)
next
  case (RSet neg its)
  then obtain b u where b: "rest_of (fst x) = b # u" "set_match False False its b"
    "y = ((Suc (pos_of (fst x)), Some b, u), snd x)" by (auto simp: denotes.simps)
  then obtain it where "it \<in> set its" "item_match False it b" by (auto simp: set_match_def list_ex_iff)
  moreover from this(1) RSet.prems(1) have "it = ItemCat CatWord \<or> it = ItemChar (CHR '':'')"
    by (simp add: list_all_iff)
  ultimately have "name_char b" by (elim disjE) (simp_all add: name_char_def cat_match_def)
  with b show ?case by (auto intro: reads_one_name)
next
  case (RSeq r1 r2)
  then obtain z where "denotes False s r1 x z" "denotes False s r2 z y" by (auto simp: denotes.simps)
  with RSeq show ?case using reads_names_trans [of "fst x" "fst z" "fst y"] by simp
next
  case (RRepeat mn mx gr r)
  then show ?case using rounds_names [of False s r mn mx x y] by (auto simp: denotes.simps)
qed (auto simp: denotes.simps)

definition name_group :: "nat \<Rightarrow> string \<Rightarrow> bool" where
  "name_group n p = (case re_compile p of None \<Rightarrow> False
     | Some (ci, r) \<Rightarrow> \<not> ci \<and> plain_look r \<and> 0 < n \<and> list_all names_only (bodies n r))"

lemma name_group_text:
  assumes "name_group n p" and "re_match (the (re_compile p)) s = Some m"
  shows "list_all name_char (group_text m n)"
proof -
  obtain r where p: "re_compile p = Some (False, r)" "plain_look r" "0 < n" "list_all names_only (bodies n r)"
    using assms(1) by (auto simp: name_group_def split: option.splits)
  obtain d where d: "denotes False s r (start_cursor s, []) (d, m_groups m)" and str: "m_string m = s"
    using assms(2) p(1,2) by (auto elim: re_match_denotes)
  from denotes_group_from [OF p(2) d, of n]
  consider "map_of (m_groups m) n = None"
    | b c w e g h where "b \<in> set (bodies n r)" "goes (start_cursor s) w c" "denotes False s b (c, g) (e, h)"
        "map_of (m_groups m) n = Some (pos_of c, pos_of e)"
    by (auto simp: group_from_def)
  then show ?thesis
  proof cases
    case 1
    with p(3) show ?thesis by (simp add: group_text_def group_def)
  next
    case 2
    then obtain v where "list_all name_char v" "goes c v e"
      using denotes_names [of b s "(c, g)" "(e, h)"] p(4) by (auto simp: list_all_iff reads_names_def)
    with 2 p(3) str goes_text [OF 2(2)] show ?thesis by (simp add: group_text_def group_def)
  qed
qed

section \<open>The invariant\<close>

definition block_ok :: "block \<Rightarrow> bool" where
  "block_ok b = (case kind b of
      ClassInfo c \<Rightarrow> list_all name_char (class_name c) \<and> 0 \<le> class_starting_linenum c
    | NamespaceInfo name start \<Rightarrow> list_all name_char name \<and> 0 \<le> start
    | _ \<Rightarrow> True)"

definition nesting_ok :: "NestingState \<Rightarrow> bool" where
  "nesting_ok st \<longleftrightarrow> list_all block_ok (nesting_stack st) \<and>
     list_all (\<lambda>p. list_all block_ok (stack_before_if p) \<and> list_all block_ok (stack_before_else p)) (pp_stack st)"

lemma nesting_ok_classes: "nesting_ok st \<Longrightarrow> class_names_ok st \<and> classes_start st"
  by (auto simp: nesting_ok_def class_names_ok_def classes_start_def block_ok_def list_all_iff split: block_kind.splits)

lemma init_nesting_ok: "nesting_ok init_NestingState"
  by (simp add: nesting_ok_def init_NestingState_def)

lemma new_block_ok [simp]: "block_ok (new_block i seen k) \<longleftrightarrow> (case k of
      ClassInfo c \<Rightarrow> list_all name_char (class_name c) \<and> 0 \<le> class_starting_linenum c
    | NamespaceInfo name start \<Rightarrow> list_all name_char name \<and> 0 \<le> start
    | _ \<Rightarrow> True)"
  by (simp add: block_ok_def new_block_def)

lemma push_ok: "nesting_ok st \<Longrightarrow> block_ok (new_block (next_id st) seen k) \<Longrightarrow> nesting_ok (push seen k st)"
  by (simp add: nesting_ok_def push_def)

lemma pop_block_ok: "nesting_ok st \<Longrightarrow> nesting_ok (pop_block st)"
  by (cases "nesting_stack st") (simp_all add: nesting_ok_def pop_block_def)

lemma set_top_ok: "nesting_ok st \<Longrightarrow> block_ok b \<Longrightarrow> nesting_ok (set_top b st)"
  by (cases "nesting_stack st") (simp_all add: nesting_ok_def set_top_def)

lemma top_ok: "nesting_ok st \<Longrightarrow> nesting_stack st \<noteq> [] \<Longrightarrow> block_ok (hd (nesting_stack st))"
  by (cases "nesting_stack st") (simp_all add: nesting_ok_def)

lemma deepcopy_ok: "list_all block_ok (deepcopy n bs) \<longleftrightarrow> list_all block_ok bs"
  by (induction n bs rule: deepcopy.induct) (simp_all add: block_ok_def)

lemma UpdatePreprocessor_ok: "nesting_ok st \<Longrightarrow> \<exists>st'. UpdatePreprocessor line st = Some st' \<and> nesting_ok st'"
  by (auto simp: UpdatePreprocessor_directive pp_if_def pp_else_def pp_endif_def nesting_ok_def deepcopy_ok Let_def
      split: directive.splits list.splits)

section \<open>The loops of a line end\<close>

text \<open>A closing bracket that is found lies behind the opening one.\<close>

lemma FindEnd_later: "FindEndOfExpressionInLine line i stack = Some (Found e) \<Longrightarrow> i < e"
proof (induction line i stack rule: FindEndOfExpressionInLine.induct)
  case (1 line i stack)
  obtain r where r: "end_step line i stack = Some r" "\<forall>e. r = Found e \<longrightarrow> e = i + 1"
    using end_step_returns by blast
  have i: "i < length line" using 1(2) by (rule contrapos_pp) (subst FindEndOfExpressionInLine.simps, simp)
  then have *: "(case r of Pending stack \<Rightarrow> FindEndOfExpressionInLine line (i + 1) stack | _ \<Rightarrow> Some r) = Some (Found e)"
    using 1(2) r(1) by (subst (asm) FindEndOfExpressionInLine.simps) simp
  show ?case
  proof (cases r)
    case (Pending stack')
    then show ?thesis using 1(1) [OF i r(1)] * by simp
  qed (use * r(2) in simp_all)
qed

lemma CloseExpression_loop_later:
  "CloseExpression_loop cl line linenum stack = Some (l, y, e) \<Longrightarrow> 0 \<le> e \<Longrightarrow> linenum < y"
proof (induction cl line linenum stack rule: CloseExpression_loop.induct)
  case (1 cl line linenum stack)
  have go: "stack \<noteq> [] \<and> linenum < NumLines cl - 1"
    using 1(2,3) by (subst (asm) CloseExpression_loop.simps) (simp split: if_splits)
  with 1(2) obtain l' r where r: "py_index (elided_lines cl) (linenum + 1) = Some l'"
    "FindEndOfExpressionInLine l' 0 stack = Some r"
    and *: "(case r of Found end_pos \<Rightarrow> Some (l', linenum + 1, int end_pos)
      | Unclosed \<Rightarrow> Some (l', NumLines cl, - 1)
      | Pending stack \<Rightarrow> CloseExpression_loop cl l' (linenum + 1) stack) = Some (l, y, e)"
    by (subst (asm) CloseExpression_loop.simps) (auto split: bind_splits)
  show ?case
  proof (cases r)
    case (Pending stack')
    then show ?thesis using 1(1) [OF go r Pending] 1(3) * by simp
  qed (use * 1(3) in auto)
qed

lemma CloseExpression_later:
  "CloseExpression cl linenum pos = Some (l, y, e) \<Longrightarrow> 0 \<le> e \<Longrightarrow> linenum < y \<or> y = linenum \<and> int pos < e"
  by (auto simp: CloseExpression_def split: bind_splits if_splits scan.splits
      dest: CloseExpression_loop_later FindEnd_later)

text \<open>The text of a match whose pattern consumes something.\<close>

definition has_text :: "string \<Rightarrow> bool" where
  "has_text p = (case re_compile p of None \<Rightarrow> False | Some (ci, r) \<Rightarrow> plain_look r \<and> consumes r)"

lemma match_text:
  assumes "has_text p" and "re_match (the (re_compile p)) s = Some m"
  shows "0 < length (group_text m 0) \<and> length (group_text m 0) \<le> length s"
proof -
  obtain ci r where p: "re_compile p = Some (ci, r)" "plain_look r" "consumes r"
    using assms(1) by (auto simp: has_text_def split: option.splits)
  then have "re_match (ci, r) s = Some m" using assms(2) by simp
  then obtain d where d: "denotes ci s r (start_cursor s, []) (d, m_groups m)"
    "m_string m = s" "m_start m = 0" "m_end m = pos_of d" using p(2) by (rule re_match_denotes)
  obtain w where w: "goes (start_cursor s) w d" using denotes_goes [OF p(2) d(1)] by blast
  show ?thesis
    using d(2-4) goes_start [OF w] denotes_consumes [OF p(2,3) d(1)]
    by (auto simp: group_text_def group_def text_between_def start_cursor_def)
qed

lemma nesting_patterns_compiled:
  "re_compile re_template_token \<noteq> None" "re_compile re_indent \<noteq> None" "re_compile re_bare_colon \<noteq> None"
  "re_compile re_blank \<noteq> None" "re_compile re_closing_brace \<noteq> None" "re_compile re_namespace_comment \<noteq> None"
  "re_compile re_anonymous_namespace_end \<noteq> None" "re_compile re_anonymous_namespace \<noteq> None"
  "re_compile MATCH_ASM \<noteq> None" "re_compile re_namespace_decl \<noteq> None" "re_compile re_class_decl \<noteq> None"
  "re_compile re_access \<noteq> None" "re_compile re_brace \<noteq> None" "re_compile re_extern_c \<noteq> None"
  by code_simp+

lemma nesting_texts: "has_text re_template_token" "has_rest 2 re_namespace_decl" "has_rest 2 re_brace"
  "name_group 1 re_namespace_decl" "name_group 3 re_class_decl"
  by code_simp+

lemma InTemplateArgumentList_returns:
  assumes "file_ok cl" and "0 \<le> linenum"
  shows "\<exists>b. InTemplateArgumentList cl linenum pos = Some b"
  using assms(2)
proof (induction "(linenum, pos)" arbitrary: linenum pos
    rule: wf_induct_rule [OF wf_measures [of "[\<lambda>(l, p). nat (NumLines cl - l), \<lambda>(l, p). length (elided_lines cl ! nat l) - p]"]])
  case (1 linenum pos)
  let ?l = "elided_lines cl ! nat linenum"
  show ?case
  proof (cases "linenum < NumLines cl")
    case True
    then have l: "line_in cl linenum" using 1(2) assms(1) by (simp add: line_in_def)
    then have e: "py_index (elided_lines cl) linenum = Some ?l" using elided_ok [OF l] by (simp add: elided_def)
    have next_line: "\<exists>b. InTemplateArgumentList cl (linenum + 1) 0 = Some b"
      using True 1(2) by (intro 1(1)) auto
    show ?thesis
    proof (cases "re_match (the (re_compile re_template_token)) (drop pos ?l)")
      case None
      with e True next_line show ?thesis
        by (subst InTemplateArgumentList.simps) (simp add: Match_ok nesting_patterns_compiled)
    next
      case (Some m)
      let ?p = "pos + length (group_text m 0)"
      have p: "pos < ?p" "?p \<le> length ?l" using match_text [OF nesting_texts(1) Some] by (simp_all, linarith)
      have later: "\<exists>b. InTemplateArgumentList cl y q = Some b" if "0 \<le> y" "linenum < y \<or> y = linenum \<and> pos < q" for y q
        using that True 1(2) p less_le_trans [OF p] by (intro 1(1)) (auto simp: diff_less_mono2)
      have "?p - 1 < length ?l" using p by linarith
      from CloseExpression_on_line [OF l this] obtain line ln c where c: "CloseExpression cl linenum (?p - 1) = Some (line, ln, c)"
        "c = - 1 \<or> line_in cl ln \<and> linenum \<le> ln \<and> 0 \<le> c \<and> c \<le> int (length (elided_lines cl ! nat ln))" by blast
      have "int pos \<le> int (?p - 1)" using p(1) by linarith
      then have "linenum < ln \<or> ln = linenum \<and> pos < nat c" if "\<not> c < 0"
        using CloseExpression_later [OF c(1)] that by linarith
      then have "\<exists>b. InTemplateArgumentList cl ln (nat c) = Some b" if "\<not> c < 0"
        using that 1(2) by (intro later) auto
      with e True next_line Some c(1) later [of linenum "?p + 1"] 1(2) show ?thesis
        by (subst InTemplateArgumentList.simps) (simp add: Match_ok nesting_patterns_compiled Let_def ex_bool_eq)
    qed
  qed (subst InTemplateArgumentList.simps, simp add: ex_bool_eq)
qed

lemma namespace_loop_ok:
  assumes "nesting_ok st" and "0 \<le> linenum"
  shows "\<exists>rest st'. namespace_loop linenum line st = Some (rest, st') \<and> nesting_ok st'"
  using assms(1)
proof (induction line arbitrary: st rule: length_induct)
  case (1 line)
  show ?case
  proof (cases "re_match (the (re_compile re_namespace_decl)) line")
    case None
    with 1(2) show ?thesis by (subst namespace_loop.simps) (simp add: Match_ok nesting_patterns_compiled)
  next
    case (Some m)
    have "list_all name_char (group_text m 1)" using name_group_text [OF nesting_texts(4) Some] .
    then have ok: "nesting_ok (push seen (NamespaceInfo (group_text m 1) linenum) st)" for seen
      using 1(2) assms(2) by (simp add: push_ok)
    have "length (py_from (group_text m 2) k) < length line" for k
      using rest_shorter [OF nesting_texts(2) Some] by (simp add: py_from_def less_imp_diff_less)
    then have "\<exists>rest st'. namespace_loop linenum (py_from (group_text m 2) k) (push seen (NamespaceInfo (group_text m 1) linenum) st) =
        Some (rest, st') \<and> nesting_ok st'" for k seen using 1(1) ok by blast
    moreover have "\<exists>rest st'. namespace_loop linenum (group_text m 2) (push seen (NamespaceInfo (group_text m 1) linenum) st) =
        Some (rest, st') \<and> nesting_ok st'" for seen using 1(1) ok rest_shorter [OF nesting_texts(2) Some] by simp
    ultimately show ?thesis using Some
      by (subst namespace_loop.simps) (simp add: Match_ok nesting_patterns_compiled Let_def)
  qed
qed

lemma class_declaration_ok:
  assumes "nesting_ok st" and "line_in cl linenum"
  shows "\<exists>rest st'. class_declaration cl linenum line st = Some (rest, st') \<and> nesting_ok st'"
proof (cases "re_match (the (re_compile re_class_decl)) line")
  case None
  with assms(1) show ?thesis by (simp add: class_declaration_def Match_ok nesting_patterns_compiled)
next
  case (Some m)
  have f: "file_ok cl" "0 \<le> linenum" "linenum < int (length (raw_lines cl))"
    using assms(2) by (auto simp: line_in_def file_ok_def lines_ok_def)
  have raw: "py_index (raw_lines cl) linenum = Some (raw_lines cl ! nat linenum)"
    using f(2,3) by (rule py_index_in_range)
  obtain b where b: "InTemplateArgumentList cl linenum (length (group_text m 1)) = Some b"
    using InTemplateArgumentList_returns [OF f(1,2)] by blast
  obtain c where c: "init_ClassInfo (group_text m 3) (group_text m 2) cl linenum = Some c"
    "class_name c = group_text m 3" "class_starting_linenum c = linenum"
    by (simp add: init_ClassInfo_def raw GetIndentLevel_def Match_ok nesting_patterns_compiled)
  have "nesting_ok (push False (ClassInfo c) st)"
    using assms(1) f(2) c name_group_text [OF nesting_texts(5) Some] by (simp add: push_ok)
  with Some b c assms(1) show ?thesis by (simp add: class_declaration_def Match_ok nesting_patterns_compiled)
qed

lemma not_seen_nonempty: "\<not> SeenOpenBrace st \<Longrightarrow> nesting_stack st \<noteq> []"
  by (simp add: SeenOpenBrace_def)

lemma check_begin_ok:
  assumes "nesting_ok st" and "line_in cl linenum"
  shows "\<exists>st'. check_begin cl linenum st = Some st' \<and> nesting_ok st'"
proof (cases "SeenOpenBrace st")
  case False
  have "\<exists>b. CheckBegin cl linenum (hd (nesting_stack st)) = Some b \<and> block_ok b"
    using top_ok [OF assms(1) not_seen_nonempty [OF False]] elided_ok [OF assms(2)]
    by (auto simp: CheckBegin_def elided_def re_total nesting_patterns_compiled block_ok_def split: block_kind.splits)
  with False assms(1) show ?thesis by (auto simp: check_begin_def set_top_ok)
qed (simp add: check_begin_def assms(1))

lemma nesting_categories [accounting]:
  "''whitespace/indent'' \<in> set ERROR_CATEGORIES" "''readability/namespace'' \<in> set ERROR_CATEGORIES"
  "''build/class'' \<in> set ERROR_CATEGORIES" "''build/namespaces'' \<in> set ERROR_CATEGORIES"
  by code_simp+

lemma update_access_ok:
  assumes "nesting_ok st" and "line_in cl linenum"
  shows "\<exists>st' es. update_access filename linenum line st = Some (st', es) \<and> nesting_ok st' \<and>
    list_all (later_report cl filename 0) es"
proof (cases "nesting_stack st")
  case Nil
  with assms(1) show ?thesis by (simp add: update_access_def)
next
  case (Cons b bs)
  with top_ok [OF assms(1)] have b: "block_ok b" by simp
  show ?thesis
  proof (cases "kind b")
    case (ClassInfo c)
    have "nesting_ok (set_top (b\<lparr>kind := ClassInfo (c\<lparr>access := a\<rparr>)\<rparr>) st)" for a
      using b ClassInfo by (intro set_top_ok [OF assms(1)]) (simp add: block_ok_def)
    with Cons ClassInfo assms show ?thesis
      by (auto simp: update_access_def re_total nesting_patterns_compiled accounting line_in_def Let_def split: option.splits)
  qed (simp_all add: update_access_def Cons assms(1))
qed

section \<open>The end of a block\<close>

lemma end_prefixes:
  "tokens (raw ''`b(DISALLOW_COPY_AND_ASSIGN|DISALLOW_IMPLICIT_CONSTRUCTORS)`('') = Some (
     [TItem (RBoundary True), TOpen] @ map (\<lambda>c. TItem (RChar c)) ''DISALLOW_COPY_AND_ASSIGN'' @ [TBar] @
     map (\<lambda>c. TItem (RChar c)) ''DISALLOW_IMPLICIT_CONSTRUCTORS'' @ [TClose, TItem (RChar (CHR ''(''))])"
  "tokens (raw ''`)'') = Some [TItem (RChar (CHR '')''))]"
  "tokens (raw ''};*`s*(//|/`*).*`bnamespace`s+'') = Some (
     [TItem (RChar (CHR ''}'')), TItem (RChar (CHR '';'')), TQuant 0 None True, TItem space_set, TQuant 0 None True, TOpen] @
     map (\<lambda>c. TItem (RChar c)) ''//'' @ [TBar] @ map (\<lambda>c. TItem (RChar c)) ''/*'' @
     [TClose, TItem RAny, TQuant 0 None True, TItem (RBoundary True)] @ map (\<lambda>c. TItem (RChar c)) ''namespace'' @
     [TItem space_set, TQuant 1 None True])"
  "tokens (raw ''[`*/`.```s]*$'') = Some
     [TItem (RSet False [ItemChar (CHR ''*''), ItemChar (CHR ''/''), ItemChar (CHR ''.''), ItemChar backslash, ItemCat CatSpace]),
      TQuant 0 None True, TItem REnd]"
  by code_simp+

lemma re_disallow_compiled:
  assumes "list_all name_char w"
  shows "re_compile (re_disallow w) \<noteq> None"
proof -
  have plain: "list_all plain_char w" using assms name_char_plain by (auto simp: list_all_iff)
  have "hd (w @ raw ''`)'') \<noteq> CHR ''?''" using plain by (cases w) (simp_all add: raw_def backslash_def plain_char_def)
  moreover have "list_all (\<lambda>c. c \<noteq> CHR ''{'' \<and> c \<noteq> CHR ''['')
      (raw ''`b(DISALLOW_COPY_AND_ASSIGN|DISALLOW_IMPLICIT_CONSTRUCTORS)`('')" by code_simp
  ultimately show ?thesis
    unfolding re_compile_def re_disallow_def
    by (simp add: tokens_append [OF end_prefixes(1)] tokens_literal [OF plain] end_prefixes(2)
        parse_toks_literal repeatable_def close_group_def)
qed

lemma re_namespace_end_compiled:
  assumes "list_all name_char w"
  shows "re_compile (re_namespace_end w) \<noteq> None"
proof -
  have "hd (re_escape w @ raw ''[`*/`.```s]*$'') \<noteq> CHR ''?''" using escape_head [OF assms, of "CHR ''[''"] by (simp add: raw_def)
  moreover have "list_all (\<lambda>c. c \<noteq> CHR ''{'' \<and> c \<noteq> CHR ''['') (raw ''};*`s*(//|/`*).*`bnamespace`s+'')" by code_simp
  ultimately show ?thesis
    unfolding re_compile_def re_namespace_end_def
    by (simp add: tokens_append [OF end_prefixes(3)] tokens_escape [OF assms] end_prefixes(4)
        parse_toks_literal repeatable_def close_group_def)
qed

lemma disallow_loop_ok:
  assumes "list_all name_char name" and "list_all (line_in cl) is"
  shows "accounts_from cl filename 0 (disallow_loop filename cl name seen is)"
  using assms(2)
proof (induction "is" arbitrary: seen)
  case (Cons i "is")
  then have i: "line_in cl i" by simp
  then have "py_index (elided_lines cl) i = Some (elided_lines cl ! nat i)" using elided_ok [OF i] by (simp add: elided_def)
  with i Cons show ?case
    by (auto simp: re_total nesting_patterns_compiled re_disallow_compiled [OF assms(1)] accounting line_in_def
        split: option.splits)
qed (simp add: accounting)

lemma CheckEnd_ok:
  assumes "block_ok b" and "line_in cl linenum"
  shows "accounts_from cl filename 0 (CheckEnd filename cl linenum b)"
proof (cases "kind b")
  case (ClassInfo c)
  with assms(1) have c: "list_all name_char (class_name c)" "0 \<le> class_starting_linenum c" by (simp_all add: block_ok_def)
  then have "list_all (line_in cl) (rev [class_starting_linenum c + 1 .. linenum - 1])"
    using assms(2) by (auto simp: list_all_iff line_in_def)
  from disallow_loop_ok [OF c(1) this, of filename False] obtain es
    where "disallow_loop filename cl (class_name c) False (rev [class_starting_linenum c + 1 .. linenum - 1]) = Some es"
      "list_all (later_report cl filename 0) es" by (rule accounts_fromE)
  moreover have "py_index (elided_lines cl) linenum = Some (elided_lines cl ! nat linenum)"
    using elided_ok [OF assms(2)] by (simp add: elided_def)
  ultimately show ?thesis using ClassInfo assms(2)
    by (auto simp: CheckEnd_def CheckEnd_class_def re_total nesting_patterns_compiled accounting line_in_def
        split: option.splits)
next
  case (NamespaceInfo name start)
  with assms(1) have "re_compile (re_namespace_end name) \<noteq> None"
    by (intro re_namespace_end_compiled) (simp add: block_ok_def)
  moreover have "py_index (raw_lines cl) linenum = Some (raw_lines cl ! nat linenum)"
    using assms(2) by (intro py_index_in_range) (auto simp: line_in_def file_ok_def lines_ok_def)
  ultimately show ?thesis using NamespaceInfo assms(2)
    by (auto simp: CheckEnd_def CheckEnd_namespace_def re_total nesting_patterns_compiled accounting line_in_def)
qed (simp_all add: CheckEnd_def accounting)

section \<open>A line keeps the invariant\<close>

definition nesting_result :: "CleansedLines \<Rightarrow> string \<Rightarrow> (NestingState \<times> event list) py \<Rightarrow> bool" where
  "nesting_result cl filename r \<longleftrightarrow>
     (\<exists>st es. r = Some (st, es) \<and> nesting_ok st \<and> list_all (later_report cl filename 0) es)"

lemma set_top_push: "nesting_ok st \<Longrightarrow> nesting_ok (set_top (hd (nesting_stack (push True BlockInfo st))\<lparr>inline_asm := a\<rparr>) (push True BlockInfo st))"
  by (intro set_top_ok push_ok) (simp_all add: push_def new_block_def block_ok_def)

lemma brace_step_ok:
  assumes "nesting_ok st" and "line_in cl linenum"
  shows "nesting_result cl filename (brace_step filename cl linenum line token st)"
proof -
  have "nesting_ok (set_top (hd (nesting_stack st)\<lparr>seen_open_brace := True\<rparr>) st)" if "\<not> SeenOpenBrace st"
    using top_ok [OF assms(1) not_seen_nonempty [OF that]] by (intro set_top_ok [OF assms(1)]) (simp add: block_ok_def)
  moreover have "accounts_from cl filename 0 (CheckEnd filename cl linenum (hd (nesting_stack st)))" if "nesting_stack st \<noteq> []"
    using top_ok [OF assms(1) that] assms(2) by (rule CheckEnd_ok)
  ultimately show ?thesis
    using assms(1) pop_block_ok [OF assms(1)] set_top_push [OF assms(1), of BLOCK_ASM]
      push_ok [OF assms(1), of True BlockInfo] push_ok [OF assms(1), of True ExternCInfo]
    by (auto simp: brace_step_def nesting_result_def re_total nesting_patterns_compiled Let_def elim!: accounts_fromE)
qed

lemma brace_loop_ok:
  assumes "nesting_ok st" and "line_in cl linenum"
  shows "nesting_result cl filename (brace_loop filename cl linenum line st)"
  using assms(1)
proof (induction line arbitrary: st rule: length_induct)
  case (1 line)
  show ?case
  proof (cases "re_match (the (re_compile re_brace)) line")
    case None
    with 1(2) show ?thesis
      by (subst brace_loop.simps) (simp add: Match_ok nesting_patterns_compiled nesting_result_def)
  next
    case (Some m)
    obtain st' es where s: "brace_step filename cl linenum line (group_text m 1) st = Some (st', es)" "nesting_ok st'"
      "list_all (later_report cl filename 0) es"
      using brace_step_ok [OF 1(2) assms(2), of filename line "group_text m 1"] unfolding nesting_result_def by blast
    have "nesting_result cl filename (brace_loop filename cl linenum (group_text m 2) st')"
      using 1(1) s(2) rest_shorter [OF nesting_texts(3) Some] by simp
    with Some s show ?thesis
      by (subst brace_loop.simps) (auto simp: Match_ok nesting_patterns_compiled nesting_result_def)
  qed
qed

lemma count_parentheses_ok: "block_ok b \<Longrightarrow> \<exists>b'. count_parentheses line b = Some b' \<and> block_ok b'"
  by (auto simp: count_parentheses_def re_total nesting_patterns_compiled block_ok_def Let_def)

lemma parentheses_ok:
  assumes "nesting_ok st"
  shows "\<exists>st'. (case nesting_stack st of [] \<Rightarrow> Some st
    | b # bs \<Rightarrow> do { b \<leftarrow> count_parentheses line b; Some (set_top b st) }) = Some st' \<and> nesting_ok st'"
proof (cases "nesting_stack st")
  case (Cons b bs)
  with top_ok [OF assms] obtain b' where "count_parentheses line b = Some b'" "block_ok b'"
    using count_parentheses_ok [of b line] by auto
  with Cons set_top_ok [OF assms] show ?thesis by simp
qed (simp add: assms)

lemma Update_returns:
  assumes "nesting_ok st" and "line_in cl linenum"
  shows "nesting_result cl filename (Update filename cl linenum st)"
proof -
  let ?l = "elided_lines cl ! nat linenum"
  let ?st = "st\<lparr>previous_stack_top := (case nesting_stack st of [] \<Rightarrow> None | b # _ \<Rightarrow> Some b)\<rparr>"
  have "nesting_ok ?st" using assms(1) by (simp add: nesting_ok_def)
  then obtain st1 where 1: "UpdatePreprocessor ?l ?st = Some st1" "nesting_ok st1" using UpdatePreprocessor_ok by blast
  from parentheses_ok [OF 1(2), of ?l] obtain st2 where 2: "(case nesting_stack st1 of [] \<Rightarrow> Some st1
    | b # bs \<Rightarrow> do { b \<leftarrow> count_parentheses ?l b; Some (set_top b st1) }) = Some st2" "nesting_ok st2" by blast
  obtain rest3 st3 where 3: "namespace_loop linenum ?l st2 = Some (rest3, st3)" "nesting_ok st3"
    using namespace_loop_ok [OF 2(2), of linenum ?l] assms(2) by (auto simp: line_in_def)
  obtain rest4 st4 where 4: "class_declaration cl linenum rest3 st3 = Some (rest4, st4)" "nesting_ok st4"
    using class_declaration_ok [OF 3(2) assms(2)] by blast
  obtain st5 where 5: "check_begin cl linenum st4 = Some st5" "nesting_ok st5" using check_begin_ok [OF 4(2) assms(2)] by blast
  obtain st6 es where 6: "update_access filename linenum rest4 st5 = Some (st6, es)" "nesting_ok st6"
    "list_all (later_report cl filename 0) es" using update_access_ok [OF 5(2) assms(2)] by blast
  have "nesting_result cl filename (brace_loop filename cl linenum rest4 st6)" using brace_loop_ok [OF 6(2) assms(2)] .
  moreover have "py_index (elided_lines cl) linenum = Some ?l" using elided_ok [OF assms(2)] by (simp add: elided_def)
  ultimately show ?thesis using 1 2 3 4 5 6 by (auto simp: Update_def Let_def nesting_result_def)
qed

text \<open>
  C7. The nesting state has an invariant: the classes and namespaces that are open, and those that the
  conditionals have saved, have names of identifier characters and colons and start on a line of a file.
  From a state that has it, \<^verbatim>\<open>NestingState.Update\<close> returns on every line of a file (its four loops
  end, and no pattern a name is put into is malformed), the state has it again, and every report is on a
  line of the file, in a listed category and with a confidence from 0 to 5.
\<close>

theorem Update_keeps_nesting_ok:
  assumes "nesting_ok st" and "line_in cl linenum"
  shows "\<exists>st' es. Update filename cl linenum st = Some (st', es) \<and> nesting_ok st' \<and>
    list_all (later_report cl filename 0) es"
  using Update_returns [OF assms] by (simp add: nesting_result_def)

theorem Update_keeps_nesting_ok_witness:
  "let cl = plain_file [[], ''class Foo {'', ''  DISALLOW_COPY_AND_ASSIGN(Foo);'', ''  int x;'', ''};''] in
   \<exists>st es. Update ''a.h'' cl 4 inside_class = Some (st, es) \<and> nesting_ok st \<and> nesting_stack st = [] \<and>
     list_all (later_report cl ''a.h'' 0) es \<and>
     es = [Report ''a.h'' 2 ''readability/constructors'' 3 ''DISALLOW_COPY_AND_ASSIGN should be the last thing in the class'']"
proof -
  let ?cl = "plain_file [[], ''class Foo {'', ''  DISALLOW_COPY_AND_ASSIGN(Foo);'', ''  int x;'', ''};'']"
  have "nesting_ok inside_class" by code_simp
  moreover have "line_in ?cl 4" by (simp add: plain_file_line)
  moreover have "map_option (\<lambda>(st, es). (nesting_stack st, es)) (Update ''a.h'' ?cl 4 inside_class) = Some ([],
    [Report ''a.h'' 2 ''readability/constructors'' 3 ''DISALLOW_COPY_AND_ASSIGN should be the last thing in the class''])"
    by code_simp
  ultimately show ?thesis using Update_keeps_nesting_ok [of inside_class ?cl 4 "''a.h''"]
    unfolding Let_def by auto
qed

end
