(* ===== verification/ProcessLines.thy ===== *)
theory ProcessLines
  imports FileChecks NestingInvariant
begin

text \<open>
  \<^verbatim>\<open>ProcessLine\<close> and \<^verbatim>\<open>ProcessFileData\<close> of \<^verbatim>\<open>script/cpplint.py\<close>: all the checks of a file, in the order in which
  the program runs them, with the state that is threaded through the lines. What the checks report is
  collected as a list of events and carried out in order (\<open>perform_all\<close>): no check reads what the sink of
  the errors keeps. A file whose check raises has no events: the exception ends the program.
\<close>

section \<open>One line\<close>

record file_state =
  file_includes :: IncludeState
  file_functions :: FunctionState
  file_nesting :: NestingState

definition init_file_state :: file_state where
  "init_file_state = \<lparr>file_includes = init_IncludeState, file_functions = init_FunctionState, file_nesting = init_NestingState\<rparr>"

type_synonym check_fn = "string \<Rightarrow> CleansedLines \<Rightarrow> int \<Rightarrow> event list py"

text \<open>The checks of a line that keep no state, in the order of the calls.\<close>

definition stateless_checks :: "NestingState \<Rightarrow> check_fn list" where
  "stateless_checks st =
     [CheckForNonConstReference st, CheckForNonStandardConstructs st, CheckVlogArguments, CheckPosixThreading,
      CheckInvalidIncrement, CheckMakePairUsesDeduction, CheckDefaultLambdaCaptures, CheckRedundantVirtual,
      CheckRedundantOverrideOrFinal]"

text \<open>
  The globals \<^verbatim>\<open>_root\<close>, \<^verbatim>\<open>_line_length\<close> and the verbosity are read by the checks and not changed by them.
\<close>

definition ProcessLine ::
    "os \<Rightarrow> globals \<Rightarrow> check_fn list \<Rightarrow> string \<Rightarrow> string \<Rightarrow> CleansedLines \<Rightarrow> int \<Rightarrow> file_state \<Rightarrow>
     (file_state \<times> event list) py" where
  "ProcessLine env gl extra_check_functions filename file_extension clean_lines line st = do {
     raw_line \<leftarrow> py_index (raw_lines clean_lines) line;
     nolints \<leftarrow> ParseNolintSuppressions filename raw_line line;
     (nesting_state, updates) \<leftarrow> Update filename clean_lines line (file_nesting st);
     indents \<leftarrow> CheckForNamespaceIndentation nesting_state filename clean_lines line;
     let st = st\<lparr>file_nesting := nesting_state\<rparr>;
     if InAsmBlock nesting_state then Some (st, nolints @ updates @ indents)
     else do {
       (function_state, lengths) \<leftarrow>
         CheckForFunctionLengths (verbose_level (cpplint_state gl)) filename clean_lines line (file_functions st);
       multiline \<leftarrow> CheckForMultilineCommentsAndStrings filename clean_lines line;
       styles \<leftarrow> CheckStyle env (root gl) (line_length gl) file_extension nesting_state filename clean_lines line;
       (include_state, languages) \<leftarrow> CheckLanguage env file_extension filename clean_lines line (file_includes st);
       others \<leftarrow> run_checks (stateless_checks nesting_state @ extra_check_functions) filename clean_lines line;
       Some (st\<lparr>file_functions := function_state, file_includes := include_state\<rparr>,
             nolints @ updates @ indents @ lengths @ multiline @ styles @ languages @ others)
     }
   }"

section \<open>A file\<close>

text \<open>The loop over the line numbers.\<close>

fun line_loop ::
    "os \<Rightarrow> globals \<Rightarrow> check_fn list \<Rightarrow> string \<Rightarrow> string \<Rightarrow> CleansedLines \<Rightarrow> file_state \<Rightarrow> int list \<Rightarrow>
     (file_state \<times> event list) py" where
  "line_loop env gl extras filename file_extension clean_lines st [] = Some (st, [])"
| "line_loop env gl extras filename file_extension clean_lines st (line # lines) = do {
     (st, es) \<leftarrow> ProcessLine env gl extras filename file_extension clean_lines line st;
     flags \<leftarrow> FlagCxx11Features filename clean_lines line;
     (st, later) \<leftarrow> line_loop env gl extras filename file_extension clean_lines st lines;
     Some (st, es @ flags @ later)
   }"

definition with_markers :: "string list \<Rightarrow> string list" where
  "with_markers lines = [''// marker so line numbers and indices both start at 1''] @ lines @
     [''// marker so line numbers end in a known way'']"

text \<open>
  The events of a file. \<^verbatim>\<open>RemoveMultiLineComments\<close> changes the list of lines in place: the checks of bad
  characters and of the last newline see its result. \<open>open_file\<close> gives the lines of a header that is read
  for its includes, and \<open>dict_order\<close> is the order in which a dictionary is iterated.
\<close>

definition file_events ::
    "os \<Rightarrow> (string \<Rightarrow> string list option) \<Rightarrow> (string list \<Rightarrow> string list) \<Rightarrow> globals \<Rightarrow> check_fn list \<Rightarrow>
     string \<Rightarrow> string \<Rightarrow> string list \<Rightarrow> event list py" where
  "file_events env open_file dict_order gl extras filename file_extension lines = do {
     let lines = with_markers lines;
     copyright \<leftarrow> CheckForCopyright filename lines;
     let (lines, comments) = RemoveMultiLineComments filename lines;
     clean_lines \<leftarrow> init_CleansedLines lines;
     guard \<leftarrow> (if file_extension = ''h'' then CheckForHeaderGuard env (root gl) filename clean_lines else Some []);
     (st, es) \<leftarrow> line_loop env gl extras filename file_extension clean_lines init_file_state [0..NumLines clean_lines - 1];
     uses \<leftarrow> CheckForIncludeWhatYouUse env open_file dict_order filename clean_lines (file_includes st);
     own_header \<leftarrow> (if file_extension = ''cc'' then CheckHeaderFileIncluded env filename (file_includes st) else Some []);
     newline_at_eof \<leftarrow> CheckForNewlineAtEOF filename (map (map code) lines);
     Some (copyright @ comments @ guard @ es @ CheckCompletedBlocks filename (file_nesting st) @ uses @ own_header @
           CheckForBadCharacters filename (map (map code) lines) @ newline_at_eof)
   }"

definition ProcessFileData ::
    "os \<Rightarrow> (string \<Rightarrow> string list option) \<Rightarrow> (string list \<Rightarrow> string list) \<Rightarrow> check_fn list \<Rightarrow>
     string \<Rightarrow> string \<Rightarrow> string list \<Rightarrow> globals \<Rightarrow> globals py" where
  "ProcessFileData env open_file dict_order extra_check_functions filename file_extension lines gl = do {
     es \<leftarrow> file_events env open_file dict_order gl extra_check_functions filename file_extension lines;
     perform_all es (gl\<lparr>error_suppressions := ResetNolintSuppressions\<rparr>)
   }"

section \<open>The contract of a line\<close>

text \<open>A report on a line of the file, or the suppression of a listed category on a line of it or the next one.\<close>

definition event_in :: "CleansedLines \<Rightarrow> string \<Rightarrow> event \<Rightarrow> bool" where
  "event_in cl filename e =
     (case e of
        Report _ _ _ _ _ \<Rightarrow> later_report cl filename 0 e
      | Suppress k n \<Rightarrow> (case k of None \<Rightarrow> True | Some c \<Rightarrow> c \<in> set ERROR_CATEGORIES) \<and> 0 \<le> n \<and> n \<le> NumLines cl)"

definition events_in :: "CleansedLines \<Rightarrow> string \<Rightarrow> event list py \<Rightarrow> bool" where
  "events_in cl filename r = (case r of None \<Rightarrow> False | Some es \<Rightarrow> list_all (event_in cl filename) es)"

lemma events_inE:
  assumes "events_in cl filename r"
  obtains es where "r = Some es" and "list_all (event_in cl filename) es"
  using assms by (auto simp: events_in_def split: option.splits)

lemma later_event: "0 \<le> linenum \<Longrightarrow> later_report cl filename linenum e \<Longrightarrow> event_in cl filename e"
  by (cases e) (auto simp: event_in_def later_report_def)

lemma from_events: "0 \<le> linenum \<Longrightarrow> accounts_from cl filename linenum r \<Longrightarrow> events_in cl filename r"
  by (elim accounts_fromE) (simp add: events_in_def list_all_iff later_event [of linenum])

lemma for_events: "line_in cl linenum \<Longrightarrow> accounts_for filename linenum r \<Longrightarrow> events_in cl filename r"
  using from_events [of linenum cl filename r] accounts_for_from by (simp add: line_in_def)

lemma nolint_listed: "''readability/nolint'' \<in> set ERROR_CATEGORIES"
  by code_simp

lemma nolint_events:
  assumes "line_in cl linenum"
  shows "events_in cl filename (ParseNolintSuppressions filename raw_line linenum)"
proof -
  have "re_compile re_nolint \<noteq> None" by code_simp
  with assms show ?thesis
    by (auto simp: ParseNolintSuppressions_def events_in_def Search_ok event_in_def Let_def line_in_def accounting nolint_listed
        split: option.splits)
qed

lemma indentation_events:
  assumes "line_in cl linenum"
  shows "events_in cl filename (CheckForNamespaceIndentation st filename cl linenum)"
proof -
  have i: "py_index (elided_lines cl) linenum = Some (elided_lines cl ! nat linenum)"
    using elided_ok [OF assms] by (simp add: elided_def)
  have "\<exists>l. py_index (elided_lines cl) (linenum - 1) = Some l" if "0 < linenum"
    using that assms py_index_in_range [of "linenum - 1" "elided_lines cl"]
    by (auto simp: line_in_def file_ok_def lines_ok_def)
  then have "\<exists>b. ShouldCheckNamespaceIndentation st c (elided_lines cl) linenum = Some b" for c
    by (auto simp: ShouldCheckNamespaceIndentation_def IsForwardClassDeclaration_def IsMacroDefinition_def i check_ok ex_bool_eq)
  then obtain should where "ShouldCheckNamespaceIndentation st (case nesting_stack st of
          b # c # _ \<Rightarrow> check_namespace_indentation b \<and>
            (case previous_stack_top st of Some p \<Rightarrow> is_namespace p \<and> block_id p = block_id c | None \<Rightarrow> False)
        | _ \<Rightarrow> False) (elided_lines cl) linenum = Some should" by blast
  then have "accounts_for filename linenum (CheckForNamespaceIndentation st filename cl linenum)"
    by (simp add: CheckForNamespaceIndentation_def CheckItemIndentationInNamespace_def i check_ok)
  with assms show ?thesis by (rule for_events)
qed

text \<open>
  What a line must not have for the checks to return: a cast whose address is taken and whose bracket ends a
  line, a constructor whose arguments do not balance, an rvalue reference whose search runs on. Each is
  characterised where the check is.
\<close>

definition regular_line :: "CleansedLines \<Rightarrow> int \<Rightarrow> NestingState \<Rightarrow> bool" where
  "regular_line cl linenum st \<longleftrightarrow> \<not> cut_cast cl linenum \<and>
     \<not> unbalanced_constructor st (elided_lines cl ! nat linenum) \<and> rvalue_search_ends st cl linenum"

definition state_ok :: "file_state \<Rightarrow> bool" where
  "state_ok st \<longleftrightarrow> nesting_ok (file_nesting st) \<and> includes_ok (file_includes st)"

lemma init_state_ok: "state_ok init_file_state"
  by (simp add: state_ok_def init_file_state_def init_nesting_ok init_includes_ok)

text \<open>The name of the file can be found, and the header guard for it.\<close>

definition named_file :: "os \<Rightarrow> globals \<Rightarrow> string \<Rightarrow> string \<Rightarrow> bool" where
  "named_file env gl filename file_extension \<longleftrightarrow> RepositoryName env filename \<noteq> None \<and>
     (file_extension = ''h'' \<longrightarrow> GetHeaderGuardCPPVariable env (root gl) filename \<noteq> None) \<and>
     0 \<le> verbose_level (cpplint_state gl)"

definition good_extras :: "CleansedLines \<Rightarrow> string \<Rightarrow> check_fn list \<Rightarrow> bool" where
  "good_extras cl filename extras \<longleftrightarrow>
     (\<forall>check \<in> set extras. \<forall>linenum. line_in cl linenum \<longrightarrow> accounts_from cl filename linenum (check filename cl linenum))"

lemma stateless_events:
  assumes l: "line_in cl linenum" and st: "nesting_ok st" and "regular_line cl linenum st" and "good_extras cl filename extras"
  shows "accounts_from cl filename linenum (run_checks (stateless_checks st @ extras) filename cl linenum)"
proof -
  have "accounts_for filename linenum (CheckForNonStandardConstructs st filename cl linenum)"
    using CheckForNonStandardConstructs_returns [OF l, of st filename] nesting_ok_classes [OF st] assms(3)
    by (simp add: regular_line_def)
  then have "accounts_from cl filename linenum (check filename cl linenum)" if "check \<in> set (stateless_checks st)" for check
    using that by (auto simp: stateless_checks_def accounts_for_from [OF l] non_const_reference.from_line [OF l]
        vlog.from_line [OF l] threading.from_line [OF l] increment.from_line [OF l] make_pair.from_line [OF l]
        lambda.from_line [OF l] redundant_virtual.from_line [OF l] redundant_override.from_line [OF l])
  with assms(4) l show ?thesis by (intro run_checks_from) (auto simp: list_all_iff good_extras_def)
qed

lemma ProcessLine_returns:
  assumes l: "line_in cl linenum" and st: "state_ok st" and named: "named_file env gl filename ext"
    and regular: "\<And>st' es. Update filename cl linenum (file_nesting st) = Some (st', es) \<Longrightarrow> regular_line cl linenum st'"
    and extras: "good_extras cl filename extras"
  shows "\<exists>st' es es'. ProcessLine env gl extras filename ext cl linenum st = Some (st', es) \<and> state_ok st' \<and>
    list_all (event_in cl filename) es \<and> Update filename cl linenum (file_nesting st) = Some (file_nesting st', es')"
proof -
  have pos: "0 \<le> linenum" using l by (simp add: line_in_def)
  obtain ns us where u: "Update filename cl linenum (file_nesting st) = Some (ns, us)" "nesting_ok ns"
    "list_all (later_report cl filename 0) us"
    using Update_returns [OF _ l, of "file_nesting st" filename] st unfolding state_ok_def nesting_result_def by blast
  note r = regular [OF u(1)]
  have us: "list_all (event_in cl filename) us" using u(3) by (auto simp: list_all_iff intro: later_event [of 0])
  obtain raw_line where raw: "py_index (raw_lines cl) linenum = Some raw_line"
    using py_index_in_range [of linenum "raw_lines cl"] l by (auto simp: line_in_def file_ok_def lines_ok_def)
  obtain nolints where n: "ParseNolintSuppressions filename raw_line linenum = Some nolints" "list_all (event_in cl filename) nolints"
    using nolint_events [OF l] by (rule events_inE)
  obtain indents where i: "CheckForNamespaceIndentation ns filename cl linenum = Some indents" "list_all (event_in cl filename) indents"
    using indentation_events [OF l] by (rule events_inE)
  obtain fs ls where f: "CheckForFunctionLengths (verbose_level (cpplint_state gl)) filename cl linenum (file_functions st) = Some (fs, ls)"
    "list_all (proper_report filename linenum) ls"
    using CheckForFunctionLengths_total [OF l] named unfolding named_file_def by blast
  have ls: "list_all (event_in cl filename) ls"
    using f(2) for_events [OF l, of filename "Some ls"] by (simp add: accounting events_in_def)
  obtain ms where m: "CheckForMultilineCommentsAndStrings filename cl linenum = Some ms" "list_all (event_in cl filename) ms"
    using for_events [OF l multiline.on_line [OF l]] by (rule events_inE)
  have "events_in cl filename (CheckStyle env (root gl) (line_length gl) ext ns filename cl linenum)"
    using CheckStyle_returns [OF l] nesting_ok_classes [OF u(2)] r named
    by (intro from_events [OF pos]) (auto simp: regular_line_def named_file_def)
  then obtain ss where s: "CheckStyle env (root gl) (line_length gl) ext ns filename cl linenum = Some ss"
    "list_all (event_in cl filename) ss" by (rule events_inE)
  obtain name where "RepositoryName env filename = Some name" using named by (auto simp: named_file_def)
  then obtain ic cs where c: "CheckLanguage env ext filename cl linenum (file_includes st) = Some (ic, cs)" "includes_ok ic"
    "list_all (proper_report filename linenum) cs"
    using CheckLanguage_returns [OF l, of "file_includes st" env filename name ext] st r
    unfolding state_ok_def regular_line_def by blast
  have cs: "list_all (event_in cl filename) cs"
    using c(3) for_events [OF l, of filename "Some cs"] by (simp add: accounting events_in_def)
  obtain os where o: "run_checks (stateless_checks ns @ extras) filename cl linenum = Some os" "list_all (event_in cl filename) os"
    using from_events [OF pos stateless_events [OF l u(2) r extras]] by (rule events_inE)
  show ?thesis
    using u us raw n i f(1) ls m s c(1,2) cs o st
    by (auto simp: ProcessLine_def Let_def state_ok_def)
qed

section \<open>All the lines\<close>

text \<open>The nesting states after each line, as far as they can be computed.\<close>

fun nesting_states :: "string \<Rightarrow> CleansedLines \<Rightarrow> NestingState \<Rightarrow> int list \<Rightarrow> (int \<times> NestingState) list" where
  "nesting_states filename cl st [] = []"
| "nesting_states filename cl st (i # is) =
     (case Update filename cl i st of None \<Rightarrow> [] | Some (st', _) \<Rightarrow> (i, st') # nesting_states filename cl st' is)"

lemma line_loop_returns:
  assumes "list_all (line_in cl) is" and "state_ok st" and "named_file env gl filename ext"
    and "good_extras cl filename extras"
    and "list_all (\<lambda>(i, ns). regular_line cl i ns) (nesting_states filename cl (file_nesting st) is)"
  shows "\<exists>st' es. line_loop env gl extras filename ext cl st is = Some (st', es) \<and> state_ok st' \<and>
    list_all (event_in cl filename) es"
  using assms(1,2,5)
proof (induction "is" arbitrary: st)
  case (Cons i "is")
  then have i: "line_in cl i" by simp
  have regular: "regular_line cl i ns" if "Update filename cl i (file_nesting st) = Some (ns, us)" for ns us
    using Cons.prems(3) that by simp
  obtain st1 es us where 1: "ProcessLine env gl extras filename ext cl i st = Some (st1, es)" "state_ok st1"
    "list_all (event_in cl filename) es" "Update filename cl i (file_nesting st) = Some (file_nesting st1, us)"
    using ProcessLine_returns [OF i Cons.prems(2) assms(3) _ assms(4)] regular by blast
  obtain fs where f: "FlagCxx11Features filename cl i = Some fs" "list_all (event_in cl filename) fs"
    using for_events [OF i cxx11.on_line [OF i]] by (rule events_inE)
  have "\<exists>st' es. line_loop env gl extras filename ext cl st1 is = Some (st', es) \<and> state_ok st' \<and> list_all (event_in cl filename) es"
    using Cons.prems 1(2,4) by (intro Cons.IH) simp_all
  with 1 f show ?case by auto
qed simp

text \<open>The lines of a file, after the comments are removed, none of which makes a check raise or run on.\<close>

definition regular_file :: "string \<Rightarrow> string list \<Rightarrow> bool" where
  "regular_file filename lines =
     (case init_CleansedLines (fst (RemoveMultiLineComments filename (with_markers lines))) of
        None \<Rightarrow> False
      | Some cl \<Rightarrow> list_all (\<lambda>(i, ns). regular_line cl i ns)
          (nesting_states filename cl init_NestingState [0..NumLines cl - 1]))"

section \<open>The checks of the whole file\<close>

definition event_ok :: "string \<Rightarrow> event \<Rightarrow> bool" where
  "event_ok filename e =
     (case e of
        Report f l category confidence _ \<Rightarrow>
          f = filename \<and> 0 \<le> l \<and> category \<in> set ERROR_CATEGORIES \<and> 0 \<le> confidence \<and> confidence \<le> 5
      | Suppress k n \<Rightarrow> (case k of None \<Rightarrow> True | Some c \<Rightarrow> c \<in> set ERROR_CATEGORIES) \<and> 0 \<le> n)"

definition well_reported :: "string \<Rightarrow> event list py \<Rightarrow> bool" where
  "well_reported filename r = (case r of None \<Rightarrow> False | Some es \<Rightarrow> list_all (event_ok filename) es)"

lemma well_reportedE:
  assumes "well_reported filename r"
  obtains es where "r = Some es" and "list_all (event_ok filename) es"
  using assms by (auto simp: well_reported_def split: option.splits)

lemma event_in_ok: "event_in cl filename e \<Longrightarrow> event_ok filename e"
  by (cases e) (auto simp: event_in_def event_ok_def later_report_def proper_report_def)

lemma file_patterns_compiled:
  "re_compile re_copyright \<noteq> None" "re_compile re_guard_nolint \<noteq> None" "re_compile re_single_line_comment \<noteq> None"
  "re_compile re_nolint \<noteq> None"
  by code_simp+

lemma file_categories:
  "''legal/copyright'' \<in> set ERROR_CATEGORIES" "''build/header_guard'' \<in> set ERROR_CATEGORIES"
  "''readability/multiline_comment'' \<in> set ERROR_CATEGORIES" "''build/include'' \<in> set ERROR_CATEGORIES"
  "''build/include_what_you_use'' \<in> set ERROR_CATEGORIES" "''readability/utf8'' \<in> set ERROR_CATEGORIES"
  "''readability/nul'' \<in> set ERROR_CATEGORIES" "''whitespace/ending_newline'' \<in> set ERROR_CATEGORIES"
  "''build/class'' \<in> set ERROR_CATEGORIES" "''build/namespaces'' \<in> set ERROR_CATEGORIES"
  "''readability/nolint'' \<in> set ERROR_CATEGORIES" "''whitespace/newline'' \<in> set ERROR_CATEGORIES"
  by code_simp+

lemmas file_ok_rules = file_patterns_compiled file_categories re_total well_reported_def event_ok_def

lemma copyright_events: "well_reported filename (CheckForCopyright filename lines)"
proof -
  have "\<exists>b. copyright_loop ls = Some b" for ls by (induction ls) (auto simp: file_ok_rules)
  then obtain b where "copyright_loop (drop 1 (take 11 lines)) = Some b" by blast
  then show ?thesis by (simp add: CheckForCopyright_def file_ok_rules)
qed

lemma RemoveMultiLineComments_events:
  assumes "list_all one_line lines"
  shows "list_all one_line (fst (RemoveMultiLineComments filename lines)) \<and>
    length (fst (RemoveMultiLineComments filename lines)) = length lines \<and>
    list_all (event_ok filename) (snd (RemoveMultiLineComments filename lines))"
proof -
  have spec: "comments_removed filename lines 0 (RemoveMultiLineComments filename lines)"
    using RemoveMultiLineComments_from_spec [of 0 lines] by (simp add: RemoveMultiLineComments_def)
  have "one_line ''/**/''" by code_simp
  with spec assms have "list_all one_line (fst (RemoveMultiLineComments filename lines))"
    by (auto simp: comments_removed_def list_all_length)
  with spec show ?thesis by (auto simp: comments_removed_def file_ok_rules)
qed

lemma nolint_well_reported: "0 \<le> linenum \<Longrightarrow> well_reported filename (ParseNolintSuppressions filename line linenum)"
  by (auto simp: ParseNolintSuppressions_def file_ok_rules Let_def split: option.splits)

lemma scan_guard_range:
  assumes "0 \<le> k" and "0 \<le> ifndef_linenum s" and "ifndef_linenum s < k + int (length lines)"
    and "0 \<le> endif_linenum s" and "endif_linenum s < k + int (length lines)"
  shows "0 \<le> ifndef_linenum (scan_guard k lines s) \<and> ifndef_linenum (scan_guard k lines s) < k + int (length lines) \<and>
    0 \<le> endif_linenum (scan_guard k lines s) \<and> endif_linenum (scan_guard k lines s) < k + int (length lines)"
  using assms
proof (induction lines arbitrary: k s)
  case (Cons line lines)
  let ?s = "scan_step k line s"
  have "ifndef_linenum ?s \<in> {ifndef_linenum s, k}" "endif_linenum ?s \<in> {endif_linenum s, k}"
    by (auto simp: scan_step_def Let_def)
  with Cons.prems have "0 \<le> k + 1" "0 \<le> ifndef_linenum ?s" "ifndef_linenum ?s < (k + 1) + int (length lines)"
    "0 \<le> endif_linenum ?s" "endif_linenum ?s < (k + 1) + int (length lines)" by auto
  from Cons.IH [OF this] show ?case by (simp add: add.assoc)
qed simp

lemma re_guard_endif_c_compiled:
  assumes "list_all plain_char g"
  shows "re_compile (re_guard_endif_c g) \<noteq> None"
proof -
  have pre: "tokens (raw ''#endif`s*/`*`s*'') = Some (map (\<lambda>c. TItem (RChar c)) ''#endif'' @
      [TItem space_set, TQuant 0 None True] @ map (\<lambda>c. TItem (RChar c)) ''/*'' @ [TItem space_set, TQuant 0 None True])"
    and post: "tokens (raw ''(_)?`s*`*/'') = Some ([TOpen, TItem (RChar (CHR ''_'')), TClose, TQuant 0 (Some 1) True,
      TItem space_set, TQuant 0 None True] @ map (\<lambda>c. TItem (RChar c)) ''*/'')"
    and plain: "list_all (\<lambda>c. c \<noteq> CHR ''{'' \<and> c \<noteq> CHR ''['') (raw ''#endif`s*/`*`s*'')" by code_simp+
  have "hd (g @ raw ''(_)?`s*`*/'') \<noteq> CHR ''?''" using assms by (cases g) (simp_all add: raw_def plain_char_def)
  then show ?thesis unfolding re_compile_def re_guard_endif_c_def
    by (simp add: tokens_append [OF pre plain] tokens_literal [OF assms] post parse_toks_literal repeatable_def close_group_def)
qed

lemma check_endif_events:
  assumes "list_all plain_char g" and "g \<noteq> []" and "0 \<le> endif_linenum s"
  shows "well_reported filename (check_endif filename lines g s)"
proof -
  have "\<exists>b. any_match re_single_line_comment ls = Some b" for ls by (induction ls) (auto simp: file_ok_rules)
  then obtain single where "any_match re_single_line_comment (drop 1 (take (length lines - 1) lines)) = Some single" by blast
  with assms(3) re_guard_endif_compiled [OF assms(1,2)] re_guard_endif_c_compiled [OF assms(1)] show ?thesis
    by (auto simp: check_endif_def guard_report_def file_ok_rules Let_def split: option.splits)
qed

lemma header_guard_events:
  assumes "GetHeaderGuardCPPVariable env root_flag filename \<noteq> None" and "lines_without_raw_strings cl \<noteq> []"
  shows "well_reported filename (CheckForHeaderGuard env root_flag filename cl)"
proof -
  let ?ls = "lines_without_raw_strings cl" and ?s = "scan_guard 0 (lines_without_raw_strings cl) init_scan"
  obtain g where g: "GetHeaderGuardCPPVariable env root_flag filename = Some g" using assms(1) by blast
  have "\<exists>b. any_line re_guard_nolint ls = Some b" for ls by (induction ls) (auto simp: file_ok_rules)
  then obtain b where b: "any_line re_guard_nolint ?ls = Some b" by blast
  have r: "0 \<le> ifndef_linenum ?s" "ifndef_linenum ?s < int (length ?ls)" "0 \<le> endif_linenum ?s" "endif_linenum ?s < int (length ?ls)"
    using scan_guard_range [of 0 init_scan ?ls] assms(2) by (simp_all add: init_scan_def)
  obtain a where a: "ParseNolintSuppressions filename (?ls ! nat (ifndef_linenum ?s)) (ifndef_linenum ?s) = Some a"
    "list_all (event_ok filename) a" using nolint_well_reported [OF r(1)] by (rule well_reportedE)
  obtain c where c: "ParseNolintSuppressions filename (?ls ! nat (endif_linenum ?s)) (endif_linenum ?s) = Some c"
    "list_all (event_ok filename) c" using nolint_well_reported [OF r(3)] by (rule well_reportedE)
  obtain d where d: "check_endif filename ?ls g ?s = Some d" "list_all (event_ok filename) d"
    using check_endif_events [OF guard_characters(1,3) [OF g] r(3)] by (rule well_reportedE)
  have rep: "event_ok filename (guard_report filename n k m)" if "0 \<le> n" "0 \<le> k" "k \<le> 5" for n k m
    using that by (simp add: guard_report_def file_ok_rules)
  from a c d r show ?thesis
    by (simp add: CheckForHeaderGuard_def b g Let_def py_index_in_range well_reported_def rep)
qed

lemma required_lines:
  assumes "0 \<le> k" and "list_all (\<lambda>(_, n, _). 0 \<le> n) required"
  shows "\<exists>r. required_loop k lines required = Some r \<and> list_all (\<lambda>(_, n, _). 0 \<le> n) r"
  using assms
proof (induction lines arbitrary: k required)
  case (Cons line lines)
  have set: "list_all (\<lambda>(_, n, _). 0 \<le> n) (dict_set h (k, t) r)" if "list_all (\<lambda>(_, n, _). 0 \<le> n) r" for h t r
    using that Cons.prems(1) by (induction r) auto
  have loop: "\<exists>r. pattern_loop ps line k required = Some r \<and> list_all (\<lambda>(_, n, _). 0 \<le> n) r"
    if "list_all (\<lambda>(p, _, _). re_compile p \<noteq> None) ps" "list_all (\<lambda>(_, n, _). 0 \<le> n) required" for ps required
    using that by (induction ps arbitrary: required) (auto simp: Searches_ok set)
  have "list_all (\<lambda>(p, _, _). re_compile p \<noteq> None) re_pattern_algorithm_header"
    "list_all (\<lambda>(p, _, _). re_compile p \<noteq> None) re_pattern_templates" "re_compile RE_PATTERN_STRING \<noteq> None" by code_simp+
  note pats = this
  have "\<exists>r. required_by k line required = Some r \<and> list_all (\<lambda>(_, n, _). 0 \<le> n) r"
  proof (cases "line = [] \<or> hd line = CHR ''#''")
    case False
    define r1 where "r1 = (case re_search (the (re_compile RE_PATTERN_STRING)) line of None \<Rightarrow> required
      | Some m \<Rightarrow> (let prefix = take (m_start m) line in if endswith prefix ''std::'' \<or> \<not> endswith prefix ''::''
          then dict_set ''<string>'' (k, ''string'') required else required))"
    have "list_all (\<lambda>(_, n, _). 0 \<le> n) r1" using Cons.prems(2) set [OF Cons.prems(2)] by (simp add: r1_def Let_def split: option.split)
    from loop [OF pats(1) this] obtain r2 where r2: "pattern_loop re_pattern_algorithm_header line k r1 = Some r2"
      "list_all (\<lambda>(_, n, _). 0 \<le> n) r2" by blast
    from False have "required_by k line required =
        (if \<not> contains line ''<'' then Some r2 else pattern_loop re_pattern_templates line k r2)"
      using r2(1) by (simp add: required_by_def Search_ok pats(3) r1_def)
    with loop [OF pats(2) r2(2)] r2(2) show ?thesis by simp
  qed (simp add: required_by_def Cons.prems(2))
  then obtain r where "required_by k line required = Some r" "list_all (\<lambda>(_, n, _). 0 \<le> n) r" by blast
  with Cons.IH [of "k + 1" r] Cons.prems(1) show ?case by simp
qed simp

lemma header_keys_return: "\<exists>p. header_keys_loop open_file f hs found d = Some p"
proof (induction hs arbitrary: found d)
  case (Cons h hs)
  have "re_compile RE_PATTERN_INCLUDE \<noteq> None" by code_simp
  then have "\<exists>r. read_includes k ls d = Some r" for k ls d
    using CleanseComments_returns by (induction ls arbitrary: k d) (auto simp: Search_ok, metis bind.bind_lunit)
  then have "\<exists>p. UpdateIncludeState open_file g d = Some p" for g
    by (cases "open_file g") (simp_all add: UpdateIncludeState_def, metis bind.bind_lunit)
  with Cons show ?case by (auto split: prod.splits) (metis bind.bind_lunit prod.case surj_pair)
qed simp

lemma include_use_events: "well_reported filename (CheckForIncludeWhatYouUse env open_file dict_order filename cl st)"
proof -
  obtain required where r: "required_loop 0 (take (nat (NumLines cl)) (elided_lines cl)) [] = Some required"
    "list_all (\<lambda>(_, n, _). 0 \<le> n) required" using required_lines [of 0 "[]"] by auto
  let ?d = "foldl (\<lambda>d (k, v). dict_set k v d) [] (concat (include_list st))"
  obtain f where f: "re_sub_with re_flymake_cc (\<lambda>_. ''.cc'') (FullName env filename) = Some f"
    using use_patterns_compiled(2) by (auto simp: re_sub_with_def)
  obtain found d where "header_keys_loop open_file f (dict_order (map fst ?d)) False ?d = Some (found, d)"
    using header_keys_return by (metis surj_pair)
  moreover have "0 \<le> n" if "Some (n, t) = map_of required h" for h n t
    using map_of_SomeD [OF that [symmetric]] r(2) by (auto simp: list_all_iff)
  ultimately show ?thesis using r(1) f
    by (auto simp: CheckForIncludeWhatYouUse_def file_ok_rules list_all_iff report_if_def split: option.splits if_splits)
qed

text \<open>The names of the file and of its header can be found.\<close>

lemma own_header_events:
  assumes "RepositoryName env filename \<noteq> None"
    and "RepositoryName env (py_slice filename 0 (int (length filename) - 2) @ ''h'') \<noteq> None" and "includes_ok st"
  shows "well_reported filename (CheckHeaderFileIncluded env filename st)"
proof -
  have "0 \<le> n" if "header_loop h k fs = Some n" "0 \<le> k" "list_all (\<lambda>f. 0 \<le> snd f) fs" for h k fs n
    using that by (induction fs arbitrary: k) (auto split: if_splits)
  moreover have "list_all (\<lambda>f. 0 \<le> snd f) (concat (include_list st))" using assms(3) by (simp add: includes_ok_def)
  ultimately show ?thesis using assms(1,2)
    by (auto simp: CheckHeaderFileIncluded_def Let_def file_ok_rules split: option.splits)
qed

lemma character_events: "0 \<le> k \<Longrightarrow> list_all (event_ok filename) (bad_characters_from filename k lines)"
  by (induction lines arbitrary: k) (simp_all add: file_ok_rules)

lemma newline_events: "2 \<le> length lines \<Longrightarrow> well_reported filename (CheckForNewlineAtEOF filename lines)"
  by (auto simp: CheckForNewlineAtEOF_def file_ok_rules py_index_def Let_def)

lemma completed_events:
  assumes "nesting_ok st"
  shows "list_all (event_ok filename) (CheckCompletedBlocks filename st)"
proof -
  have "list_all (event_ok filename) (incomplete_block filename (kind b))" if "block_ok b" for b
    using that by (cases "kind b") (auto simp: block_ok_def file_ok_rules)
  with assms show ?thesis by (auto simp: CheckCompletedBlocks_def nesting_ok_def list_all_iff)
qed

section \<open>The file\<close>

lemma file_events_return:
  assumes "list_all one_line lines" and "regular_file filename lines" and named: "named_file env gl filename ext"
    and "RepositoryName env (py_slice filename 0 (int (length filename) - 2) @ ''h'') \<noteq> None"
    and extras: "\<And>cl. good_extras cl filename extras"
  shows "well_reported filename (file_events env open_file dict_order gl extras filename ext lines)"
proof -
  let ?r = "RemoveMultiLineComments filename (with_markers lines)"
  have "list_all one_line (with_markers [])" by code_simp
  with assms(1) have marked: "list_all one_line (with_markers lines)" by (simp add: with_markers_def)
  note comments = RemoveMultiLineComments_events [OF this, of filename]
  obtain cl where cl: "init_CleansedLines (fst ?r) = Some cl" "length (elided_lines cl) = length (fst ?r)"
    "length (cleansed_lines cl) = length (fst ?r)" "length (lines_without_raw_strings cl) = length (fst ?r)"
    "raw_lines cl = fst ?r" "NumLines cl = int (length (fst ?r))"
    using init_CleansedLines_returns [of "fst ?r"] comments by blast
  have whole: "file_ok cl" using cl by (simp add: file_ok_def lines_ok_def)
  have len: "length (fst ?r) = length lines + 2" using comments by (simp add: with_markers_def)
  have "list_all (line_in cl) [0..NumLines cl - 1]" using whole by (auto simp: list_all_iff line_in_def)
  moreover have "list_all (\<lambda>(i, ns). regular_line cl i ns) (nesting_states filename cl (file_nesting init_file_state) [0..NumLines cl - 1])"
    using assms(2) cl(1) by (simp add: regular_file_def init_file_state_def)
  ultimately obtain st es where l: "line_loop env gl extras filename ext cl init_file_state [0..NumLines cl - 1] = Some (st, es)"
    "state_ok st" "list_all (event_in cl filename) es"
    using line_loop_returns [OF _ init_state_ok named extras] by blast
  have es: "list_all (event_ok filename) es" using l(3) by (auto simp: list_all_iff intro: event_in_ok)
  have "lines_without_raw_strings cl \<noteq> []" using cl(4) len by auto
  then have "well_reported filename (if ext = ''h'' then CheckForHeaderGuard env (root gl) filename cl else Some [])"
    using named header_guard_events by (auto simp: named_file_def well_reported_def)
  then obtain gs where gs: "(if ext = ''h'' then CheckForHeaderGuard env (root gl) filename cl else Some []) = Some gs"
    "list_all (event_ok filename) gs" by (rule well_reportedE)
  have "well_reported filename (if ext = ''cc'' then CheckHeaderFileIncluded env filename (file_includes st) else Some [])"
    using named own_header_events [OF _ assms(4)] l(2) by (auto simp: named_file_def well_reported_def state_ok_def)
  then obtain hs where hs: "(if ext = ''cc'' then CheckHeaderFileIncluded env filename (file_includes st) else Some []) = Some hs"
    "list_all (event_ok filename) hs" by (rule well_reportedE)
  obtain us where us: "CheckForIncludeWhatYouUse env open_file dict_order filename cl (file_includes st) = Some us"
    "list_all (event_ok filename) us" using include_use_events by (rule well_reportedE)
  obtain cs where cs: "CheckForCopyright filename (with_markers lines) = Some cs" "list_all (event_ok filename) cs"
    using copyright_events by (rule well_reportedE)
  have "2 \<le> length (map (map code) (fst ?r))" using len by simp
  from newline_events [OF this] obtain ns where ns: "CheckForNewlineAtEOF filename (map (map code) (fst ?r)) = Some ns"
    "list_all (event_ok filename) ns" by (rule well_reportedE)
  have "list_all (event_ok filename) (CheckCompletedBlocks filename (file_nesting st))"
    using l(2) completed_events by (simp add: state_ok_def)
  moreover have "list_all (event_ok filename) (CheckForBadCharacters filename (map (map code) (fst ?r)))"
    by (simp add: CheckForBadCharacters_def character_events)
  ultimately show ?thesis using cs comments cl(1) gs l(1) es us hs ns
    by (cases "ext = ''h''"; cases "ext = ''cc''") (simp_all add: file_events_def Let_def well_reported_def case_prod_beta)
qed

text \<open>A condition on the lines that can be evaluated: no line has \<^verbatim>\<open>&&\<close>.\<close>

definition plain_lines :: "string \<Rightarrow> string list \<Rightarrow> bool" where
  "plain_lines filename lines =
     (case init_CleansedLines (fst (RemoveMultiLineComments filename (with_markers lines))) of
        None \<Rightarrow> False
      | Some cl \<Rightarrow> list_all (\<lambda>(i, ns). \<not> cut_cast cl i \<and> \<not> unbalanced_constructor ns (elided_lines cl ! nat i) \<and>
            \<not> contains (elided_lines cl ! nat i) ''&&'')
          (nesting_states filename cl init_NestingState [0..NumLines cl - 1]))"

lemma plain_lines_regular: "plain_lines filename lines \<Longrightarrow> regular_file filename lines"
  by (auto simp: plain_lines_def regular_file_def regular_line_def rvalue_search_ends_def list_all_iff split: option.splits)


definition empty_os :: os where
  "empty_os = \<lparr>cwd = ''/r'', path_exists = (\<lambda>_. False)\<rparr>"


end
