(* ===== verification/Driver.thy ===== *)
theory Driver
  imports ProcessLines
begin

text \<open>
  The driver of \<^verbatim>\<open>script/cpplint.py\<close>: the configuration files (\<^verbatim>\<open>ProcessConfigOverrides\<close>), a file
  (\<^verbatim>\<open>ProcessFile\<close>), the command line (\<^verbatim>\<open>ParseArguments\<close>, with what it uses of the module \<^verbatim>\<open>getopt\<close>) and
  \<^verbatim>\<open>main\<close>. The file system, standard input and the orders in which sets and dictionaries are iterated are
  the record \<open>world\<close>. A file is either read whole or cannot be opened.
\<close>

section \<open>The module's accessors\<close>

definition OutputFormat :: "globals \<Rightarrow> string" where
  "OutputFormat gl = output_format (cpplint_state gl)"

definition module_SetOutputFormat :: "string \<Rightarrow> globals \<Rightarrow> globals" where
  "module_SetOutputFormat f gl = map_state (SetOutputFormat f) gl"

definition VerboseLevel :: "globals \<Rightarrow> int" where
  "VerboseLevel gl = verbose_level (cpplint_state gl)"

definition module_SetVerboseLevel :: "int \<Rightarrow> globals \<Rightarrow> int \<times> globals" where
  "module_SetVerboseLevel level gl =
     (let (last_level, st) = SetVerboseLevel level (cpplint_state gl) in (last_level, gl\<lparr>cpplint_state := st\<rparr>))"

definition module_SetCountingStyle :: "string \<Rightarrow> globals \<Rightarrow> globals" where
  "module_SetCountingStyle level gl = map_state (SetCountingStyle level) gl"

definition Filters :: "globals \<Rightarrow> string list" where
  "Filters gl = filters (cpplint_state gl)"

text \<open>The \<^verbatim>\<open>ValueError\<close> of a filter without a sign is caught nowhere.\<close>

definition module_SetFilters :: "string \<Rightarrow> globals \<Rightarrow> globals py" where
  "module_SetFilters fs gl =
     (case SetFilters fs (cpplint_state gl) of Inl _ \<Rightarrow> raise | Inr st \<Rightarrow> Some (gl\<lparr>cpplint_state := st\<rparr>))"

definition module_AddFilters :: "string \<Rightarrow> globals \<Rightarrow> globals py" where
  "module_AddFilters fs gl =
     (case AddFilters fs (cpplint_state gl) of Inl _ \<Rightarrow> raise | Inr st \<Rightarrow> Some (gl\<lparr>cpplint_state := st\<rparr>))"

definition module_BackupFilters :: "globals \<Rightarrow> globals" where
  "module_BackupFilters gl = map_state BackupFilters gl"

definition module_RestoreFilters :: "globals \<Rightarrow> globals" where
  "module_RestoreFilters gl = map_state RestoreFilters gl"

section \<open>The world\<close>

text \<open>
  \<open>config_text\<close> gives the lines of a configuration file, \<open>read_text\<close> the text of a file, \<open>stdin_text\<close> what
  standard input still holds and \<open>header_lines\<close> the lines of a header that is read for its includes; \<open>None\<close>
  is an \<^verbatim>\<open>IOError\<close>. The last three fields are the orders in which a dictionary of headers, a set of
  extensions and the dictionary of the error counts are iterated.
\<close>

record world =
  file_system :: os
  isfile :: "string \<Rightarrow> bool"
  config_text :: "string \<Rightarrow> string list option"
  read_text :: "string \<Rightarrow> string option"
  stdin_text :: "string option"
  header_lines :: "string \<Rightarrow> string list option"
  header_order :: "string list \<Rightarrow> string list"
  extension_order :: "string list \<Rightarrow> string list"
  category_order :: "(string \<rightharpoonup> int) \<Rightarrow> string list"

section \<open>Configuration files\<close>

text \<open>
  \<^verbatim>\<open>int(s)\<close> of a string; \<open>None\<close> is a \<^verbatim>\<open>ValueError\<close>. White space may surround the number and, as
  \<^verbatim>\<open>strtol\<close> allows it, follow the sign.
\<close>

definition py_int :: "string \<Rightarrow> int option" where
  "py_int s =
     (let t = str_strip s;
          signed = (startswith t ''+'' \<or> startswith t ''-'');
          digits = (if signed then dropWhile re_space (drop 1 t) else t)
      in if digits \<noteq> [] \<and> list_all re_digit digits
         then Some ((if startswith t ''-'' then - 1 else 1) * foldl (\<lambda>n c. 10 * n + (int (code c) - 48)) 0 digits)
         else None)"

text \<open>\<open>Excluded\<close> is the early return of \<^verbatim>\<open>False\<close>; else the filters read so far, and whether to keep looking.\<close>

datatype config = Excluded globals | Scanned globals "string list" bool

definition config_line :: "string \<Rightarrow> string \<Rightarrow> string \<Rightarrow> string \<Rightarrow> string list \<Rightarrow> bool \<Rightarrow> globals \<Rightarrow> config py" where
  "config_line filename cfg_file base_name line cfg_filters keep_looking gl =
     (let line = fst (py_partition (CHR ''#'') line) in
      if str_strip line = [] then Some (Scanned gl cfg_filters keep_looking)
      else (let (name, val) = py_partition (CHR ''='') line; name = str_strip name; val = str_strip val in
        if name = ''set noparent'' then Some (Scanned gl cfg_filters False)
        else if name = ''filter'' then Some (Scanned gl (cfg_filters @ [val]) keep_looking)
        else if name = ''exclude_files''
        then (if base_name \<noteq> []
              then do {
                pattern \<leftarrow> re_compile val;
                Some (if re_match pattern base_name \<noteq> None
                      then Excluded (write_stderr
                             ((''Ignoring '' @ double_quote) @ filename @ (double_quote @ '': file excluded by '' @ double_quote) @ cfg_file @
                              (double_quote @ ''. File path component '' @ double_quote) @ base_name @ (double_quote @ '' matches pattern '' @ double_quote) @ val @
                              double_quote @ [newline]) gl)
                      else Scanned gl cfg_filters keep_looking)
              }
              else Some (Scanned gl cfg_filters keep_looking))
        else if name = ''linelength''
        then Some (case py_int val of
               Some n \<Rightarrow> Scanned (gl\<lparr>line_length := n\<rparr>) cfg_filters keep_looking
             | None \<Rightarrow> Scanned (write_stderr ''Line length must be numeric.'' gl) cfg_filters keep_looking)
        else Some (Scanned (write_stderr (''Invalid configuration option ('' @ name @ '') in file '' @
                      cfg_file @ [newline]) gl) cfg_filters keep_looking)))"

fun config_lines :: "string \<Rightarrow> string \<Rightarrow> string \<Rightarrow> string list \<Rightarrow> string list \<Rightarrow> bool \<Rightarrow> globals \<Rightarrow> config py" where
  "config_lines filename cfg_file base_name [] cfg_filters keep_looking gl = Some (Scanned gl cfg_filters keep_looking)"
| "config_lines filename cfg_file base_name (line # lines) cfg_filters keep_looking gl = do {
     r \<leftarrow> config_line filename cfg_file base_name line cfg_filters keep_looking gl;
     (case r of
        Excluded gl \<Rightarrow> Some (Excluded gl)
      | Scanned gl cfg_filters keep_looking \<Rightarrow>
          config_lines filename cfg_file base_name lines cfg_filters keep_looking gl)
   }"

lemma parent_shorter: "tail_part p \<noteq> [] \<Longrightarrow> length (dirname p) < length p"
proof -
  assume t: "tail_part p \<noteq> []"
  have p: "p = head_part p @ tail_part p"
    unfolding head_part_def tail_part_def by (metis rev_append rev_rev_ident takeWhile_dropWhile_id)
  have "length (dirname p) \<le> length (head_part p)"
    using arg_cong [OF rstrip_chars_split [of "head_part p" "''/''"], of length] by (simp add: dirname_def Let_def)
  moreover have "0 < length (tail_part p)" using t by simp
  ultimately show ?thesis using arg_cong [OF p, of length] by (simp only: length_append)
qed

function config_loop :: "world \<Rightarrow> string \<Rightarrow> string \<Rightarrow> string list \<Rightarrow> globals \<Rightarrow> config py" where
  "config_loop w filename abs_filename cfg_filters gl =
     (let abs_path = fst (path_split abs_filename); base_name = snd (path_split abs_filename);
          cfg_file = path_join abs_path ''CPPLINT.cfg''
      in if base_name = [] then Some (Scanned gl cfg_filters True)
         else if \<not> isfile w cfg_file then config_loop w filename abs_path cfg_filters gl
         else (case config_text w cfg_file of
            None \<Rightarrow> Some (Scanned (write_stderr ((''Skipping config file '' @ single_quote) @ cfg_file @ (single_quote @ '': Can'' @ single_quote @ ''t open for reading'') @
                              [newline]) gl) cfg_filters False)
          | Some lines \<Rightarrow> do {
              r \<leftarrow> config_lines filename cfg_file base_name lines cfg_filters True gl;
              (case r of
                 Excluded gl \<Rightarrow> Some (Excluded gl)
               | Scanned gl cfg_filters keep_looking \<Rightarrow>
                   if keep_looking then config_loop w filename abs_path cfg_filters gl
                   else Some (Scanned gl cfg_filters False))
            }))"
  by pat_completeness auto
termination
  by (relation "measure (\<lambda>(w, filename, abs_filename, cfg_filters, gl). length abs_filename)")
    (auto simp: path_split_def parent_shorter)

declare config_loop.simps [simp del]

fun add_filters_loop :: "string list \<Rightarrow> globals \<Rightarrow> globals py" where
  "add_filters_loop [] gl = Some gl"
| "add_filters_loop (fs # cfg_filters) gl = do { gl \<leftarrow> module_AddFilters fs gl; add_filters_loop cfg_filters gl }"

definition ProcessConfigOverrides :: "world \<Rightarrow> string \<Rightarrow> globals \<Rightarrow> (bool \<times> globals) py" where
  "ProcessConfigOverrides w filename gl = do {
     r \<leftarrow> config_loop w filename (abspath (file_system w) filename) [] gl;
     (case r of
        Excluded gl \<Rightarrow> Some (False, gl)
      | Scanned gl cfg_filters _ \<Rightarrow> do { gl \<leftarrow> add_filters_loop (rev cfg_filters) gl; Some (True, gl) })
   }"

section \<open>A file\<close>

definition carriage_return :: char where
  "carriage_return = CHR 0x0D"

text \<open>
  The loop over all lines but the last: the lines without their trailing carriage returns, and the numbers
  of the lines that ended with a line feed alone and of those that did not.
\<close>

fun carriage_loop :: "int \<Rightarrow> string list \<Rightarrow> string list \<times> int list \<times> int list" where
  "carriage_loop linenum (line # l # lines) =
     (let (rest, lf_lines, crlf_lines) = carriage_loop (linenum + 1) (l # lines) in
      if endswith line [carriage_return]
      then (rstrip_chars [carriage_return] line # rest, lf_lines, (linenum + 1) # crlf_lines)
      else (line # rest, (linenum + 1) # lf_lines, crlf_lines))"
| "carriage_loop linenum lines = (lines, [], [])"

definition mixed_newlines :: "string \<Rightarrow> int list \<Rightarrow> int list \<Rightarrow> event list" where
  "mixed_newlines filename lf_lines crlf_lines =
     (if lf_lines \<noteq> [] \<and> crlf_lines \<noteq> []
      then map (\<lambda>linenum. Report filename linenum ''whitespace/newline'' 1
                  (''Unexpected '' @ [backslash] @ ''r (^M) found; better to use only '' @ [backslash] @ ''n'')) crlf_lines
      else [])"

definition file_extension_of :: "string \<Rightarrow> string" where
  "file_extension_of filename = py_from filename (py_rfind filename ''.'' + 1)"

definition ProcessFile :: "world \<Rightarrow> check_fn list \<Rightarrow> string \<Rightarrow> int \<Rightarrow> globals \<Rightarrow> globals py" where
  "ProcessFile w extra_check_functions filename vlevel gl = do {
     let gl = module_BackupFilters (snd (module_SetVerboseLevel vlevel gl));
     (go_on, gl) \<leftarrow> ProcessConfigOverrides w filename gl;
     if \<not> go_on then Some (module_RestoreFilters gl)
     else (case (if filename = ''-'' then stdin_text w else read_text w filename) of
        None \<Rightarrow> Some (module_RestoreFilters (write_stderr
                  ((''Skipping input '' @ single_quote) @ filename @ (single_quote @ '': Can'' @ single_quote @ ''t open for reading'') @ [newline]) gl))
      | Some data \<Rightarrow> do {
          let (lines, lf_lines, crlf_lines) = carriage_loop 0 (split_on newline data);
          let file_extension = file_extension_of filename;
          gl \<leftarrow> (if filename \<noteq> ''-'' \<and> file_extension \<notin> set (valid_extensions gl)
                then Some (write_stderr (''Ignoring '' @ filename @ ''; not a valid file name ('' @
                       py_join '', '' (valid_extensions gl) @ '')'' @ [newline]) gl)
                else do {
                  gl \<leftarrow> ProcessFileData (file_system w) (header_lines w) (header_order w) extra_check_functions
                         filename file_extension lines gl;
                  perform_all (mixed_newlines filename lf_lines crlf_lines) gl
                });
          Some (module_RestoreFilters (write_stderr (''Done processing '' @ filename @ [newline]) gl))
        })
   }"

section \<open>The command line\<close>

text \<open>\<open>Exited\<close> is \<^verbatim>\<open>sys.exit\<close>, with the status of the process; \<open>Uncaught\<close> an exception that nothing catches.\<close>

datatype 'a outcome = Returned 'a | Exited int globals | Uncaught

primrec and_so :: "'a outcome \<Rightarrow> ('a \<Rightarrow> 'b outcome) \<Rightarrow> 'b outcome" where
  "and_so (Returned x) k = k x"
| "and_so (Exited status gl) k = Exited status gl"
| "and_so Uncaught k = Uncaught"

definition outcome_of :: "'a py \<Rightarrow> 'a outcome" where
  "outcome_of r = (case r of None \<Rightarrow> Uncaught | Some x \<Rightarrow> Returned x)"

definition USAGE :: string where
  "USAGE = py_join [newline] [
    [],
    ''Syntax: cpplint.py [--verbose=#] [--output=vs7] [--filter=-x,+y,...]'',
    ''                   [--counting=total|toplevel|detailed] [--root=subdir]'',
    ''                   [--linelength=digits]'',
    ''        <file> [file] ...'',
    [],
    ''  The style guidelines this tries to follow are those in'',
    ''    http://google-styleguide.googlecode.com/svn/trunk/cppguide.xml'',
    [],
    ''  Every problem is given a confidence score from 1-5, with 5 meaning we are'',
    ''  certain of the problem, and 1 meaning it could be a legitimate construct.'',
    ''  This will miss some errors, and is not a substitute for a code review.'',
    [],
    ''  To suppress false-positive errors of a certain category, add a'',
    (''  '' @ single_quote @ ''NOLINT(category)'' @ single_quote @ '' comment to the line.  NOLINT or NOLINT(*)''),
    ''  suppresses errors of all categories on that line.'',
    [],
    ''  The files passed in will be linted; at least one file must be provided.'',
    ''  Default linted extensions are .cc, .cpp, .cu, .cuh and .h.  Change the'',
    ''  extensions with the --extensions flag.'',
    [],
    ''  Flags:'',
    [],
    ''    output=vs7'',
    ''      By default, the output is formatted to ease emacs parsing.  Visual Studio'',
    ''      compatible output (vs7) may also be used.  Other formats are unsupported.'',
    [],
    ''    verbose=#'',
    ''      Specify a number 0-5 to restrict errors to certain verbosity levels.'',
    [],
    ''    filter=-x,+y,...'',
    ''      Specify a comma-separated list of category-filters to apply: only'',
    ''      error messages whose category names pass the filters will be printed.'',
    ''      (Category names are printed with the message and look like'',
    (''      '' @ double_quote @ ''[whitespace/indent]'' @ double_quote @ ''.)  Filters are evaluated left to right.''),
    (''      '' @ double_quote @ ''-FOO'' @ double_quote @ '' and '' @ double_quote @ ''FOO'' @ double_quote @ '' means '' @ double_quote @ ''do not print categories that start with FOO'' @ double_quote @ ''.''),
    (''      '' @ double_quote @ ''+FOO'' @ double_quote @ '' means '' @ double_quote @ ''do print categories that start with FOO'' @ double_quote @ ''.''),
    [],
    ''      Examples: --filter=-whitespace,+whitespace/braces'',
    ''                --filter=whitespace,runtime/printf,+runtime/printf_format'',
    ''                --filter=-,+build/include_what_you_use'',
    [],
    ''      To see a list of all the categories used in cpplint, pass no arg:'',
    ''         --filter='',
    [],
    ''    counting=total|toplevel|detailed'',
    ''      The total number of errors found is always printed. If'',
    (''      '' @ single_quote @ ''toplevel'' @ single_quote @ '' is provided, then the count of errors in each of''),
    (''      the top-level categories like '' @ single_quote @ ''build'' @ single_quote @ '' and '' @ single_quote @ ''whitespace'' @ single_quote @ '' will''),
    (''      also be printed. If '' @ single_quote @ ''detailed'' @ single_quote @ '' is provided, then a count''),
    (''      is provided for each category like '' @ single_quote @ ''build/class'' @ single_quote @ ''.''),
    [],
    ''    root=subdir'',
    ''      The root directory used for deriving header guard CPP variable.'',
    ''      By default, the header guard CPP variable is calculated as the relative'',
    ''      path to the directory that contains .git, .hg, or .svn.  When this flag'',
    ''      is specified, the relative path is calculated from the specified'',
    ''      directory. If the specified directory does not exist, this flag is'',
    ''      ignored.'',
    [],
    ''      Examples:'',
    ''        Assuming that src/.git exists, the header guard CPP variables for'',
    ''        src/chrome/browser/ui/browser.h are:'',
    [],
    ''        No flag => CHROME_BROWSER_UI_BROWSER_H_'',
    ''        --root=chrome => BROWSER_UI_BROWSER_H_'',
    ''        --root=chrome/browser => UI_BROWSER_H_'',
    [],
    ''    linelength=digits'',
    ''      This is the allowed line length for the project. The default value is'',
    ''      80 characters.'',
    [],
    ''      Examples:'',
    ''        --linelength=120'',
    [],
    ''    extensions=extension,extension,...'',
    ''      The allowed file extensions that cpplint will check'',
    [],
    ''      Examples:'',
    ''        --extensions=hpp,cpp'',
    [],
    ''    cpplint.py supports per-directory configurations specified in CPPLINT.cfg'',
    ''    files. CPPLINT.cfg file can contain a number of key=value pairs.'',
    ''    Currently the following options are supported:'',
    [],
    ''      set noparent'',
    ''      filter=+filter1,-filter2,...'',
    ''      exclude_files=regex'',
    ''      linelength=80'',
    [],
    (''    '' @ double_quote @ ''set noparent'' @ double_quote @ '' option prevents cpplint from traversing directory tree''),
    ''    upwards looking for more .cfg files in parent directories. This option'',
    ''    is usually placed in the top-level project directory.'',
    [],
    (''    The '' @ double_quote @ ''filter'' @ double_quote @ '' option is similar in function to --filter flag. It specifies''),
    ''    message filters in addition to the |_DEFAULT_FILTERS| and those specified'',
    ''    through --filter command-line flag.'',
    [],
    (''    '' @ double_quote @ ''exclude_files'' @ double_quote @ '' allows to specify a regular expression to be matched against''),
    ''    a file name. If the expression matches, the file is skipped and not run'',
    ''    through liner.'',
    [],
    (''    '' @ double_quote @ ''linelength'' @ double_quote @ '' allows to specify the allowed line length for the project.''),
    [],
    ''    CPPLINT.cfg has an effect on files in the same directory and all'',
    ''    sub-directories, unless overridden by a nested configuration file.'',
    [],
    ''      Example file:'',
    ''        filter=-build/include_order,+build/include_alpha'',
    (''        exclude_files=.*'' @ [backslash] @ ''.cc''),
    [],
    ''    The above example disables build/include_order warning and enables'',
    ''    build/include_alpha as well as excludes all .cc from being'',
    ''    processed by linter, in the current directory (where the .cfg'',
    ''    file is located) and all sub-directories.'',
    []]"


text \<open>\<^verbatim>\<open>sys.exit\<close> of a string writes it to the standard error and gives the status 1.\<close>

definition PrintUsage :: "string option \<Rightarrow> globals \<Rightarrow> 'a outcome" where
  "PrintUsage message gl =
     (let gl = write_stderr USAGE gl in
      case message of
        Some m \<Rightarrow> if m \<noteq> [] then Exited 1 (write_stderr ([newline] @ ''FATAL ERROR: '' @ m @ [newline]) gl)
                  else Exited 1 gl
      | None \<Rightarrow> Exited 1 gl)"

definition PrintCategories :: "globals \<Rightarrow> 'a outcome" where
  "PrintCategories gl =
     Exited 0 (write_stderr (concat (map (\<lambda>cat. ''  '' @ cat @ [newline]) ERROR_CATEGORIES)) gl)"

subsection \<open>The module getopt\<close>

text \<open>\<open>None\<close> is a \<^verbatim>\<open>GetoptError\<close>. No short options are given, so that a single dash is always an error.\<close>

definition long_options :: "string list" where
  "long_options = [''help'', ''output='', ''verbose='', ''counting='', ''filter='', ''root='', ''linelength='', ''extensions='']"

definition long_has_args :: "string \<Rightarrow> string list \<Rightarrow> (bool \<times> string) option" where
  "long_has_args opt longopts =
     (let possibilities = filter (\<lambda>l. startswith l opt) longopts in
      if possibilities = [] then None
      else if opt \<in> set possibilities then Some (False, opt)
      else if opt @ ''='' \<in> set possibilities then Some (True, opt)
      else if length possibilities > 1 then None
      else (let unique_match = hd possibilities in
            if endswith unique_match ''='' then Some (True, butlast unique_match) else Some (False, unique_match)))"

definition do_longs :: "string \<Rightarrow> string list \<Rightarrow> string list \<Rightarrow> ((string \<times> string) \<times> string list) option" where
  "do_longs opt longopts args =
     (let i = py_find opt ''='';
          optarg = (if i < 0 then None else Some (py_from opt (i + 1)));
          opt = (if i < 0 then opt else py_upto opt i)
      in case long_has_args opt longopts of
           None \<Rightarrow> None
         | Some (has_arg, opt) \<Rightarrow>
             if has_arg
             then (case optarg of
                     Some val \<Rightarrow> Some ((''--'' @ opt, val), args)
                   | None \<Rightarrow> (case args of [] \<Rightarrow> None | a # args \<Rightarrow> Some ((''--'' @ opt, a), args)))
             else (case optarg of Some _ \<Rightarrow> None | None \<Rightarrow> Some ((''--'' @ opt, []), args)))"

lemma do_longs_args: "do_longs opt longopts args = Some (p, rest) \<Longrightarrow> length rest \<le> length args"
  by (auto simp: do_longs_def Let_def split: option.splits list.splits if_splits)

function getopt :: "string list \<Rightarrow> string list \<Rightarrow> ((string \<times> string) list \<times> string list) option" where
  "getopt longopts [] = Some ([], [])"
| "getopt longopts (arg # args) =
     (if \<not> startswith arg ''-'' \<or> arg = ''-'' then Some ([], arg # args)
      else if arg = ''--'' then Some ([], args)
      else if startswith arg ''--''
      then (case do_longs (drop 2 arg) longopts args of
              None \<Rightarrow> None
            | Some (p, rest) \<Rightarrow> map_option (\<lambda>(opts, filenames). (p # opts, filenames)) (getopt longopts rest))
      else None)"
  by pat_completeness auto
termination
  by (relation "measure (\<lambda>(longopts, args). length args)") (auto dest!: do_longs_args)

subsection \<open>The options\<close>

record options =
  verbosity :: int
  format_option :: string
  filter_option :: string
  counting_option :: string

definition one_option :: "world \<Rightarrow> string \<Rightarrow> string \<Rightarrow> options \<Rightarrow> globals \<Rightarrow> (options \<times> globals) outcome" where
  "one_option w opt val ps gl =
     (if opt = ''--help'' then PrintUsage None gl
      else if opt = ''--output''
      then if val \<notin> {''emacs'', ''vs7'', ''eclipse''}
           then PrintUsage (Some ''The only allowed output formats are emacs, vs7 and eclipse.'') gl
           else Returned (ps\<lparr>format_option := val\<rparr>, gl)
      else if opt = ''--verbose''
      then (case py_int val of None \<Rightarrow> Uncaught | Some n \<Rightarrow> Returned (ps\<lparr>verbosity := n\<rparr>, gl))
      else if opt = ''--filter''
      then if val = [] then PrintCategories gl else Returned (ps\<lparr>filter_option := val\<rparr>, gl)
      else if opt = ''--counting''
      then if val \<notin> {''total'', ''toplevel'', ''detailed''}
           then PrintUsage (Some ''Valid counting options are total, toplevel, and detailed'') gl
           else Returned (ps\<lparr>counting_option := val\<rparr>, gl)
      else if opt = ''--root'' then Returned (ps, gl\<lparr>root := Some val\<rparr>)
      else if opt = ''--linelength''
      then (case py_int val of
              None \<Rightarrow> PrintUsage (Some ''Line length must be digits.'') gl
            | Some n \<Rightarrow> Returned (ps, gl\<lparr>line_length := n\<rparr>))
      else if opt = ''--extensions''
      then Returned (ps, gl\<lparr>valid_extensions := extension_order w (split_on (CHR '','') val)\<rparr>)
      else Returned (ps, gl))"

fun option_loop :: "world \<Rightarrow> (string \<times> string) list \<Rightarrow> options \<Rightarrow> globals \<Rightarrow> (options \<times> globals) outcome" where
  "option_loop w [] ps gl = Returned (ps, gl)"
| "option_loop w ((opt, val) # opts) ps gl = and_so (one_option w opt val ps gl) (\<lambda>(ps, gl). option_loop w opts ps gl)"

definition ParseArguments :: "world \<Rightarrow> string list \<Rightarrow> globals \<Rightarrow> (string list \<times> globals) outcome" where
  "ParseArguments w args gl =
     (case getopt long_options args of
        None \<Rightarrow> PrintUsage (Some ''Invalid arguments.'') gl
      | Some (opts, filenames) \<Rightarrow>
          and_so (option_loop w opts
              \<lparr>verbosity = VerboseLevel gl, format_option = OutputFormat gl, filter_option = [], counting_option = []\<rparr> gl)
            (\<lambda>(ps, gl).
              if filenames = [] then PrintUsage (Some ''No files were specified.'') gl
              else and_so (outcome_of (module_SetFilters (filter_option ps)
                     (snd (module_SetVerboseLevel (verbosity ps) (module_SetOutputFormat (format_option ps) gl)))))
                   (\<lambda>gl. Returned (filenames, module_SetCountingStyle (counting_option ps) gl))))"

section \<open>The program\<close>

text \<open>Standard input is empty once it was read.\<close>

definition after_reading :: "string \<Rightarrow> world \<Rightarrow> world" where
  "after_reading filename w = (if filename = ''-'' then w\<lparr>stdin_text := Some []\<rparr> else w)"

fun process_files :: "world \<Rightarrow> string list \<Rightarrow> globals \<Rightarrow> globals py" where
  "process_files w [] gl = Some gl"
| "process_files w (filename # filenames) gl = do {
     gl \<leftarrow> ProcessFile w [] filename (VerboseLevel gl) gl;
     process_files (after_reading filename w) filenames gl
   }"

definition cpplint_main :: "world \<Rightarrow> string list \<Rightarrow> globals \<Rightarrow> unit outcome" where
  "cpplint_main w args gl =
     and_so (ParseArguments w args gl) (\<lambda>(filenames, gl).
     and_so (outcome_of (process_files w filenames (map_state ResetErrorCounts gl))) (\<lambda>gl.
       let gl = foldl (\<lambda>gl s. write_stderr s gl) gl
                  (PrintErrorCounts (category_order w (errors_by_category (cpplint_state gl))) (cpplint_state gl))
       in Exited (if error_count (cpplint_state gl) > 0 then 1 else 0) gl))"

section \<open>What a file leaves alone\<close>

text \<open>The settings of the run, apart from the line length; and the counter only grows.\<close>

definition settings_kept :: "globals \<Rightarrow> globals \<Rightarrow> bool" where
  "settings_kept gl gl' \<longleftrightarrow> root gl' = root gl \<and> valid_extensions gl' = valid_extensions gl \<and>
     verbose_level (cpplint_state gl') = verbose_level (cpplint_state gl) \<and>
     filters (cpplint_state gl') = filters (cpplint_state gl) \<and>
     counting (cpplint_state gl') = counting (cpplint_state gl) \<and>
     output_format (cpplint_state gl') = output_format (cpplint_state gl) \<and>
     error_count (cpplint_state gl) \<le> error_count (cpplint_state gl') \<and>
     (\<exists>ms. stderr gl' = stderr gl @ ms)"

lemma settings_kept_refl [simp]: "settings_kept gl gl"
  by (simp add: settings_kept_def)

lemma settings_kept_trans: "settings_kept a b \<Longrightarrow> settings_kept b c \<Longrightarrow> settings_kept a c"
  by (auto simp: settings_kept_def)

lemma perform_kept:
  "perform e gl = Some gl' \<Longrightarrow> settings_kept gl gl' \<and> filters_backup (cpplint_state gl') = filters_backup (cpplint_state gl) \<and>
     line_length gl' = line_length gl"
  by (cases e) (auto simp: Error_def settings_kept_def map_state_def write_stderr_def split: bind_splits if_splits)

lemma perform_all_kept:
  "perform_all es gl = Some gl' \<Longrightarrow> settings_kept gl gl' \<and> filters_backup (cpplint_state gl') = filters_backup (cpplint_state gl) \<and>
     line_length gl' = line_length gl"
proof (induction es arbitrary: gl)
  case (Cons e es)
  then obtain gl1 where e: "perform e gl = Some gl1" "perform_all es gl1 = Some gl'" by (auto split: bind_splits)
  with Cons.IH [OF e(2)] perform_kept [OF e(1)] settings_kept_trans show ?case by auto
qed simp

lemma ProcessFileData_kept:
  assumes "ProcessFileData env open_file dict_order extras filename ext lines gl = Some gl'"
  shows "settings_kept gl gl' \<and> filters_backup (cpplint_state gl') = filters_backup (cpplint_state gl) \<and> line_length gl' = line_length gl"
proof -
  obtain es where "perform_all es (gl\<lparr>error_suppressions := ResetNolintSuppressions\<rparr>) = Some gl'"
    using assms by (auto simp: ProcessFileData_def split: bind_splits)
  from perform_all_kept [OF this] show ?thesis by (simp add: settings_kept_def)
qed

section \<open>What the configuration files say\<close>

text \<open>A line of a configuration file as a name and a value, and the settings in the order in which they are read.\<close>

definition config_setting :: "string \<Rightarrow> (string \<times> string) option" where
  "config_setting line =
     (let line = fst (py_partition (CHR ''#'') line) in
      if str_strip line = [] then None
      else Some (str_strip (fst (py_partition (CHR ''='') line)), str_strip (snd (py_partition (CHR ''='') line))))"

definition config_settings :: "string list \<Rightarrow> (string \<times> string) list" where
  "config_settings lines = List.map_filter config_setting lines"

function settings_read :: "world \<Rightarrow> string \<Rightarrow> (string \<times> string) list" where
  "settings_read w abs_filename =
     (let cfg_file = path_join (dirname abs_filename) ''CPPLINT.cfg'' in
      if tail_part abs_filename = [] then []
      else if \<not> isfile w cfg_file then settings_read w (dirname abs_filename)
      else (case config_text w cfg_file of
              None \<Rightarrow> []
            | Some lines \<Rightarrow> config_settings lines @
                (if ''set noparent'' \<in> fst ` set (config_settings lines) then []
                 else settings_read w (dirname abs_filename))))"
  by pat_completeness auto
termination
  by (relation "measure (\<lambda>(w, abs_filename). length abs_filename)") (auto simp: parent_shorter)

declare settings_read.simps [simp del]

definition filter_values :: "(string \<times> string) list \<Rightarrow> string list" where
  "filter_values ss = map snd (filter (\<lambda>s. fst s = ''filter'') ss)"

definition line_lengths :: "(string \<times> string) list \<Rightarrow> int list" where
  "line_lengths ss = List.map_filter (\<lambda>s. if fst s = ''linelength'' then py_int (snd s) else None) ss"

lemma values_Nil [simp]: "filter_values [] = []" "line_lengths [] = []"
  by (simp_all add: filter_values_def line_lengths_def map_filter_def)

lemma values_append [simp]:
  "filter_values (a @ b) = filter_values a @ filter_values b" "line_lengths (a @ b) = line_lengths a @ line_lengths b"
  by (simp_all add: filter_values_def line_lengths_def map_filter_def)

text \<open>What reading changes: the messages and the line length.\<close>

definition only_length :: "globals \<Rightarrow> globals \<Rightarrow> bool" where
  "only_length gl gl' \<longleftrightarrow> cpplint_state gl' = cpplint_state gl \<and> root gl' = root gl \<and>
     valid_extensions gl' = valid_extensions gl \<and> (\<exists>ms. stderr gl' = stderr gl @ ms)"

lemma only_length_refl [simp]: "only_length gl gl"
  by (simp add: only_length_def)

lemma only_length_trans: "only_length a b \<Longrightarrow> only_length b c \<Longrightarrow> only_length a c"
  by (auto simp: only_length_def)

fun config_done :: "(string \<times> string) list \<Rightarrow> string list \<Rightarrow> globals \<Rightarrow> config \<Rightarrow> bool" where
  "config_done ss fs gl (Excluded gl') \<longleftrightarrow> only_length gl gl'"
| "config_done ss fs gl (Scanned gl' fs' keep) \<longleftrightarrow> only_length gl gl' \<and> fs' = fs @ filter_values ss \<and>
     line_length gl' = last (line_length gl # line_lengths ss)"

lemma config_done_then:
  assumes "config_done ss fs gl (Scanned gl1 fs1 keep)" and "config_done ss' fs1 gl1 r"
  shows "config_done (ss @ ss') fs gl r"
  using assms by (cases r) (auto intro: only_length_trans simp: last_append split: if_splits)

lemma config_line_done:
  assumes "config_line filename cfg_file base_name line fs keep gl = Some r"
  shows "config_done (config_settings [line]) fs gl r \<and>
    (\<forall>gl' fs' keep'. r = Scanned gl' fs' keep' \<longrightarrow> keep' = (keep \<and> ''set noparent'' \<notin> fst ` set (config_settings [line])))"
  using assms
  by (auto simp: config_line_def config_settings_def config_setting_def map_filter_def filter_values_def line_lengths_def
      only_length_def write_stderr_def Let_def split: if_splits bind_splits option.splits prod.splits)

lemma config_lines_done:
  assumes "config_lines filename cfg_file base_name lines fs keep gl = Some r"
  shows "config_done (config_settings lines) fs gl r \<and>
    (\<forall>gl' fs' keep'. r = Scanned gl' fs' keep' \<longrightarrow> keep' = (keep \<and> ''set noparent'' \<notin> fst ` set (config_settings lines)))"
  using assms
proof (induction lines arbitrary: fs keep gl)
  case Nil
  then show ?case by (auto simp: config_settings_def map_filter_def filter_values_def line_lengths_def)
next
  case (Cons line lines)
  have split: "config_settings (line # lines) = config_settings [line] @ config_settings lines"
    by (simp add: config_settings_def map_filter_def)
  obtain r1 where r1: "config_line filename cfg_file base_name line fs keep gl = Some r1"
    using Cons.prems by (auto split: bind_splits)
  note line = config_line_done [OF r1]
  show ?case
  proof (cases r1)
    case (Excluded gl1)
    with Cons.prems r1 line show ?thesis by auto
  next
    case (Scanned gl1 fs1 keep1)
    with Cons.prems r1 have "config_lines filename cfg_file base_name lines fs1 keep1 gl1 = Some r" by simp
    note rest = Cons.IH [OF this]
    have "config_done (config_settings (line # lines)) fs gl r"
      unfolding split using config_done_then [of _ fs gl gl1 fs1 keep1] line rest Scanned by simp
    moreover have "keep' = (keep \<and> ''set noparent'' \<notin> fst ` set (config_settings (line # lines)))"
      if "r = Scanned gl' fs' keep'" for gl' fs' keep'
    proof -
      have "keep1 = (keep \<and> ''set noparent'' \<notin> fst ` set (config_settings [line]))" using line Scanned by simp
      moreover have "keep' = (keep1 \<and> ''set noparent'' \<notin> fst ` set (config_settings lines))" using rest that by simp
      ultimately show ?thesis unfolding split set_append image_Un Un_iff by blast
    qed
    ultimately show ?thesis by blast
  qed
qed

lemma config_loop_done:
  "config_loop w filename abs_filename fs gl = Some r \<Longrightarrow> config_done (settings_read w abs_filename) fs gl r"
proof (induction w filename abs_filename fs gl arbitrary: r rule: config_loop.induct)
  case (1 w filename abs_filename fs gl)
  let ?cfg = "path_join (dirname abs_filename) ''CPPLINT.cfg''"
  note split = path_split_def fst_conv snd_conv
  have nil: "config_done [] fs gl (Scanned gl' fs keep)" if "only_length gl gl'" "line_length gl' = line_length gl" for gl' keep
    using that by simp
  note step = "1.prems" [unfolded config_loop.simps [of w filename abs_filename] Let_def split]
  show ?case
  proof (cases "tail_part abs_filename = []")
    case True
    with step nil show ?thesis by (subst settings_read.simps) auto
  next
    case named: False
    show ?thesis
    proof (cases "isfile w ?cfg")
      case False
      with named step have "config_loop w filename (dirname abs_filename) fs gl = Some r" by simp
      from "1.IH"(1) [unfolded split, OF refl refl refl named False this] named False show ?thesis
        by (subst settings_read.simps) simp
    next
      case True
      show ?thesis
      proof (cases "config_text w ?cfg")
        case None
        with named True step nil show ?thesis
          by (subst settings_read.simps) (auto simp: only_length_def write_stderr_def)
      next
        case (Some lines)
        with named True step obtain r1 where r1: "config_lines filename ?cfg (tail_part abs_filename) lines fs True gl = Some r1"
          "(case r1 of Excluded gl \<Rightarrow> Some (Excluded gl) | Scanned gl fs keep \<Rightarrow>
             if keep then config_loop w filename (dirname abs_filename) fs gl else Some (Scanned gl fs False)) = Some r"
          by (auto split: bind_splits)
        note lines = config_lines_done [OF r1(1)]
        show ?thesis
        proof (cases r1)
          case (Excluded gl1)
          with r1 lines show ?thesis by auto
        next
          case (Scanned gl1 fs1 keep)
          have "config_done (if ''set noparent'' \<in> fst ` set (config_settings lines) then []
              else settings_read w (dirname abs_filename)) fs1 gl1 r"
          proof (cases keep)
            case True
            then have "config_loop w filename (dirname abs_filename) fs1 gl1 = Some r" using r1(2) Scanned by simp
            from "1.IH"(2) [unfolded split, OF refl refl refl named _ Some r1(1) Scanned True this]
            show ?thesis using \<open>isfile w ?cfg\<close> lines Scanned True by auto
          next
            case False
            then show ?thesis using r1(2) lines Scanned by auto
          qed
          from config_done_then [OF _ this] lines Scanned Some named True show ?thesis
            by (subst settings_read.simps) auto
        qed
      qed
    qed
  qed
qed

lemma module_AddFilters_adds:
  "module_AddFilters fs gl = Some gl' \<longleftrightarrow> list_all signed_filter (filters (cpplint_state gl) @ split_filters fs) \<and>
     gl' = map_state (\<lambda>st. st\<lparr>filters := filters st @ split_filters fs\<rparr>) gl"
proof (cases "AddFilters fs (cpplint_state gl)")
  case (Inl msg)
  then have "\<not> list_all signed_filter (filters (cpplint_state gl) @ split_filters fs)"
    using AddFilters_Inr [of fs "cpplint_state gl"] by (metis Inl_Inr_False)
  with Inl show ?thesis by (auto simp: module_AddFilters_def)
next
  case (Inr st)
  from Inr [unfolded AddFilters_Inr] Inr show ?thesis by (auto simp: module_AddFilters_def map_state_def)
qed

lemma add_filters_loop_adds:
  "add_filters_loop fs gl = Some gl' \<Longrightarrow>
     gl' = map_state (\<lambda>st. st\<lparr>filters := filters st @ concat (map split_filters fs)\<rparr>) gl"
proof (induction fs arbitrary: gl)
  case (Cons f fs)
  then obtain gl1 where "module_AddFilters f gl = Some gl1" "add_filters_loop fs gl1 = Some gl'" by (auto split: bind_splits)
  with Cons.IH [of gl1] show ?case by (simp add: module_AddFilters_adds map_state_def)
qed (simp add: map_state_def)

lemma ProcessConfigOverrides_effect:
  assumes "ProcessConfigOverrides w filename gl = Some (True, gl')"
  shows "let settings = settings_read w (abspath (file_system w) filename) in
    filters (cpplint_state gl') = filters (cpplint_state gl) @ concat (map split_filters (rev (filter_values settings))) \<and>
    line_length gl' = last (line_length gl # line_lengths settings) \<and>
    cpplint_state gl' = (cpplint_state gl)\<lparr>filters := filters (cpplint_state gl')\<rparr> \<and>
    root gl' = root gl \<and> valid_extensions gl' = valid_extensions gl"
proof -
  let ?ss = "settings_read w (abspath (file_system w) filename)"
  obtain gl1 fs keep where c: "config_loop w filename (abspath (file_system w) filename) [] gl = Some (Scanned gl1 fs keep)"
    and a: "add_filters_loop (rev fs) gl1 = Some gl'"
    using assms by (auto simp: ProcessConfigOverrides_def split: bind_splits config.splits)
  have r: "only_length gl gl1" "fs = filter_values ?ss" "line_length gl1 = last (line_length gl # line_lengths ?ss)"
    using config_loop_done [OF c] by simp_all
  have "gl' = map_state (\<lambda>st. st\<lparr>filters := filters st @ concat (map split_filters (rev fs))\<rparr>) gl1"
    using add_filters_loop_adds [OF a] .
  with r show ?thesis by (simp add: Let_def only_length_def map_state_def)
qed


text \<open>
  C9. What the configuration files do. When \<^verbatim>\<open>ProcessConfigOverrides\<close> does not exclude the file, the filters
  are extended by the \<^verbatim>\<open>filter\<close> lines of the files read, from the last line read to the first, so that a
  directory nearer to the file has the last word (and within one file, an earlier line). The line length,
  however, is the last number read: it is the outermost directory that has the last word there. Nothing else
  of the state changes.
\<close>

theorem ProcessConfigOverrides_reads:
  assumes "ProcessConfigOverrides w filename gl = Some (True, gl')"
  shows "let settings = settings_read w (abspath (file_system w) filename) in
    filters (cpplint_state gl') = filters (cpplint_state gl) @ concat (map split_filters (rev (filter_values settings))) \<and>
    line_length gl' = last (line_length gl # line_lengths settings) \<and>
    cpplint_state gl' = (cpplint_state gl)\<lparr>filters := filters (cpplint_state gl')\<rparr> \<and>
    root gl' = root gl \<and> valid_extensions gl' = valid_extensions gl"
  using assms by (rule ProcessConfigOverrides_effect)

definition sample_world :: world where
  "sample_world =
     \<lparr>file_system = empty_os,
      isfile = (\<lambda>p. p \<in> {''/r/a/CPPLINT.cfg'', ''/CPPLINT.cfg''}),
      config_text = (\<lambda>p. if p = ''/r/a/CPPLINT.cfg'' then Some [''filter=-build'', ''linelength = 90 # nested'']
                          else Some [''linelength=60'', ''filter=+build'']),
      read_text = (\<lambda>_. None), stdin_text = None, header_lines = (\<lambda>_. None), header_order = (\<lambda>ks. ks),
      extension_order = (\<lambda>ks. ks), category_order = (\<lambda>_. [])\<rparr>"

theorem ProcessConfigOverrides_reads_witness:
  "\<exists>gl'. ProcessConfigOverrides sample_world ''a/b.cc'' init_globals = Some (True, gl') \<and>
     filters (cpplint_state gl') = [''-build/include_alpha'', ''+build'', ''-build''] \<and> line_length gl' = 60"
proof -
  have "map_option fst (ProcessConfigOverrides sample_world ''a/b.cc'' init_globals) = Some True" by code_simp
  then obtain gl' where g: "ProcessConfigOverrides sample_world ''a/b.cc'' init_globals = Some (True, gl')" by auto
  have s: "settings_read sample_world (abspath (file_system sample_world) ''a/b.cc'') =
      [(''filter'', ''-build''), (''linelength'', ''90''), (''linelength'', ''60''), (''filter'', ''+build'')]" by code_simp
  have "filters (cpplint_state init_globals) @ concat (map split_filters (rev (filter_values
      [(''filter'', ''-build''), (''linelength'', ''90''), (''linelength'', ''60''), (''filter'', ''+build'')]))) =
      [''-build/include_alpha'', ''+build'', ''-build'']"
    "last (line_length init_globals # line_lengths
      [(''filter'', ''-build''), (''linelength'', ''90''), (''linelength'', ''60''), (''filter'', ''+build'')]) = 60" by code_simp+
  with ProcessConfigOverrides_reads [OF g] g show ?thesis unfolding s Let_def by simp
qed

section \<open>A file and its settings\<close>

lemma ProcessConfigOverrides_kept:
  assumes "ProcessConfigOverrides w filename gl = Some (go_on, gl')"
  shows "cpplint_state gl' = (cpplint_state gl)\<lparr>filters := filters (cpplint_state gl')\<rparr> \<and> root gl' = root gl \<and>
    valid_extensions gl' = valid_extensions gl \<and> (\<exists>ms. stderr gl' = stderr gl @ ms)"
proof -
  obtain r where c: "config_loop w filename (abspath (file_system w) filename) [] gl = Some r"
    using assms by (auto simp: ProcessConfigOverrides_def split: bind_splits)
  show ?thesis
  proof (cases r)
    case (Excluded gl1)
    with config_loop_done [OF c] assms c show ?thesis by (auto simp: ProcessConfigOverrides_def only_length_def)
  next
    case (Scanned gl1 fs keep)
    with assms c have "add_filters_loop (rev fs) gl1 = Some gl'" by (auto simp: ProcessConfigOverrides_def split: bind_splits)
    from add_filters_loop_adds [OF this] config_loop_done [OF c] Scanned show ?thesis
      by (simp add: only_length_def map_state_def)
  qed
qed

text \<open>The settings when the filters are restored from the backup made before.\<close>

lemma restored:
  assumes "cpplint_state gl1 = (cpplint_state (module_BackupFilters gl))\<lparr>filters := fs\<rparr>" and "root gl1 = root gl"
    and "valid_extensions gl1 = valid_extensions gl" and "\<exists>ms. stderr gl1 = stderr gl @ ms"
    and "settings_kept gl1 gl2" and "filters_backup (cpplint_state gl2) = filters_backup (cpplint_state gl1)"
  shows "settings_kept gl (module_RestoreFilters gl2)"
  using assms
  by (auto simp: settings_kept_def module_BackupFilters_def module_RestoreFilters_def map_state_def BackupFilters_def
      RestoreFilters_def)

lemma kept_write: "settings_kept a b \<Longrightarrow> settings_kept a (write_stderr s b)"
  by (auto simp: settings_kept_def write_stderr_def)

lemma ProcessFile_kept:
  assumes "ProcessFile w extras filename vlevel gl = Some gl'"
  shows "settings_kept (snd (module_SetVerboseLevel vlevel gl)) gl'"
proof -
  let ?gl = "snd (module_SetVerboseLevel vlevel gl)"
  obtain go_on gl1 where c: "ProcessConfigOverrides w filename (module_BackupFilters ?gl) = Some (go_on, gl1)"
    using assms by (auto simp: ProcessFile_def Let_def split: bind_splits)
  have b: "root (module_BackupFilters ?gl) = root ?gl" "valid_extensions (module_BackupFilters ?gl) = valid_extensions ?gl"
    "stderr (module_BackupFilters ?gl) = stderr ?gl" by (simp_all add: module_BackupFilters_def map_state_def)
  note k = ProcessConfigOverrides_kept [OF c, unfolded b]
  have finished: "settings_kept ?gl (module_RestoreFilters gl2)"
    if "settings_kept gl1 gl2 \<and> filters_backup (cpplint_state gl2) = filters_backup (cpplint_state gl1)" for gl2
    using restored [of gl1 "filters (cpplint_state gl1)" ?gl gl2] k that by blast
  have written: "settings_kept gl1 (write_stderr s gl2) \<and>
      filters_backup (cpplint_state (write_stderr s gl2)) = filters_backup (cpplint_state gl1)"
    if "settings_kept gl1 gl2 \<and> filters_backup (cpplint_state gl2) = filters_backup (cpplint_state gl1)" for s gl2
    using that kept_write by (simp add: write_stderr_def)
  let ?in = "if filename = ''-'' then stdin_text w else read_text w filename"
  show ?thesis
  proof (cases "go_on \<and> ?in \<noteq> None")
    case False
    with assms c finished [of gl1] finished [OF written [of gl1]] show ?thesis
      by (auto simp: ProcessFile_def Let_def split: if_splits)
  next
    case True
    then obtain data where d: "?in = Some data" by blast
    obtain lines lf crlf where l: "carriage_loop 0 (split_on newline data) = (lines, lf, crlf)" by (metis prod_cases3)
    show ?thesis
    proof (cases "filename \<noteq> ''-'' \<and> file_extension_of filename \<notin> set (valid_extensions gl1)")
      case skip: True
      with assms c True d l finished [OF written [OF written [of gl1]]] show ?thesis
        by (auto simp: ProcessFile_def Let_def)
    next
      case False
      then obtain gl2 gl3 where "ProcessFileData (file_system w) (header_lines w) (header_order w) extras filename
          (file_extension_of filename) lines gl1 = Some gl2" "perform_all (mixed_newlines filename lf crlf) gl2 = Some gl3"
        and gl': "gl' = module_RestoreFilters (write_stderr (''Done processing '' @ filename @ [newline]) gl3)"
        using assms c True d l by (auto simp: ProcessFile_def Let_def split: bind_splits if_splits)
      then have "settings_kept gl1 gl3 \<and> filters_backup (cpplint_state gl3) = filters_backup (cpplint_state gl1)"
        using ProcessFileData_kept perform_all_kept settings_kept_trans by (metis (no_types, lifting))
      from finished [OF written [OF this]] gl' show ?thesis by simp
    qed
  qed
qed

lemma process_files_kept: "process_files w fs gl = Some gl' \<Longrightarrow> settings_kept gl gl'"
proof (induction fs arbitrary: w gl)
  case (Cons f fs)
  then obtain gl1 where 1: "ProcessFile w [] f (VerboseLevel gl) gl = Some gl1" and
    2: "process_files (after_reading f w) fs gl1 = Some gl'" by (auto split: bind_splits)
  have "snd (module_SetVerboseLevel (VerboseLevel gl) gl) = gl"
    by (simp add: module_SetVerboseLevel_def SetVerboseLevel_def VerboseLevel_def)
  with ProcessFile_kept [OF 1] Cons.IH [OF 2] show ?case by (auto intro: settings_kept_trans)
qed simp

text \<open>
  C8. Files do not disturb each other: after any number of files, whatever their configuration files say, the
  filters, the verbosity, the counting style, the output format, the root and the extensions are those of the
  command line again; the count of errors has not gone down, and what was written before is still there. The
  line length is not among what is restored.
\<close>

theorem process_files_keep_settings:
  assumes "process_files w filenames gl = Some gl'"
  shows "settings_kept gl gl'"
  using assms by (rule process_files_kept)

theorem process_files_keep_settings_witness:
  "\<exists>gl'. process_files sample_world [''a/b.cc'', ''c.cc''] init_globals = Some gl' \<and> settings_kept init_globals gl' \<and>
     line_length init_globals = 80 \<and> line_length gl' = 60"
proof -
  have "map_option line_length (process_files sample_world [''a/b.cc'', ''c.cc''] init_globals) = Some 60" by code_simp
  then obtain gl' where g: "process_files sample_world [''a/b.cc'', ''c.cc''] init_globals = Some gl'" "line_length gl' = 60" by auto
  moreover have "line_length init_globals = 80" by code_simp
  ultimately show ?thesis using process_files_keep_settings [OF g(1)] by blast
qed

section \<open>The command line\<close>

definition settings_ok :: "globals \<Rightarrow> bool" where
  "settings_ok gl \<longleftrightarrow> filters_ok gl \<and> output_format (cpplint_state gl) \<in> {''emacs'', ''vs7'', ''eclipse''} \<and>
     counting (cpplint_state gl) \<in> {[], ''total'', ''toplevel'', ''detailed''}"

lemma one_option_ok:
  assumes "one_option w opt val ps gl = Returned (ps', gl')" and "format_option ps \<in> {''emacs'', ''vs7'', ''eclipse''}"
    and "counting_option ps \<in> {[], ''total'', ''toplevel'', ''detailed''}"
  shows "format_option ps' \<in> {''emacs'', ''vs7'', ''eclipse''} \<and> counting_option ps' \<in> {[], ''total'', ''toplevel'', ''detailed''} \<and>
    cpplint_state gl' = cpplint_state gl"
  using assms
  by (auto simp: one_option_def PrintUsage_def PrintCategories_def Let_def split: if_splits option.splits)

lemma and_so_Returned: "and_so r k = Returned y \<longleftrightarrow> (\<exists>x. r = Returned x \<and> k x = Returned y)"
  by (cases r) auto

lemma option_loop_ok:
  assumes "option_loop w opts ps gl = Returned (ps', gl')" and "format_option ps \<in> {''emacs'', ''vs7'', ''eclipse''}"
    and "counting_option ps \<in> {[], ''total'', ''toplevel'', ''detailed''}"
  shows "format_option ps' \<in> {''emacs'', ''vs7'', ''eclipse''} \<and> counting_option ps' \<in> {[], ''total'', ''toplevel'', ''detailed''} \<and>
    cpplint_state gl' = cpplint_state gl"
  using assms
proof (induction opts arbitrary: ps gl)
  case (Cons o' opts)
  obtain opt val where o': "o' = (opt, val)" by (cases o')
  with Cons.prems(1) obtain ps1 gl1 where 1: "one_option w opt val ps gl = Returned (ps1, gl1)"
    and 2: "option_loop w opts ps1 gl1 = Returned (ps', gl')" by (auto simp: and_so_Returned)
  from one_option_ok [OF 1 Cons.prems(2,3)] Cons.IH [OF 2] show ?case by simp
qed simp



section \<open>Reading options back\<close>

text \<open>An option of the command line as it is usually written.\<close>

definition render_option :: "string \<times> string \<Rightarrow> string" where
  "render_option p = (if fst p = ''--help'' then fst p else fst p @ ''='' @ snd p)"

definition proper_option :: "string \<times> string \<Rightarrow> bool" where
  "proper_option p \<longleftrightarrow> p = (''--help'', []) \<or> fst p @ ''='' \<in> (\<lambda>l. ''--'' @ l) ` set (tl long_options)"

lemma find_separator: "c \<notin> set u \<Longrightarrow> find_at (u @ c # v) [c] = Some (length u)"
  by (induction u) (auto split: list.splits)

lemma do_longs_value:
  assumes "CHR ''='' \<notin> set n" and "long_has_args n longopts = Some (True, n)"
  shows "do_longs (n @ ''='' @ v) longopts args = Some ((''--'' @ n, v), args)"
proof -
  have "py_find (n @ CHR ''='' # v) ''='' = int (length n)" using find_separator [OF assms(1)] by (simp add: py_find_def)
  then show ?thesis using assms(2) by (simp add: do_longs_def Let_def py_upto_def py_from_def clip_def nat_add_distrib)
qed

lemma long_option_names:
  "list_all (\<lambda>l. endswith l ''='' \<and> CHR ''='' \<notin> set (butlast l) \<and> butlast l \<noteq> [] \<and>
     long_has_args (butlast l) long_options = Some (True, butlast l)) (tl long_options)"
  by code_simp

lemma help_option: "do_longs ''help'' long_options args = Some ((''--help'', []), args)"
proof -
  have "long_has_args ''help'' long_options = Some (False, ''help'')" "py_find ''help'' ''='' = - 1" by code_simp+
  then show ?thesis by (simp add: do_longs_def)
qed

lemma getopt_option:
  assumes "proper_option p"
  shows "getopt long_options (render_option p # args) =
    map_option (\<lambda>(opts, filenames). (p # opts, filenames)) (getopt long_options args)"
proof (cases "p = (''--help'', [])")
  case True
  then show ?thesis by (simp add: render_option_def help_option)
next
  case False
  obtain opt val where p: "p = (opt, val)" by (cases p)
  with False assms obtain l where l: "l \<in> set (tl long_options)" "opt @ ''='' = ''--'' @ l"
    by (auto simp: proper_option_def)
  then have n: "CHR ''='' \<notin> set (butlast l)" "butlast l \<noteq> []" "long_has_args (butlast l) long_options = Some (True, butlast l)"
    "endswith l ''=''" using long_option_names by (simp_all add: list_all_iff)
  then have "l = butlast l @ ''=''" by (auto simp: endswith_iff)
  with l(2) have opt: "opt = ''--'' @ butlast l" by (metis append.assoc append_same_eq)
  have "opt \<noteq> ''--help''"
  proof
    assume "opt = ''--help''"
    then have "butlast l = ''help''" using opt by simp
    with n(3) have "long_has_args ''help'' long_options = Some (True, ''help'')" by simp
    then show False by code_simp
  qed
  then have "render_option p = ''--'' @ butlast l @ ''='' @ val" by (simp add: render_option_def p opt)
  then show ?thesis using do_longs_value [OF n(1,3), of val args] n(2) by (simp add: p opt)
qed



section \<open>The status of the process\<close>

text \<open>How many messages each file adds to the count.\<close>

fun messages_per_file :: "world \<Rightarrow> string list \<Rightarrow> globals \<Rightarrow> int list" where
  "messages_per_file w [] gl = []"
| "messages_per_file w (filename # filenames) gl =
     (case ProcessFile w [] filename (VerboseLevel gl) gl of
        None \<Rightarrow> []
      | Some gl' \<Rightarrow> (error_count (cpplint_state gl') - error_count (cpplint_state gl)) #
          messages_per_file (after_reading filename w) filenames gl')"

lemma process_files_messages:
  assumes "process_files w fs gl = Some gl'"
  shows "error_count (cpplint_state gl') = error_count (cpplint_state gl) + sum_list (messages_per_file w fs gl) \<and>
    list_all (\<lambda>n. 0 \<le> n) (messages_per_file w fs gl) \<and> length (messages_per_file w fs gl) = length fs"
  using assms
proof (induction fs arbitrary: w gl)
  case (Cons f fs)
  then obtain gl1 where 1: "ProcessFile w [] f (VerboseLevel gl) gl = Some gl1" and
    2: "process_files (after_reading f w) fs gl1 = Some gl'" by (auto split: bind_splits)
  have "snd (module_SetVerboseLevel (VerboseLevel gl) gl) = gl"
    by (simp add: module_SetVerboseLevel_def SetVerboseLevel_def VerboseLevel_def)
  with ProcessFile_kept [OF 1] have "error_count (cpplint_state gl) \<le> error_count (cpplint_state gl1)"
    by (simp add: settings_kept_def)
  with Cons.IH [OF 2] 1 show ?case by simp
qed simp

lemma sum_list_zero: "list_all (\<lambda>n. 0 \<le> n) ns \<Longrightarrow> 0 \<le> sum_list ns \<and> (sum_list ns > 0 \<longleftrightarrow> list_ex (\<lambda>n. n > 0) ns)" for ns :: "int list"
  by (induction ns) auto



end
