(* ===== verification/CpplintDir.thy ===== *)
theory CpplintDir
  imports Driver
begin

text \<open>
  \<^verbatim>\<open>script/cpplint_dir.py\<close>: the program that finds the sources of the repository and runs the linter on them. The
  directory of the repository, the walk over a directory, the interpreter and the process that is run are the
  record \<open>host\<close>. \<^verbatim>\<open>subprocess.check_output\<close> raises \<^verbatim>\<open>CalledProcessError\<close> when the status is not 0; an interpreter that
  cannot be started raises an \<^verbatim>\<open>OSError\<close>, which nothing catches.
\<close>

section \<open>The host\<close>

record host =
  root_dir :: string
  walk_files :: "string \<Rightarrow> (string \<times> string list) list"
  interpreter :: string
  run_process :: "string list \<Rightarrow> (int \<times> string) option"

definition black_file_list :: "host \<Rightarrow> string list" where
  "black_file_list h = [path_join (path_join (path_join (root_dir h) ''src'') ''net'') ''net_error_list.h'']"

definition execute :: "host \<Rightarrow> string list \<Rightarrow> (bool \<times> string) option" where
  "execute h argv =
     (case run_process h argv of None \<Rightarrow> None | Some (status, text) \<Rightarrow> Some (if status = 0 then (True, text) else (False, text)))"

section \<open>The files\<close>

definition linted_extensions :: "string list" where
  "linted_extensions = [''.cc'', ''.h'', ''.cpp'', ''.cu'', ''.cuh'']"

fun name_loop :: "host \<Rightarrow> string \<Rightarrow> string list \<Rightarrow> string list" where
  "name_loop h dirpath [] = []"
| "name_loop h dirpath (name # names) =
     (let (file_name, file_extension) = splitext name in
      if file_extension \<notin> set linted_extensions then name_loop h dirpath names
      else (let f = path_join dirpath name in
            (if f \<notin> set (black_file_list h) then [f] else []) @ name_loop h dirpath names))"

definition find_files :: "host \<Rightarrow> string list" where
  "find_files h = concat (map (\<lambda>(dirpath, files). name_loop h dirpath files) (walk_files h (path_join (root_dir h) ''src'')))"

section \<open>The program\<close>

definition cpplint_arguments :: "string list \<Rightarrow> string list" where
  "cpplint_arguments files = [''--root=src''] @ files"

definition run_cpplint :: "host \<Rightarrow> string list \<Rightarrow> (bool \<times> string) option" where
  "run_cpplint h files =
     (let cpplint = path_join (path_join (root_dir h) ''script'') ''cpplint.py'' in
      execute h ([interpreter h, cpplint] @ cpplint_arguments files))"

text \<open>The status, what is printed and what goes to the standard error; \<open>None\<close> is an exception.\<close>

definition cpplint_dir_main :: "host \<Rightarrow> string list \<Rightarrow> (int \<times> string \<times> string) option" where
  "cpplint_dir_main h argv =
     (case run_cpplint h (find_files h) of
        None \<Rightarrow> None
      | Some (success, text) \<Rightarrow>
          Some (if success then (0, if ''-v'' \<in> set argv then text @ [newline] else [], [])
                else (1, [], text @ [newline])))"

section \<open>Which files are found\<close>

lemma name_loop_set:
  "set (name_loop h d names) = {path_join d n | n. n \<in> set names \<and> snd (splitext n) \<in> set linted_extensions} - set (black_file_list h)"
  by (induction names) (auto simp: Let_def case_prod_beta)

lemma find_files_set:
  "set (find_files h) = {path_join d n | d ns n. (d, ns) \<in> set (walk_files h (path_join (root_dir h) ''src'')) \<and> n \<in> set ns \<and>
     snd (splitext n) \<in> set linted_extensions} - set (black_file_list h)"
  by (fastforce simp: find_files_def name_loop_set)

lemma splitext_append: "fst (splitext p) @ snd (splitext p) = p"
  by (simp add: splitext_def Let_def)

lemma extension_after_dot:
  assumes "CHR ''.'' \<notin> set e"
  shows "file_extension_of (u @ ''.'' @ e) = e"
proof -
  have "find_at (rev e @ CHR ''.'' # rev u) ''.'' = Some (length e)" using find_separator [of "CHR ''.''" "rev e" "rev u"] assms by simp
  then have "py_rfind (u @ ''.'' @ e) ''.'' = int (length u)" by (simp add: py_rfind_def)
  then show ?thesis by (simp add: file_extension_of_def py_from_def clip_def nat_add_distrib)
qed

lemma found_extension:
  assumes "f \<in> set (find_files h)"
  shows "file_extension_of f \<in> set (valid_extensions init_globals)"
proof -
  obtain d n where f: "f = path_join d n" "snd (splitext n) \<in> set linted_extensions" using assms by (auto simp: find_files_set)
  have "list_all (\<lambda>e. hd e = CHR ''.'' \<and> e \<noteq> [] \<and> CHR ''.'' \<notin> set (tl e) \<and> tl e \<in> set (valid_extensions init_globals)) linted_extensions"
    by code_simp
  with f(2) have x: "hd (snd (splitext n)) = CHR ''.''" "snd (splitext n) \<noteq> []" "CHR ''.'' \<notin> set (tl (snd (splitext n)))"
    "tl (snd (splitext n)) \<in> set (valid_extensions init_globals)" by (simp_all add: list_all_iff)
  then obtain e where e: "snd (splitext n) = ''.'' @ e" "CHR ''.'' \<notin> set e" "e \<in> set (valid_extensions init_globals)"
    by (cases "snd (splitext n)") simp_all
  have n: "n = fst (splitext n) @ ''.'' @ e" using splitext_append [of n] e(1) by simp
  have "path_join d n = (if startswith n ''/'' then [] else if d = [] \<or> endswith d ''/'' then d else d @ ''/'') @ n"
    by (simp add: path_join_def)
  then obtain u where "path_join d n = u @ n" by blast
  then have "f = (u @ fst (splitext n)) @ ''.'' @ e" using n f(1) by (metis append.assoc)
  with extension_after_dot [OF e(2)] e(3) show ?thesis by metis
qed

lemma found_absolute:
  assumes "list_all (\<lambda>(d, ns). startswith d ''/'') (walk_files h (path_join (root_dir h) ''src''))" and "f \<in> set (find_files h)"
  shows "startswith f ''/''"
proof -
  obtain d n where "f = path_join d n" "startswith d ''/''" using assms by (fastforce simp: find_files_set list_all_iff)
  then show ?thesis by (cases d) (auto simp: path_join_def)
qed

section \<open>The linter accepts them\<close>

text \<open>
  C24. The two programs fit together. What \<^verbatim>\<open>cpplint_dir.py\<close> passes to the linter are exactly the files under \<^verbatim>\<open>src\<close> with
  one of the five extensions, without the black-listed one. The linter takes the arguments as they are meant:
  as the root \<^verbatim>\<open>src\<close> and these files, none of which it mistakes for an option or passes over because of its
  extension; and without any file it leaves with its usage. A walk from an absolute directory gives absolute
  directories.
\<close>

theorem cpplint_dir_is_understood:
  assumes "list_all (\<lambda>(d, ns). startswith d ''/'') (walk_files h (path_join (root_dir h) ''src''))"
  shows "set (find_files h) = {path_join d n | d ns n. (d, ns) \<in> set (walk_files h (path_join (root_dir h) ''src'')) \<and> n \<in> set ns \<and>
      snd (splitext n) \<in> set linted_extensions} - set (black_file_list h) \<and>
    (case ParseArguments w (cpplint_arguments (find_files h)) init_globals of
       Returned (filenames, gl) \<Rightarrow> filenames = find_files h \<and> root gl = Some ''src'' \<and>
         list_all (\<lambda>f. file_extension_of f \<in> set (valid_extensions gl)) filenames
     | Exited status gl \<Rightarrow> find_files h = [] \<and> status = 1
     | Uncaught \<Rightarrow> False)"
proof -
  let ?fs = "find_files h"
  have "?fs = [] \<or> \<not> startswith (hd ?fs) ''-'' \<or> hd ?fs = ''-''"
    using found_absolute [OF assms, of "hd ?fs"] by (cases ?fs) auto
  then have "getopt long_options ?fs = Some ([], ?fs)" by (cases ?fs) auto
  moreover have "proper_option (''--root'', ''src'')" "render_option (''--root'', ''src'') = ''--root=src''" by code_simp+
  ultimately have opts: "getopt long_options (cpplint_arguments ?fs) = Some ([(''--root'', ''src'')], ?fs)"
    using getopt_option [of "(''--root'', ''src'')" ?fs] by (simp add: cpplint_arguments_def)
  have one: "one_option w ''--root'' ''src'' ps gl = Returned (ps, gl\<lparr>root := Some ''src''\<rparr>)" for ps gl
    by (simp add: one_option_def)
  have "list_all signed_filter (DEFAULT_FILTERS @ split_filters [])" by code_simp
  then have filters: "\<exists>st'. SetFilters [] st = Inr st'" for st
    unfolding SetFilters_def using AddFilters_Inr [of "[]" "st\<lparr>filters := DEFAULT_FILTERS\<rparr>"] by auto
  show ?thesis
  proof (cases "?fs = []")
    case True
    then show ?thesis
      using find_files_set [of h] opts by (simp add: ParseArguments_def one PrintUsage_def Let_def)
  next
    case False
    let ?gl = "snd (module_SetVerboseLevel (VerboseLevel init_globals) (module_SetOutputFormat (OutputFormat init_globals)
      (init_globals\<lparr>root := Some ''src''\<rparr>)))"
    obtain st where st: "SetFilters [] (cpplint_state ?gl) = Inr st" using filters by blast
    have "root ?gl = Some ''src''" "valid_extensions ?gl = valid_extensions init_globals"
      by (simp_all add: module_SetVerboseLevel_def SetVerboseLevel_def module_SetOutputFormat_def map_state_def)
    with False opts st find_files_set [of h] found_extension [of _ h] show ?thesis
      by (simp add: ParseArguments_def one module_SetFilters_def outcome_of_def module_SetCountingStyle_def map_state_def list_all_iff)
  qed
qed

definition sample_host :: host where
  "sample_host = \<lparr>root_dir = ''/r'', walk_files = (\<lambda>d. [(d, [''a.cc'', ''README'', ''.h'']), (d @ ''/net'', [''b.h'', ''net_error_list.h''])]),
     interpreter = ''python'', run_process = (\<lambda>_. Some (0, []))\<rparr>"

theorem cpplint_dir_is_understood_witness:
  "find_files sample_host = [''/r/src/a.cc'', ''/r/src/net/b.h''] \<and>
   (\<exists>gl. ParseArguments sample_world (cpplint_arguments [''/r/src/a.cc'', ''/r/src/net/b.h'']) init_globals =
     Returned ([''/r/src/a.cc'', ''/r/src/net/b.h''], gl) \<and> root gl = Some ''src'')"
proof -
  have f: "find_files sample_host = [''/r/src/a.cc'', ''/r/src/net/b.h'']" by code_simp
  have "list_all (\<lambda>(d, ns). startswith d ''/'') (walk_files sample_host (path_join (root_dir sample_host) ''src''))" by code_simp
  from cpplint_dir_is_understood [OF this, of sample_world] show ?thesis
    unfolding f by (auto split: outcome.splits)
qed

end
