(* ===== verification/ProtocWrapper.thy ===== *)
theory ProtocWrapper
  imports Driver
begin

text \<open>
  \<^verbatim>\<open>build/protoc_wrapper.py\<close>: the program that runs the protocol buffer compiler, with what it uses of the modules
  \<^verbatim>\<open>optparse\<close> and \<^verbatim>\<open>fnmatch\<close>. The file system is a state: the contents of the files by path, the directories and
  what was written to the standard error. Every operation gives back the state it leaves, also when it raises,
  because the program must clean up then. The compiler itself, the walk over a directory, the names in it and
  the name of a new temporary directory are the record \<open>tools\<close>.
\<close>

section \<open>The file system\<close>

record disk =
  contents :: "string \<rightharpoonup> string"
  dirs :: "string set"
  messages :: "string list"

record tools =
  realpath :: "string \<Rightarrow> string"
  walk :: "disk \<Rightarrow> string \<Rightarrow> (string \<times> string list) list"
  listdir :: "disk \<Rightarrow> string \<Rightarrow> string list option"
  mkdtemp :: "string set \<Rightarrow> string"
  call :: "string list \<Rightarrow> disk \<Rightarrow> (int \<times> disk) option"

text \<open>\<open>Done\<close> is a return, \<open>Leave\<close> is \<^verbatim>\<open>sys.exit\<close> and \<open>Raised\<close> an exception.\<close>

datatype 'a result = Done 'a (left: disk) | Leave int (left: disk) | Raised (left: disk)

primrec chain :: "'a result \<Rightarrow> ('a \<Rightarrow> disk \<Rightarrow> 'b result) \<Rightarrow> 'b result" where
  "chain (Done x d) k = k x d"
| "chain (Leave n d) k = Leave n d"
| "chain (Raised d) k = Raised d"

text \<open>\<^verbatim>\<open>for line in f\<close>: the lines keep their newlines, and the last one may have none.\<close>

fun file_lines :: "string \<Rightarrow> string list" where
  "file_lines [] = []"
| "file_lines (c # s) =
     (if c = newline then [c] # file_lines s
      else case file_lines s of [] \<Rightarrow> [[c]] | l # ls \<Rightarrow> (c # l) # ls)"

definition under :: "string \<Rightarrow> string \<Rightarrow> bool" where
  "under d p \<longleftrightarrow> startswith p (d @ ''/'')"

text \<open>\<^verbatim>\<open>shutil.rmtree\<close>\<close>

definition rmtree :: "string \<Rightarrow> disk \<Rightarrow> unit result" where
  "rmtree d disk =
     (if d \<in> dirs disk
      then Done () (disk\<lparr>contents := (\<lambda>p. if under d p then None else contents disk p), dirs := {p \<in> dirs disk. p \<noteq> d \<and> \<not> under d p}\<rparr>)
      else Raised disk)"

section \<open>The header\<close>

definition PROTOC_INCLUDE_POINT :: string where
  "PROTOC_INCLUDE_POINT = ''// @@protoc_insertion_point(includes)'' @ [newline]"

definition extra_header_msg :: "string \<Rightarrow> string" where
  "extra_header_msg extra_header = (''#include '' @ double_quote) @ extra_header @ double_quote @ [newline]"

fun header_contents :: "string \<Rightarrow> string list \<Rightarrow> string list \<times> bool" where
  "header_contents extra_header [] = ([], False)"
| "header_contents extra_header (line # lines) =
     (let (rest, found) = header_contents extra_header lines in
      if line = PROTOC_INCLUDE_POINT then (line # extra_header_msg extra_header # rest, True)
      else (line # rest, found))"

definition ModifyHeader :: "string \<Rightarrow> string \<Rightarrow> disk \<Rightarrow> int result" where
  "ModifyHeader header_file extra_header disk =
     (case contents disk header_file of
        None \<Rightarrow> Raised disk
      | Some text \<Rightarrow>
          (let (lines, include_point_found) = header_contents extra_header (file_lines text) in
           if \<not> include_point_found then Done 1 disk
           else Done 0 (disk\<lparr>contents := (contents disk)(header_file \<mapsto> concat lines)\<rparr>)))"

section \<open>Names with hyphens\<close>

text \<open>\<^verbatim>\<open>fnmatch\<close> with the pattern \<^verbatim>\<open>*-*.proto\<close>.\<close>

definition bad_name :: "string \<Rightarrow> bool" where
  "bad_name name \<longleftrightarrow> endswith name ''.proto'' \<and> CHR ''-'' \<in> set (take (length name - length ''.proto'') name)"

fun scan_loop :: "string \<Rightarrow> bool \<Rightarrow> (string \<times> string list) list \<Rightarrow> string list \<Rightarrow> bool \<times> string list" where
  "scan_loop real_scan_root badname [] written = (badname, written)"
| "scan_loop real_scan_root badname ((dirpath, filenames) # rest) written =
     (let matches = filter bad_name filenames in
      if matches = [] then scan_loop real_scan_root badname rest written
      else scan_loop real_scan_root True rest
             (written @
              (if badname then []
               else [''proto files must not have hyphens in their names (see http://crbug.com/386125 for more information):'' @
                     [newline]]) @
              map (\<lambda>filename. ''  '' @ path_join (path_join real_scan_root dirpath) filename @ [newline]) matches))"

definition ScanForBadFiles :: "tools \<Rightarrow> string option \<Rightarrow> disk \<Rightarrow> bool result" where
  "ScanForBadFiles t scan_root disk =
     (case scan_root of
        None \<Rightarrow> Raised disk
      | Some r \<Rightarrow>
          (let real_scan_root = realpath t r;
               (badname, written) = scan_loop real_scan_root False (walk t disk real_scan_root) (messages disk)
           in Done badname (disk\<lparr>messages := written\<rparr>)))"

section \<open>Rewriting for the system's protobuf\<close>

definition kept_line :: "string \<Rightarrow> bool" where
  "kept_line line \<longleftrightarrow> \<not> (contains line ''LITE_RUNTIME'' \<or> contains line ''retain_unknown_fields'')"

definition rewritten :: "string \<Rightarrow> string" where
  "rewritten text = concat (filter kept_line (file_lines text))"

fun rewrite_loop :: "string \<Rightarrow> string \<Rightarrow> string list \<Rightarrow> disk \<Rightarrow> unit result" where
  "rewrite_loop path wrapper_dir [] disk = Done () disk"
| "rewrite_loop path wrapper_dir (filename # filenames) disk =
     (if \<not> endswith filename ''.proto'' then rewrite_loop path wrapper_dir filenames disk
      else (case contents disk (path_join path filename) of
              None \<Rightarrow> Raised disk
            | Some text \<Rightarrow> rewrite_loop path wrapper_dir filenames
                (disk\<lparr>contents := (contents disk)(path_join wrapper_dir filename \<mapsto> rewritten text)\<rparr>)))"

definition RewriteProtoFilesForSystemProtobuf :: "tools \<Rightarrow> string \<Rightarrow> disk \<Rightarrow> string result" where
  "RewriteProtoFilesForSystemProtobuf t path disk =
     (let wrapper_dir = mkdtemp t (dirs disk);
          disk = disk\<lparr>dirs := insert wrapper_dir (dirs disk)\<rparr>
      in case (case listdir t disk path of
                 None \<Rightarrow> Raised disk
               | Some filenames \<Rightarrow> rewrite_loop path wrapper_dir filenames disk) of
           Done _ disk \<Rightarrow> Done wrapper_dir disk
         | Leave n disk \<Rightarrow> Leave n disk
         | Raised disk \<Rightarrow> chain (rmtree wrapper_dir disk) (\<lambda>_ disk. Raised disk))"

section \<open>The options\<close>

record protoc_options =
  extra_header :: "string option"
  generated_header :: "string option"
  proto_in_dir :: "string option"
  proto_in_file :: "string option"
  use_system_protobuf :: int

definition default_options :: protoc_options where
  "default_options = \<lparr>extra_header = None, generated_header = None, proto_in_dir = None, proto_in_file = None,
     use_system_protobuf = 0\<rparr>"

definition option_names :: "string list" where
  "option_names = [''--help'', ''--include'', ''--protobuf'', ''--proto-in-dir'', ''--proto-in-file'', ''--use-system-protobuf'']"

text \<open>The value of a digit, and \<^verbatim>\<open>int(s, radix)\<close>, where the text may have the mark of its radix.\<close>

definition digit_of :: "char \<Rightarrow> int option" where
  "digit_of c = (let n = int (code c) in
     if 48 \<le> n \<and> n \<le> 57 then Some (n - 48)
     else if 97 \<le> n \<and> n \<le> 122 then Some (n - 87)
     else if 65 \<le> n \<and> n \<le> 90 then Some (n - 55) else None)"

fun digits_value :: "int \<Rightarrow> int \<Rightarrow> string \<Rightarrow> int option" where
  "digits_value radix n [] = Some n"
| "digits_value radix n (c # s) =
     (case digit_of c of
        None \<Rightarrow> None
      | Some d \<Rightarrow> if d < radix then digits_value radix (radix * n + d) s else None)"

definition int_radix :: "int \<Rightarrow> string \<Rightarrow> string \<Rightarrow> int option" where
  "int_radix radix mark s =
     (let t = str_strip s;
          signed = (startswith t ''+'' \<or> startswith t ''-'');
          u = (if signed then dropWhile re_space (drop 1 t) else t);
          v = (if py_lower (take 2 u) = mark then drop 2 u else u)
      in if v = [] then None
         else map_option (\<lambda>n. if startswith t ''-'' then - n else n) (digits_value radix 0 v))"

text \<open>The function \<^verbatim>\<open>_parse_num\<close> of \<^verbatim>\<open>optparse\<close>: \<^verbatim>\<open>0x\<close>, \<^verbatim>\<open>0b\<close> and a leading zero choose the radix.\<close>

definition parse_num :: "string \<Rightarrow> int option" where
  "parse_num val =
     (if py_lower (take 2 val) = ''0x'' then int_radix 16 ''0x'' val
      else if py_lower (take 2 val) = ''0b'' then int_radix 2 ''0b'' (if drop 2 val = [] then ''0'' else drop 2 val)
      else if take 1 val = ''0'' then int_radix 8 ''0o'' val
      else py_int val)"

text \<open>\<^verbatim>\<open>_match_abbrev\<close>: \<open>None\<close> is a \<^verbatim>\<open>BadOptionError\<close>, also for an abbreviation of several options.\<close>

definition match_abbrev :: "string \<Rightarrow> string option" where
  "match_abbrev s =
     (if s \<in> set option_names then Some s
      else (case filter (\<lambda>name. startswith name s) option_names of [name] \<Rightarrow> Some name | _ \<Rightarrow> None))"

text \<open>\<open>Inl\<close> is the status with which the parser leaves: 0 after the help, 2 after an error.\<close>

definition set_option :: "string \<Rightarrow> string \<Rightarrow> protoc_options \<Rightarrow> int + protoc_options" where
  "set_option opt value ps =
     (if opt = ''--include'' then Inr (ps\<lparr>extra_header := Some value\<rparr>)
      else if opt = ''--protobuf'' then Inr (ps\<lparr>generated_header := Some value\<rparr>)
      else if opt = ''--proto-in-dir'' then Inr (ps\<lparr>proto_in_dir := Some value\<rparr>)
      else if opt = ''--proto-in-file'' then Inr (ps\<lparr>proto_in_file := Some value\<rparr>)
      else (case parse_num value of None \<Rightarrow> Inl 2 | Some n \<Rightarrow> Inr (ps\<lparr>use_system_protobuf := n\<rparr>)))"

text \<open>A long option; the arguments that are left follow it.\<close>

definition process_long_opt :: "string \<Rightarrow> string list \<Rightarrow> protoc_options \<Rightarrow> int + (protoc_options \<times> string list)" where
  "process_long_opt arg rargs ps =
     (let explicit = (CHR ''='' \<in> set arg);
          opt = fst (py_partition (CHR ''='') arg);
          rargs = (if explicit then snd (py_partition (CHR ''='') arg) # rargs else rargs)
      in case match_abbrev opt of
           None \<Rightarrow> Inl 2
         | Some opt \<Rightarrow>
             if opt = ''--help'' then (if explicit then Inl 2 else Inl 0)
             else (case rargs of
                     [] \<Rightarrow> Inl 2
                   | value # rargs \<Rightarrow>
                       (case set_option opt value ps of Inl n \<Rightarrow> Inl n | Inr ps \<Rightarrow> Inr (ps, rargs))))"

lemma process_long_opt_args: "process_long_opt arg rargs ps = Inr (ps', rest) \<Longrightarrow> length rest \<le> length rargs"
  by (auto simp: process_long_opt_def Let_def split: option.splits list.splits sum.splits if_splits)

text \<open>The only short option is \<^verbatim>\<open>-h\<close>.\<close>

function process_args :: "string list \<Rightarrow> protoc_options \<Rightarrow> int + (protoc_options \<times> string list)" where
  "process_args [] ps = Inr (ps, [])"
| "process_args (arg # rargs) ps =
     (if arg = ''--'' then Inr (ps, rargs)
      else if startswith arg ''--''
      then (case process_long_opt arg rargs ps of Inl n \<Rightarrow> Inl n | Inr (ps, rest) \<Rightarrow> process_args rest ps)
      else if startswith arg ''-'' \<and> length arg > 1
      then Inl (if arg ! 1 = CHR ''h'' then 0 else 2)
      else (case process_args rargs ps of Inl n \<Rightarrow> Inl n | Inr (ps, largs) \<Rightarrow> Inr (ps, arg # largs)))"
  by pat_completeness auto
termination
  by (relation "measure (\<lambda>(args, ps). length args)") (auto dest!: process_long_opt_args)

section \<open>The program\<close>

text \<open>The clause \<^verbatim>\<open>finally\<close>: an exception of its own replaces what happened before.\<close>

definition and_finally :: "'a result \<Rightarrow> (disk \<Rightarrow> unit result) \<Rightarrow> 'a result" where
  "and_finally r cleanup =
     (case cleanup (left r) of
        Raised disk \<Rightarrow> Raised disk
      | Leave n disk \<Rightarrow> Leave n disk
      | Done _ disk \<Rightarrow> (case r of Done x _ \<Rightarrow> Done x disk | Leave n _ \<Rightarrow> Leave n disk | Raised _ \<Rightarrow> Raised disk))"

text \<open>\<open>path_join\<close> of \<^verbatim>\<open>None\<close> raises.\<close>

definition run_protoc :: "tools \<Rightarrow> string list \<Rightarrow> string \<Rightarrow> string option \<Rightarrow> disk \<Rightarrow> int result" where
  "run_protoc t args proto_path in_file disk =
     (case in_file of
        None \<Rightarrow> Raised disk
      | Some f \<Rightarrow>
          (case call t (drop 1 args @ [''--proto_path='' @ proto_path, path_join proto_path f]) disk of
             None \<Rightarrow> Raised disk
           | Some (ret, disk) \<Rightarrow> Done ret disk))"

definition protoc_main :: "tools \<Rightarrow> string list \<Rightarrow> disk \<Rightarrow> int result" where
  "protoc_main t argv disk =
     (case process_args argv default_options of
        Inl status \<Rightarrow> Leave status disk
      | Inr (ps, args) \<Rightarrow>
          if length args < 2 then Done 1 disk
          else chain (ScanForBadFiles t (proto_in_dir ps) disk) (\<lambda>bad disk.
            if bad then Done 1 disk
            else chain (if use_system_protobuf ps = 1
                        then RewriteProtoFilesForSystemProtobuf t (the (proto_in_dir ps)) disk
                        else Done (the (proto_in_dir ps)) disk) (\<lambda>proto_path disk.
            chain (and_finally (run_protoc t args proto_path (proto_in_file ps) disk)
                     (\<lambda>disk. if use_system_protobuf ps = 1 then rmtree proto_path disk else Done () disk)) (\<lambda>ret disk.
              if ret \<noteq> 0 then Done ret disk
              else (case (extra_header ps, generated_header ps) of
                      (Some e, Some g) \<Rightarrow> if e = [] \<or> g = [] then Done 0 disk else ModifyHeader g e disk
                    | _ \<Rightarrow> Done 0 disk)))))"

section \<open>What the header gains\<close>

lemma concat_file_lines [simp]: "concat (file_lines s) = s"
  by (induction s) (auto split: list.splits)

lemma header_contents_spec:
  "header_contents e ls = (concat (map (\<lambda>l. if l = PROTOC_INCLUDE_POINT then [l, extra_header_msg e] else [l]) ls),
     PROTOC_INCLUDE_POINT \<in> set ls)"
  by (induction ls) auto

text \<open>
  C25. \<^verbatim>\<open>ModifyHeader\<close> adds the include and nothing else: for a header that can be read, it returns 1 and changes
  nothing when no line is the insertion point; otherwise it returns 0, and the header has the include line after
  every insertion point, all its own lines in their order and no other difference; no other file changes.
\<close>

theorem ModifyHeader_inserts:
  assumes "contents disk header_file = Some header"
  shows "ModifyHeader header_file extra disk =
    (if PROTOC_INCLUDE_POINT \<notin> set (file_lines header) then Done 1 disk
     else Done 0 (disk\<lparr>contents := (contents disk)(header_file \<mapsto>
            concat (map (\<lambda>l. if l = PROTOC_INCLUDE_POINT then l @ extra_header_msg extra else l) (file_lines header)))\<rparr>))"
proof -
  have "concat (concat (map (\<lambda>l. if l = PROTOC_INCLUDE_POINT then [l, extra_header_msg extra] else [l]) ls)) =
      concat (map (\<lambda>l. if l = PROTOC_INCLUDE_POINT then l @ extra_header_msg extra else l) ls)" for ls
    by (induction ls) auto
  with assms show ?thesis by (simp add: ModifyHeader_def header_contents_spec)
qed

definition sample_disk :: disk where
  "sample_disk = \<lparr>contents = [''a.pb.h'' \<mapsto> ''#x'' @ [newline] @ PROTOC_INCLUDE_POINT @ ''y'', ''p/m.proto'' \<mapsto> ''a'' @ [newline] @ ''optimize_for = LITE_RUNTIME;''],
     dirs = {''p''}, messages = []\<rparr>"

theorem ModifyHeader_inserts_witness:
  "ModifyHeader ''a.pb.h'' ''e.h'' sample_disk = Done 0 (sample_disk\<lparr>contents := (contents sample_disk)(''a.pb.h'' \<mapsto>
     ''#x'' @ [newline] @ PROTOC_INCLUDE_POINT @ extra_header_msg ''e.h'' @ ''y'')\<rparr>)"
proof -
  have "contents sample_disk ''a.pb.h'' = Some (''#x'' @ [newline] @ PROTOC_INCLUDE_POINT @ ''y'')" by (simp add: sample_disk_def)
  moreover have "file_lines (''#x'' @ [newline] @ PROTOC_INCLUDE_POINT @ ''y'') = [''#x'' @ [newline], PROTOC_INCLUDE_POINT, ''y'']"
    "''#x'' @ [newline] \<noteq> PROTOC_INCLUDE_POINT" "''y'' \<noteq> PROTOC_INCLUDE_POINT" by code_simp+
  ultimately show ?thesis using ModifyHeader_inserts [of sample_disk "''a.pb.h''"] by simp
qed

section \<open>What is scanned and rewritten\<close>

lemma bad_name_iff: "bad_name name \<longleftrightarrow> (\<exists>a b. name = a @ ''-'' @ b @ ''.proto'')"
proof
  assume "bad_name name"
  then obtain u where u: "name = u @ ''.proto''" "CHR ''-'' \<in> set u" by (auto simp: bad_name_def endswith_iff)
  then show "\<exists>a b. name = a @ ''-'' @ b @ ''.proto''" by (auto dest!: split_list)
next
  assume "\<exists>a b. name = a @ ''-'' @ b @ ''.proto''"
  then obtain a b where "name = (a @ ''-'' @ b) @ ''.proto''" by auto
  then show "bad_name name" by (auto simp: bad_name_def endswith_iff)
qed

lemma scan_loop_finds:
  "fst (scan_loop r bad ds written) \<longleftrightarrow> bad \<or> (\<exists>(d, names) \<in> set ds. \<exists>name \<in> set names. bad_name name)"
proof (induction r bad ds written rule: scan_loop.induct)
  case (2 r bad d names rest written)
  then show ?case by (auto simp: Let_def filter_empty_conv)
qed simp

section \<open>Nothing temporary is left\<close>

lemma rmtree_removes: "d \<notin> dirs (left (rmtree d disk))"
  by (simp add: rmtree_def)

lemma rewrite_not_leave: "rewrite_loop path d names disk \<noteq> Leave n disk'"
  by (induction names arbitrary: disk) (auto split: option.splits)

lemma rewrite_leaves:
  assumes "RewriteProtoFilesForSystemProtobuf t path disk = r"
  shows "(\<exists>disk'. r = Done (mkdtemp t (dirs disk)) disk') \<or> (\<exists>disk'. r = Raised disk' \<and> mkdtemp t (dirs disk) \<notin> dirs disk')"
  using assms
  by (auto simp: RewriteProtoFilesForSystemProtobuf_def Let_def rewrite_not_leave rmtree_def
      split: result.splits option.splits if_splits)

lemma and_finally_left:
  assumes "\<And>disk. d \<notin> dirs (left (cleanup disk))" and "\<And>disk n disk'. cleanup disk \<noteq> Leave n disk'"
  shows "d \<notin> dirs (left (and_finally r cleanup))"
  using assms(1) [of "left r"] by (auto simp: and_finally_def split: result.splits)

lemma ModifyHeader_dirs: "dirs (left (ModifyHeader h e disk)) = dirs disk"
  by (auto simp: ModifyHeader_def split: option.splits prod.splits)


definition sample_tools :: tools where
  "sample_tools = \<lparr>realpath = (\<lambda>p. p), walk = (\<lambda>_ d. [(d, [''m.proto''])]), listdir = (\<lambda>_ _. Some [''m.proto'', ''x'']),
     mkdtemp = (\<lambda>_. ''/tmp/t''), call = (\<lambda>_ disk. Some (3, disk\<lparr>dirs := insert ''out'' (dirs disk)\<rparr>))\<rparr>"


text \<open>
  C26. The names are checked as documented: the scan of the directory that was given finds a bad file exactly when
  some file in the tree under its real path is called \<^verbatim>\<open>a-b.proto\<close> for some \<^verbatim>\<open>a\<close> and \<^verbatim>\<open>b\<close>, and then the program
  returns 1 without running the compiler or touching a file.
\<close>

theorem hyphens_are_refused:
  assumes "process_args argv default_options = Inr (ps, args)" and "2 \<le> length args" and "proto_in_dir ps = Some dir"
  shows "(\<exists>d names a b. (d, names) \<in> set (walk t disk (realpath t dir)) \<and> a @ ''-'' @ b @ ''.proto'' \<in> set names) \<longleftrightarrow>
    (\<exists>disk'. ScanForBadFiles t (Some dir) disk = Done True disk' \<and> protoc_main t argv disk = Done 1 disk' \<and>
       contents disk' = contents disk \<and> dirs disk' = dirs disk)"
proof -
  let ?r = "scan_loop (realpath t dir) False (walk t disk (realpath t dir)) (messages disk)"
  have "fst ?r \<longleftrightarrow> (\<exists>d names a b. (d, names) \<in> set (walk t disk (realpath t dir)) \<and> a @ ''-'' @ b @ ''.proto'' \<in> set names)"
    unfolding scan_loop_finds bad_name_iff by fastforce
  moreover have "ScanForBadFiles t (Some dir) disk = Done (fst ?r) (disk\<lparr>messages := snd ?r\<rparr>)"
    by (simp add: ScanForBadFiles_def Let_def case_prod_beta)
  ultimately show ?thesis using assms by (auto simp: protoc_main_def)
qed

theorem hyphens_are_refused_witness:
  "\<exists>disk. protoc_main (sample_tools\<lparr>walk := (\<lambda>_ d. [(d, [''m-n.proto''])])\<rparr>) [''w'', ''--proto-in-dir=p'', ''protoc''] sample_disk = Done 1 disk"
proof -
  let ?t = "sample_tools\<lparr>walk := (\<lambda>_ d. [(d, [''m-n.proto''])])\<rparr>"
  have a: "process_args [''w'', ''--proto-in-dir=p'', ''protoc''] default_options =
      Inr (default_options\<lparr>proto_in_dir := Some ''p''\<rparr>, [''w'', ''protoc''])" by code_simp
  have "(''p'', [''m'' @ ''-'' @ ''n'' @ ''.proto'']) \<in> set (walk ?t sample_disk (realpath ?t ''p''))" by (simp add: sample_tools_def)
  then have "\<exists>d names a b. (d, names) \<in> set (walk ?t sample_disk (realpath ?t ''p'')) \<and> a @ ''-'' @ b @ ''.proto'' \<in> set names"
    by (metis list.set_intros(1))
  with hyphens_are_refused [OF a, of "''p''" ?t sample_disk] show ?thesis by (simp add: default_options_def) blast
qed

end
