(* ===== verification/Spec2Isabelle.thy ===== *)
theory Spec2Isabelle
  imports CpplintDir ProtocWrapper
begin

text \<open>
  A verification development of the Python programs of the DN repository: the style checker
  \<^verbatim>\<open>src/script/cpplint.py\<close>, the script \<^verbatim>\<open>src/script/cpplint_dir.py\<close> that runs it over the sources, and the wrapper
  \<^verbatim>\<open>src/build/protoc_wrapper.py\<close> of the protocol buffer compiler. The three are modelled whole, from \<^verbatim>\<open>main\<close> down.

  \<^bold>\<open>The program.\<close> \<^verbatim>\<open>cpplint_dir.py\<close> walks the tree and starts \<^verbatim>\<open>cpplint.py\<close> with the files it finds. \<^verbatim>\<open>main\<close> of
  \<^verbatim>\<open>cpplint.py\<close> reads the command line and calls \<^verbatim>\<open>ProcessFile\<close> for each file; this reads the configuration files
  of the directories above it, reads the file and hands its lines to \<^verbatim>\<open>ProcessFileData\<close>. There the comments are
  removed, four views of the lines are made (\<^verbatim>\<open>CleansedLines\<close>), and \<^verbatim>\<open>ProcessLine\<close> runs all the checks on one line
  after the other, while three objects carry state along: the includes seen, the function counted and the
  blocks the line is nested in. Every check reports to \<^verbatim>\<open>Error\<close>, which consults the suppressions, the verbosity and
  the filters, counts and writes. The status of the process tells whether anything was written.

  \<^bold>\<open>How code is modelled.\<close> A Python function is a HOL function of the same name. A function that may raise, or
  may not return, gives an \<open>option\<close> (the type \<open>'a py\<close>): \<open>None\<close> is an exception or a loop without end. A class is a
  record with one function per method, which takes the record and gives it back changed. A check does not
  write: it gives the list of its \<open>event\<close>s, in order, and \<open>perform_all\<close> carries them out; this is sound because no
  check reads what the sink keeps. What is not code of the repository is a parameter: the existing paths and
  the working directory (\<open>os\<close>), files, standard input and the orders in which sets and dictionaries are iterated
  (\<open>world\<close>), the process that is run (\<open>host\<close>), the compiler and the directory walk (\<open>tools\<close>). Of the Python library,
  what is used of strings, \<^verbatim>\<open>re\<close>, \<^verbatim>\<open>os.path\<close>, \<^verbatim>\<open>getopt\<close>, \<^verbatim>\<open>optparse\<close> and \<^verbatim>\<open>fnmatch\<close> is written out.

  \<^bold>\<open>Theories.\<close>
  \<^item> \<open>Prelude\<close>: strings, indices and slices as Python has them; the collections of facts.
  \<^item> \<open>Regex\<close>, \<open>RegexRules\<close>: a parser of the pattern syntax the programs use, a backtracking matcher with the
    priorities of \<^verbatim>\<open>sre\<close>, and its meaning as a relation; \<^verbatim>\<open>Match\<close>, \<^verbatim>\<open>Search\<close>, \<^verbatim>\<open>ReplaceAll\<close>. The locale \<open>matcher\<close> states
    what a matcher promises and is interpreted on the backtracking one. The rules read off a pattern what a
    match consists of, that a group leaves a shorter rest, that a group is a column of the line, or that it
    holds a name; the checks use them to show that their loops end and their indices are in range.
  \<^item> \<open>LintState\<close>: categories, NOLINT comments, \<^verbatim>\<open>_CppLintState\<close>, \<^verbatim>\<open>Error\<close> and its filters. The locale \<open>suppression_store\<close>
    is what the sink relies on of the suppressions.
  \<^item> \<open>IncludeState\<close>, \<open>FunctionState\<close>: the classes of these names. \<open>Cleanse\<close>: comments, raw strings, literals and the class
    \<^verbatim>\<open>CleansedLines\<close>. \<open>Expressions\<close>: the matching of brackets over lines. \<open>Nesting\<close>: the blocks and \<^verbatim>\<open>NestingState\<close>;
    \<open>NestingInvariant\<close>: its invariant, and that \<^verbatim>\<open>Update\<close> returns. \<open>FileInfo\<close>: paths, the name in the repository and
    the header guard.
  \<^item> \<open>FileChecks\<close>, \<open>IncludeChecks\<close>: the checks of a whole file and of includes. \<open>LineChecks\<close>, \<open>SpacingChecks\<close>, \<open>BraceChecks\<close>,
    \<open>RValueChecks\<close>, \<open>CastChecks\<close>, \<open>ConstructChecks\<close>, \<open>LanguageChecks\<close>: the checks of a line, up to \<^verbatim>\<open>CheckStyle\<close> and
    \<^verbatim>\<open>CheckLanguage\<close>. The locale \<open>line_check\<close> is the contract of a check: on every line of a cleansed file it returns,
    and reports that file and line, a listed category and a confidence from 0 to 5; \<open>construct_check\<close> is the
    weaker one of a check whose reports may lie further down. Each check is an interpretation of one of them.
  \<^item> \<open>ProcessLines\<close>: \<^verbatim>\<open>ProcessLine\<close>, \<^verbatim>\<open>ProcessFileData\<close>. \<open>Driver\<close>: configuration files, \<^verbatim>\<open>ProcessFile\<close>, the command line, \<^verbatim>\<open>main\<close>.
  \<^item> \<open>CpplintDir\<close>, \<open>ProtocWrapper\<close>: the other two programs.

  \<^bold>\<open>What is shown.\<close> The matcher finds what a pattern denotes, leftmost and anchored. Cleansing is total and keeps
  the number of lines; comments are removed as specified. A bracket is matched by one of its kind, and the two
  searches are inverse on nested expressions. Conditionals save and restore the nesting; a balanced line keeps
  it; \<^verbatim>\<open>Update\<close> returns and keeps its invariant. Filters, suppressions and counters decide and count as documented.
  The order of includes is that of the style guide. The checks keep their contracts, except on the lines that
  are characterised exactly: a cast cut at the end of a line, a constructor whose arguments do not balance, and
  an rvalue reference whose search does not end. Put together, \<^verbatim>\<open>ProcessFileData\<close> returns on every file without such
  a line. Files leave the settings of the run as they were, apart from the line length; configuration files
  have the documented priority for filters, and the opposite one for the line length; the status of the
  process is right; the command line is read back. \<^verbatim>\<open>cpplint_dir.py\<close> passes the linter what it accepts, and the
  wrapper of the compiler never leaves its temporary directory behind.

  \<^bold>\<open>Loops.\<close> No fuel is used for loops of the programs. A loop that counts or shortens its text is a function with a
  termination proof; one that need not end is a \<open>partial_function\<close> in the option monad, and that it returns is
  then proved, or, for the climb of a Subversion checkout and for \<^verbatim>\<open>IsRValueType\<close>, that it does not always return.
  The matcher counts down the positions of the text, of which there is one more than characters.

  \<^bold>\<open>Limits.\<close> Text is modelled for code points below 256 (a \<open>string\<close> of HOL): wide and combining characters and the
  replacement character do not occur in a file, while the check of bad characters itself is over all code
  points. A file is read whole or not at all. Where an exception ends the program, the messages written before
  it are not described. A pattern given by a user (\<^verbatim>\<open>exclude_files\<close>, \<^verbatim>\<open>--root\<close>) outside the syntax that is modelled counts
  as malformed. Paths are those of POSIX, integers those of Python, without bound.

  \<^bold>\<open>Not modelled.\<close> The cache of compiled patterns (it does not change what \<^verbatim>\<open>Match\<close> gives), the wrapping of the standard
  error in an encoder, imports and the licence and documentation text. The download manager under \<^verbatim>\<open>src/src\<close> is C++
  over libraries of Chromium, and \<^verbatim>\<open>src/third_party\<close>, \<^verbatim>\<open>src/testing\<close> and the other files of \<^verbatim>\<open>src/build\<close> are vendored code
  and build descriptions.
\<close>

end
